(* ===== verification/Prelude.thy ===== *)
theory Prelude
  imports Complex_Main "HOL-Library.Word" "HOL-Library.Signed_Division" "HOL-Library.AList"
begin

text \<open>
  Shared vocabulary of the development: the outcomes of a Go computation, Go's 64-bit
  integers, byte slices and strings, decimal printing, and Go maps as association lists.

  \<^item> A call either returns (\<open>Ret\<close>), panics (\<open>Panic\<close>, an uncaught Go panic), ends the
    process (\<open>Exit\<close>, from \<^verbatim>\<open>util.Fatal\<close>, \<^verbatim>\<open>util.Fatalf\<close> or \<^verbatim>\<open>os.Exit\<close>), or spends the fuel of a
    loop that has no bound of its own (\<open>Diverge\<close>). Go's \<^verbatim>\<open>error\<close> results are ordinary values.
  \<^item> \<^verbatim>\<open>int64\<close> and \<^verbatim>\<open>int\<close> are mathematical integers, with \<open>wrap64\<close> at every operation that can
    overflow. Hashes and encodings use machine words directly.
  \<^item> A Go map is an association list with distinct keys. Its order stands for the order in
    which a \<^verbatim>\<open>range\<close> loop happens to visit it, so a theorem for every list is a theorem for
    every iteration order.
\<close>

named_theorems outcome_simps \<open>rewriting of sequenced outcomes\<close>
named_theorems int64_simps \<open>wrap-around arithmetic in range\<close>


section \<open>Outcomes\<close>

datatype 'a outcome = Ret 'a | Panic string | Exit string | Diverge

primrec obind :: "'a outcome \<Rightarrow> ('a \<Rightarrow> 'b outcome) \<Rightarrow> 'b outcome" where
  "obind (Ret x) f = f x"
| "obind (Panic m) f = Panic m"
| "obind (Exit m) f = Exit m"
| "obind Diverge f = Diverge"

primrec is_ret :: "'a outcome \<Rightarrow> bool" where
  "is_ret (Ret x) = True"
| "is_ret (Panic m) = False"
| "is_ret (Exit m) = False"
| "is_ret Diverge = False"

text \<open>A \<^verbatim>\<open>for\<close> loop over a list whose body may fail and updates a state.\<close>

fun ofold :: "('a \<Rightarrow> 's \<Rightarrow> 's outcome) \<Rightarrow> 'a list \<Rightarrow> 's \<Rightarrow> 's outcome" where
  "ofold f [] s = Ret s"
| "ofold f (x # xs) s = obind (f x s) (ofold f xs)"

type_synonym goerror = string

lemma obind_eq_Ret [outcome_simps]:
  "obind m f = Ret y \<longleftrightarrow> (\<exists>x. m = Ret x \<and> f x = Ret y)"
  by (cases m) auto

lemma obind_assoc [outcome_simps]:
  "obind (obind m f) g = obind m (\<lambda>x. obind (f x) g)"
  by (cases m) auto

lemma obind_Ret_right [simp]: "obind m Ret = m"
  by (cases m) auto

lemma obind_cong [fundef_cong]:
  "m = n \<Longrightarrow> (\<And>x. n = Ret x \<Longrightarrow> f x = g x) \<Longrightarrow> obind m f = obind n g"
  by (cases n) auto

lemma is_ret_iff: "is_ret m \<longleftrightarrow> (\<exists>x. m = Ret x)"
  by (cases m) auto

lemma ofold_append: "ofold f (xs @ ys) s = obind (ofold f xs s) (ofold f ys)"
  by (induction xs arbitrary: s) (auto simp: obind_assoc intro: obind_cong)

lemma ofold_invariant:
  assumes "ofold f xs s = Ret t" "I s"
    and "\<And>x s t. x \<in> set xs \<Longrightarrow> I s \<Longrightarrow> f x s = Ret t \<Longrightarrow> I t"
  shows "I t"
  using assms
  by (induction xs arbitrary: s) (auto simp: obind_eq_Ret)


text \<open>
  Reasoning about outcomes that may fail: \<open>osafe m P\<close> says that \<open>m\<close> does not end the process and that a
  value it returns satisfies \<open>P\<close>.
\<close>

definition osafe :: "'a outcome \<Rightarrow> ('a \<Rightarrow> bool) \<Rightarrow> bool" where
  "osafe m P = (case m of Ret x \<Rightarrow> P x | Exit _ \<Rightarrow> False | _ \<Rightarrow> True)"

lemma osafe_simps [simp]: "osafe (Ret x) P = P x" "osafe (Panic s) P" "osafe Diverge P" "\<not> osafe (Exit s) P"
  by (simp_all add: osafe_def)

lemma osafe_bind: "osafe m P \<Longrightarrow> (\<And>x. P x \<Longrightarrow> osafe (f x) Q) \<Longrightarrow> osafe (obind m f) Q"
  by (cases m) auto

lemma osafe_mono: "osafe m P \<Longrightarrow> (\<And>x. P x \<Longrightarrow> Q x) \<Longrightarrow> osafe m Q"
  by (cases m) auto

lemma osafe_RetI: "(\<And>x. m = Ret x \<Longrightarrow> P x) \<Longrightarrow> (\<And>s. m \<noteq> Exit s) \<Longrightarrow> osafe m P"
  by (cases m) auto

section \<open>64-bit integers\<close>

abbreviation min64 :: int where "min64 \<equiv> - 9223372036854775808"
abbreviation max64 :: int where "max64 \<equiv> 9223372036854775807"

definition in64 :: "int \<Rightarrow> bool" where
  "in64 x \<longleftrightarrow> min64 \<le> x \<and> x \<le> max64"

definition wrap64 :: "int \<Rightarrow> int" where
  "wrap64 x = (x + 9223372036854775808) mod 18446744073709551616 - 9223372036854775808"

text \<open>Go's \<^verbatim>\<open>/\<close> and \<^verbatim>\<open>%\<close> truncate towards zero and panic on a zero divisor.\<close>

definition i64_div :: "int \<Rightarrow> int \<Rightarrow> int outcome" where
  "i64_div a b = (if b = 0 then Panic ''integer divide by zero'' else Ret (wrap64 (a sdiv b)))"

definition i64_rem :: "int \<Rightarrow> int \<Rightarrow> int outcome" where
  "i64_rem a b = (if b = 0 then Panic ''integer divide by zero'' else Ret (a smod b))"

lemma wrap64_id [int64_simps]: "in64 x \<Longrightarrow> wrap64 x = x"
  unfolding wrap64_def in64_def by (simp add: mod_pos_pos_trivial)

lemma in64_wrap64 [simp, intro]: "in64 (wrap64 x)"
proof -
  have "0 \<le> (x + 9223372036854775808) mod 18446744073709551616"
    and "(x + 9223372036854775808) mod 18446744073709551616 < 18446744073709551616"
    by simp_all
  then show ?thesis unfolding wrap64_def in64_def by linarith
qed

lemma wrap64_wrap64 [simp]: "wrap64 (wrap64 x) = wrap64 x"
  by (simp add: wrap64_id)

lemma sint_word_wrap64: "sint (word_of_int x :: 64 word) = wrap64 x"
  by (simp add: int_word_sint wrap64_def)

lemma smod_nonneg: "0 \<le> a \<Longrightarrow> 0 < b \<Longrightarrow> a smod b = a mod (b::int)"
  by (simp add: signed_modulo_int_def signed_divide_int_def minus_mult_div_eq_mod sgn_if)

lemma sdiv_nonneg: "0 \<le> a \<Longrightarrow> 0 < b \<Longrightarrow> a sdiv b = a div (b::int)"
  by (cases "a = 0") (simp_all add: signed_divide_int_def sgn_if)

lemma i64_rem_nonneg [int64_simps]: "0 \<le> a \<Longrightarrow> 0 < b \<Longrightarrow> i64_rem a b = Ret (a mod b)"
  by (simp add: i64_rem_def smod_nonneg)

lemma i64_div_nonneg [int64_simps]:
  assumes "0 \<le> a" "0 < b" "in64 a"
  shows "i64_div a b = Ret (a div b)"
proof -
  have "a div b \<le> a" and "0 \<le> a div b"
    using assms zdiv_mono2 [of a 1 b] by (simp_all add: pos_imp_zdiv_nonneg_iff)
  then have "in64 (a div b)" using assms unfolding in64_def by linarith
  then show ?thesis using assms by (simp add: i64_div_def sdiv_nonneg wrap64_id)
qed

lemma i64_rem_range:
  assumes "i64_rem a b = Ret c" "0 \<le> a" "0 < b"
  shows "0 \<le> c \<and> c < b"
  using assms by (simp add: i64_rem_nonneg) auto


section \<open>Bytes and strings\<close>

type_synonym byte = "8 word"
type_synonym bytes = "byte list"

definition to_bytes :: "string \<Rightarrow> bytes" where
  "to_bytes s = map (\<lambda>c. of_nat (of_char c)) s"

definition of_bytes :: "bytes \<Rightarrow> string" where
  "of_bytes b = map (\<lambda>w. char_of (unat w)) b"

lemma length_to_bytes [simp]: "length (to_bytes s) = length s"
  by (simp add: to_bytes_def)

lemma to_bytes_append [simp]: "to_bytes (s @ t) = to_bytes s @ to_bytes t"
  by (simp add: to_bytes_def)

lemma unat_of_char: "unat (of_nat (of_char c) :: byte) = of_char c"
  by (simp add: unat_of_nat take_bit_eq_mod)

lemma of_bytes_to_bytes [simp]: "of_bytes (to_bytes s) = s"
  by (simp add: of_bytes_def to_bytes_def unat_of_char map_idI)

lemma inj_to_bytes: "inj to_bytes"
  by (metis injI of_bytes_to_bytes)

lemma to_bytes_eq_iff [simp]: "to_bytes s = to_bytes t \<longleftrightarrow> s = t"
  using inj_to_bytes by (auto dest: injD)

section \<open>Decimal printing\<close>

fun decimal :: "nat \<Rightarrow> string" where
  "decimal n = (if n < 10 then [char_of (48 + n)] else decimal (n div 10) @ [char_of (48 + n mod 10)])"

declare decimal.simps [simp del]

text \<open>The verb \<^verbatim>\<open>%d\<close>.\<close>

definition itoa :: "int \<Rightarrow> string" where
  "itoa x = (if x < 0 then ''-'' @ decimal (nat (- x)) else decimal (nat x))"

text \<open>
  The verb \<^verbatim>\<open>%0*d\<close>: zeros fill the width given as an argument, after the sign. A negative
  width means left alignment, which cancels the zeros; a width beyond a million is refused
  and the number is printed as it is.
\<close>

definition fmt_0d :: "int \<Rightarrow> int \<Rightarrow> string" where
  "fmt_0d w x =
     (let d = decimal (nat \<bar>x\<bar>); s = (if x < 0 then ''-'' else [])
      in if 1000000 < w \<or> w < - 1000000 then ''%!(BADWIDTH)'' @ s @ d
         else if w < 0 then s @ d @ replicate (nat (- w) - length (s @ d)) (CHR '' '')
         else s @ replicate (nat w - length (s @ d)) (CHR ''0'') @ d)"

definition digit_val :: "char \<Rightarrow> nat" where
  "digit_val c = of_char c - 48"

definition decimal_val :: "string \<Rightarrow> nat" where
  "decimal_val s = foldl (\<lambda>a c. 10 * a + digit_val c) 0 s"

lemma digit_val_char [simp]: "d < 10 \<Longrightarrow> digit_val (char_of (48 + d)) = d"
  by (simp add: digit_val_def)

lemma decimal_val_decimal [simp]: "decimal_val (decimal n) = n"
proof (induction n rule: decimal.induct)
  case (1 n)
  then show ?case
    by (cases "n < 10") (simp_all add: decimal.simps [of n] decimal_val_def)
qed

lemma decimal_inject [simp]: "decimal m = decimal n \<longleftrightarrow> m = n"
  by (metis decimal_val_decimal)

lemma decimal_nonempty [simp]: "decimal n \<noteq> []"
  by (subst decimal.simps) simp

lemma decimal_val_zeros: "decimal_val (replicate k (CHR ''0'') @ s) = decimal_val s"
proof -
  have "foldl (\<lambda>a c. 10 * a + digit_val c) 0 (replicate k (CHR ''0'')) = 0"
    by (induction k) (simp_all add: digit_val_def)
  then show ?thesis by (simp add: decimal_val_def)
qed

definition digit_char :: "char \<Rightarrow> bool" where
  "digit_char c \<longleftrightarrow> 48 \<le> (of_char c :: nat) \<and> (of_char c :: nat) \<le> 57"

lemma digit_char_char [simp]: "(d::nat) < 10 \<Longrightarrow> digit_char (char_of (48 + d))"
  by (simp add: digit_char_def)

lemma decimal_digits: "c \<in> set (decimal n) \<Longrightarrow> digit_char c"
proof (induction n rule: decimal.induct)
  case (1 n)
  then show ?case
    by (cases "n < 10") (auto simp: decimal.simps [of n])
qed

lemma decimal_no_minus [simp]:
  "decimal n \<noteq> CHR ''-'' # s" "CHR ''-'' # s \<noteq> decimal n"
proof -
  have "CHR ''-'' \<notin> set (decimal n)"
    using decimal_digits [of "CHR ''-''" n] by (auto simp: digit_char_def)
  then show "decimal n \<noteq> CHR ''-'' # s" by (metis list.set_intros(1))
  then show "CHR ''-'' # s \<noteq> decimal n" by metis
qed

lemma itoa_inject [simp]: "itoa x = itoa y \<longleftrightarrow> x = y"
  by (auto simp: itoa_def)

lemma fmt_0d_inject:
  assumes "0 \<le> w" "w \<le> 1000000" "0 \<le> x" "0 \<le> y" "fmt_0d w x = fmt_0d w y"
  shows "x = y"
proof -
  have "decimal_val (fmt_0d w z) = nat z" if "0 \<le> z" for z
    using assms(1,2) that by (simp add: fmt_0d_def Let_def decimal_val_zeros)
  then have "nat x = nat y" using assms by metis
  then show ?thesis using assms by simp
qed

lemma length_fmt_0d:
  assumes "0 \<le> w" "w \<le> 1000000"
  shows "nat w \<le> length (fmt_0d w x)"
  using assms by (auto simp: fmt_0d_def Let_def)

lemma length_decimal: "0 < k \<Longrightarrow> n < 10 ^ k \<Longrightarrow> length (decimal n) \<le> k"
proof (induction n arbitrary: k rule: decimal.induct)
  case (1 n)
  show ?case
  proof (cases "n < 10")
    case False
    then obtain j where j: "k = Suc j" "0 < j" using "1.prems" by (cases k; cases "k - 1") auto
    then have "length (decimal (n div 10)) \<le> j" using 1 False by (intro "1.IH") auto
    then show ?thesis by (simp add: decimal.simps [of n] j)
  qed (use "1.prems" in \<open>simp add: decimal.simps [of n]\<close>)
qed

lemma fmt_0d_nonempty [simp]: "fmt_0d w x \<noteq> []"
  by (simp add: fmt_0d_def Let_def)

lemma length_fmt_0d_le:
  assumes "0 \<le> w" "w \<le> 1000000" "in64 x"
  shows "length (fmt_0d w x) \<le> max (nat w) 20"
proof -
  have "length (decimal (nat \<bar>x\<bar>)) \<le> 19" using assms(3) by (intro length_decimal) (auto simp: in64_def)
  then show ?thesis using assms(1,2) by (auto simp: fmt_0d_def Let_def)
qed


section \<open>Go maps\<close>

type_synonym ('k, 'v) gomap = "('k \<times> 'v) list"
type_synonym row = "(string, bytes) gomap"

definition wf_map :: "('k, 'v) gomap \<Rightarrow> bool" where
  "wf_map m \<longleftrightarrow> distinct (map fst m)"

text \<open>The loop \<^verbatim>\<open>for k, v := range src { dst[k] = v }\<close>.\<close>

fun map_assign :: "('k, 'v) gomap \<Rightarrow> ('k, 'v) gomap \<Rightarrow> ('k, 'v) gomap" where
  "map_assign dst [] = dst"
| "map_assign dst ((k, v) # src) = map_assign (AList.update k v dst) src"

text \<open>\<^verbatim>\<open>m[k]\<close>: the zero value of the element type where the key is missing.\<close>

definition map_index :: "'v \<Rightarrow> ('k, 'v) gomap \<Rightarrow> 'k \<Rightarrow> 'v" where
  "map_index z m k = (case map_of m k of Some v \<Rightarrow> v | None \<Rightarrow> z)"

lemma wf_map_Nil [simp]: "wf_map []"
  by (simp add: wf_map_def)

lemma wf_map_Cons [simp]: "wf_map ((k, v) # m) \<longleftrightarrow> k \<notin> fst ` set m \<and> wf_map m"
  by (simp add: wf_map_def)

lemma wf_map_update [simp, intro]: "wf_map m \<Longrightarrow> wf_map (AList.update k v m)"
  by (simp add: wf_map_def distinct_update)

lemma wf_map_delete [simp, intro]: "wf_map m \<Longrightarrow> wf_map (AList.delete k m)"
  by (simp add: wf_map_def distinct_delete)

lemma wf_map_assign [simp, intro]: "wf_map dst \<Longrightarrow> wf_map (map_assign dst src)"
  by (induction dst src rule: map_assign.induct) auto

lemma map_of_map_assign:
  "wf_map src \<Longrightarrow> map_of (map_assign dst src) = map_of dst ++ map_of src"
proof (induction dst src rule: map_assign.induct)
  case (2 dst k v src)
  then have "map_of src k = None" by (simp add: map_of_eq_None_iff)
  with 2 show ?case
    by (auto simp: update_conv map_add_def fun_eq_iff split: option.splits)
qed simp

lemma wf_map_of_Some_iff: "wf_map m \<Longrightarrow> map_of m k = Some v \<longleftrightarrow> (k, v) \<in> set m"
  by (simp add: wf_map_def)

lemma map_eqI: "(\<And>k v. m k = Some v \<longleftrightarrow> n k = Some v) \<Longrightarrow> m = n"
  by (rule ext) (metis not_None_eq)

lemma wf_map_card_dom: "wf_map m \<Longrightarrow> card (dom (map_of m)) = length m"
  by (metis wf_map_def dom_map_of_conv_image_fst distinct_card length_map set_map)

end
