(* ===== verification/Float64.thy ===== *)
theory Float64
  imports Prelude "HOL-Library.Log_Nat"
begin

text \<open>
  Go's \<^verbatim>\<open>float64\<close>: IEEE 754 binary64 with rounding to nearest, ties to even. A finite number is
  its sign and its magnitude, an exact rational (the sign tells the two zeros apart). Every
  operation computes the exact result and rounds it once, as the standard says, so the
  definitions run on concrete numbers. \<open>round_mag_mono\<close> and \<open>round_mag_int\<close> are what the
  bounds of the generators rest on.

  Converting a float that is out of range to \<^verbatim>\<open>int64\<close> is implementation-defined in Go; the
  model takes what the amd64 instruction gives, the least integer. No operation is fused
  with another, which is what the compiler does on that platform.
\<close>

datatype float64 = NaN | Inf bool | Num bool rat


section \<open>Rounding\<close>

text \<open>\<open>ilog2 x\<close> is the binary exponent of a positive rational: \<open>2 ^ ilog2 x \<le> x < 2 ^ (ilog2 x + 1)\<close>.\<close>

definition ilog2 :: "rat \<Rightarrow> int" where
  "ilog2 x = (if 1 \<le> x then bitlen \<lfloor>x\<rfloor> - 1 else - bitlen (\<lceil>1 / x\<rceil> - 1))"

definition round_even :: "rat \<Rightarrow> int" where
  "round_even x =
     (let f = \<lfloor>x\<rfloor>; d = x - of_int f
      in if d < 1 / 2 then f else if 1 / 2 < d then f + 1 else if even f then f else f + 1)"

definition ulp_exp :: "rat \<Rightarrow> int" where
  "ulp_exp x = max (ilog2 x - 52) (- 1074)"

definition round_mag :: "rat \<Rightarrow> rat" where
  "round_mag x = (if x \<le> 0 then 0
     else let u = 2 powi (ulp_exp x) in of_int (round_even (x / u)) * u)"

definition mk_num :: "bool \<Rightarrow> rat \<Rightarrow> float64" where
  "mk_num s x = (let m = round_mag x in if 0 < m \<and> 1024 \<le> ilog2 m then Inf s else Num s m)"


section \<open>Operations\<close>

fun f64_neg :: "float64 \<Rightarrow> float64" where
  "f64_neg NaN = NaN"
| "f64_neg (Inf s) = Inf (\<not> s)"
| "f64_neg (Num s m) = Num (\<not> s) m"

definition signed :: "bool \<Rightarrow> rat \<Rightarrow> rat" where
  "signed s m = (if s then - m else m)"

fun f64_add :: "float64 \<Rightarrow> float64 \<Rightarrow> float64" where
  "f64_add (Num s m) (Num t n) =
     (let v = signed s m + signed t n in if v = 0 then Num (s \<and> t) 0 else mk_num (v < 0) \<bar>v\<bar>)"
| "f64_add (Inf s) (Inf t) = (if s = t then Inf s else NaN)"
| "f64_add (Inf s) (Num t n) = Inf s"
| "f64_add (Num s m) (Inf t) = Inf t"
| "f64_add _ _ = NaN"

definition f64_sub :: "float64 \<Rightarrow> float64 \<Rightarrow> float64" where
  "f64_sub a b = f64_add a (f64_neg b)"

fun f64_mul :: "float64 \<Rightarrow> float64 \<Rightarrow> float64" where
  "f64_mul (Num s m) (Num t n) = mk_num (s \<noteq> t) (m * n)"
| "f64_mul (Inf s) (Inf t) = Inf (s \<noteq> t)"
| "f64_mul (Inf s) (Num t n) = (if n = 0 then NaN else Inf (s \<noteq> t))"
| "f64_mul (Num s m) (Inf t) = (if m = 0 then NaN else Inf (s \<noteq> t))"
| "f64_mul _ _ = NaN"

fun f64_div :: "float64 \<Rightarrow> float64 \<Rightarrow> float64" where
  "f64_div (Num s m) (Num t n) =
     (if n = 0 then (if m = 0 then NaN else Inf (s \<noteq> t)) else mk_num (s \<noteq> t) (m / n))"
| "f64_div (Inf s) (Num t n) = Inf (s \<noteq> t)"
| "f64_div (Num s m) (Inf t) = Num (s \<noteq> t) 0"
| "f64_div _ _ = NaN"

fun f64_lt :: "float64 \<Rightarrow> float64 \<Rightarrow> bool" where
  "f64_lt (Num s m) (Num t n) = (signed s m < signed t n)"
| "f64_lt (Inf s) (Inf t) = (s \<and> \<not> t)"
| "f64_lt (Inf s) (Num t n) = s"
| "f64_lt (Num s m) (Inf t) = (\<not> t)"
| "f64_lt _ _ = False"

fun f64_eq :: "float64 \<Rightarrow> float64 \<Rightarrow> bool" where
  "f64_eq (Num s m) (Num t n) = (signed s m = signed t n)"
| "f64_eq (Inf s) (Inf t) = (s = t)"
| "f64_eq _ _ = False"

definition f64_le :: "float64 \<Rightarrow> float64 \<Rightarrow> bool" where
  "f64_le a b \<longleftrightarrow> f64_lt a b \<or> f64_eq a b"

definition f64_of_int :: "int \<Rightarrow> float64" where
  "f64_of_int n = mk_num (n < 0) (of_int \<bar>n\<bar>)"

fun f64_to_int :: "float64 \<Rightarrow> int" where
  "f64_to_int (Num s m) = (let k = (if s then - \<lfloor>m\<rfloor> else \<lfloor>m\<rfloor>) in if in64 k then k else min64)"
| "f64_to_int (Inf s) = min64"
| "f64_to_int NaN = min64"

text \<open>A constant of the source: the exact decimal, rounded once.\<close>

definition f64_lit :: "rat \<Rightarrow> float64" where
  "f64_lit x = mk_num (x < 0) \<bar>x\<bar>"

text \<open>The functions of package \<^verbatim>\<open>math\<close> that the generators call; they are not correctly rounded
  and differ between platforms, so they stay parameters.\<close>

record mathlib =
  math_Pow :: "float64 \<Rightarrow> float64 \<Rightarrow> float64"
  math_Log :: "float64 \<Rightarrow> float64"

instantiation float64 :: "{plus, minus, times, inverse, uminus}"
begin

definition plus_float64 :: "float64 \<Rightarrow> float64 \<Rightarrow> float64" where
  "plus_float64 = f64_add"

definition minus_float64 :: "float64 \<Rightarrow> float64 \<Rightarrow> float64" where
  "minus_float64 = f64_sub"

definition times_float64 :: "float64 \<Rightarrow> float64 \<Rightarrow> float64" where
  "times_float64 = f64_mul"

definition divide_float64 :: "float64 \<Rightarrow> float64 \<Rightarrow> float64" where
  "divide_float64 = f64_div"

definition inverse_float64 :: "float64 \<Rightarrow> float64" where
  "inverse_float64 = f64_div (Num False 1)"

definition uminus_float64 :: "float64 \<Rightarrow> float64" where
  "uminus_float64 = f64_neg"

instance ..

end

lemmas f64_ops = plus_float64_def minus_float64_def times_float64_def divide_float64_def
  uminus_float64_def

section \<open>Rounding is monotone and exact on integers\<close>

lemma floor_bitlen:
  assumes "1 \<le> (x::rat)"
  shows "2 powi (bitlen \<lfloor>x\<rfloor> - 1) \<le> x" "x < 2 powi (bitlen \<lfloor>x\<rfloor>)"
proof -
  have f: "1 \<le> \<lfloor>x\<rfloor>" using assms by (simp add: le_floor_iff)
  then have b: "2 ^ nat (bitlen \<lfloor>x\<rfloor> - 1) \<le> \<lfloor>x\<rfloor>" "\<lfloor>x\<rfloor> < 2 ^ nat (bitlen \<lfloor>x\<rfloor>)"
    using bitlen_bounds [of "\<lfloor>x\<rfloor>"] by auto
  have p: "0 < bitlen \<lfloor>x\<rfloor>" using f by (simp add: bitlen_def compute_floorlog)
  have "(of_int (2 ^ nat (bitlen \<lfloor>x\<rfloor> - 1)) :: rat) \<le> of_int \<lfloor>x\<rfloor>"
    using b(1) by (simp only: of_int_le_iff)
  also have "\<dots> \<le> x" by simp
  finally show "2 powi (bitlen \<lfloor>x\<rfloor> - 1) \<le> x" using p by (simp add: power_int_def)
  have "x < of_int (\<lfloor>x\<rfloor> + 1)" by linarith
  also have "(of_int (\<lfloor>x\<rfloor> + 1) :: rat) \<le> of_int (2 ^ nat (bitlen \<lfloor>x\<rfloor>))"
    using b(2) by (simp only: of_int_le_iff)
  finally show "x < 2 powi (bitlen \<lfloor>x\<rfloor>)" using p by (simp add: power_int_def)
qed

lemma ceiling_bitlen:
  assumes "1 < (y::rat)"
  shows "2 powi (bitlen (\<lceil>y\<rceil> - 1) - 1) < y" "y \<le> 2 powi (bitlen (\<lceil>y\<rceil> - 1))"
proof -
  define c where "c = \<lceil>y\<rceil> - 1"
  have c: "1 \<le> c" using assms unfolding c_def by (simp add: less_ceiling_iff)
  then have b: "2 ^ nat (bitlen c - 1) \<le> c" "c < 2 ^ nat (bitlen c)"
    using bitlen_bounds [of c] by auto
  have p: "0 < bitlen c" using c by (simp add: bitlen_def compute_floorlog)
  have "(of_int (2 ^ nat (bitlen c - 1)) :: rat) \<le> of_int c"
    using b(1) by (simp only: of_int_le_iff)
  also have "\<dots> < y" unfolding c_def by linarith
  finally show "2 powi (bitlen (\<lceil>y\<rceil> - 1) - 1) < y" using p by (simp add: power_int_def c_def)
  have "y \<le> of_int (c + 1)" unfolding c_def by simp
  also have "(of_int (c + 1) :: rat) \<le> of_int (2 ^ nat (bitlen c))"
    using b(2) by (simp only: of_int_le_iff)
  finally show "y \<le> 2 powi (bitlen (\<lceil>y\<rceil> - 1))" using p by (simp add: power_int_def c_def)
qed

lemma ilog2_bounds:
  assumes "0 < x"
  shows "2 powi (ilog2 x) \<le> x" "x < 2 powi (ilog2 x + 1)"
proof -
  have "2 powi (ilog2 x) \<le> x \<and> x < 2 powi (ilog2 x + 1)"
  proof (cases "1 \<le> x")
    case True
    then show ?thesis using floor_bitlen [OF True] by (simp add: ilog2_def)
  next
    case False
    define k where "k = bitlen (\<lceil>1 / x\<rceil> - 1)"
    have y: "1 < 1 / x" using False assms by simp
    have "1 / x \<le> 2 powi k" "2 powi (k - 1) < 1 / x"
      using ceiling_bitlen [OF y] by (simp_all add: k_def)
    then have "inverse (2 powi k) \<le> x" "x < inverse (2 powi (k - 1))"
      using assms by (simp_all add: field_simps)
    then show ?thesis
      using False by (simp add: ilog2_def k_def power_int_minus [symmetric])
  qed
  then show "2 powi (ilog2 x) \<le> x" "x < 2 powi (ilog2 x + 1)" by auto
qed

lemma powi2_less_iff [simp]: "(2::rat) powi a < 2 powi b \<longleftrightarrow> a < b"
proof -
  have "(2::rat) powi m < 2 powi n" if "m < n" for m n
    using that by (simp add: power_int_strict_increasing)
  then show ?thesis by (metis less_asym linorder_neqE)
qed

lemma powi2_le_iff [simp]: "(2::rat) powi a \<le> 2 powi b \<longleftrightarrow> a \<le> b"
  by (simp add: not_less [symmetric])

lemma ilog2_mono: "0 < x \<Longrightarrow> x \<le> y \<Longrightarrow> ilog2 x \<le> ilog2 y"
proof -
  assume a: "0 < x" "x \<le> y"
  have "2 powi (ilog2 x) < (2::rat) powi (ilog2 y + 1)"
    using ilog2_bounds(1) [of x] ilog2_bounds(2) [of y] a by linarith
  then show ?thesis by simp
qed

lemma ilog2_unique: "2 powi k \<le> x \<Longrightarrow> x < 2 powi (k + 1) \<Longrightarrow> ilog2 x = k"
proof -
  assume a: "2 powi k \<le> x" "x < 2 powi (k + 1)"
  have p: "0 < x" using a(1) zero_less_power_int [of "2::rat" k] by linarith
  have "2 powi k < (2::rat) powi (ilog2 x + 1)" "(2::rat) powi (ilog2 x) < 2 powi (k + 1)"
    using ilog2_bounds [OF p] a by linarith+
  then show ?thesis by simp
qed

lemma round_even_bounds: "\<lfloor>x\<rfloor> \<le> round_even x" "round_even x \<le> \<lfloor>x\<rfloor> + 1"
  by (simp_all add: round_even_def Let_def)

lemma round_even_of_int [simp]: "round_even (of_int n) = n"
  by (simp add: round_even_def)

lemma round_even_mono: "x \<le> y \<Longrightarrow> round_even x \<le> round_even y"
proof -
  assume le: "x \<le> y"
  then have f: "\<lfloor>x\<rfloor> \<le> \<lfloor>y\<rfloor>" by (rule floor_mono)
  show ?thesis
  proof (cases "\<lfloor>x\<rfloor> = \<lfloor>y\<rfloor>")
    case True
    then show ?thesis using le by (simp add: round_even_def Let_def)
  next
    case False
    then show ?thesis using f round_even_bounds(2) [of x] round_even_bounds(1) [of y] by linarith
  qed
qed

lemma powi2_int:
  assumes "j \<le> i"
  obtains n where "(2::rat) powi i / 2 powi j = of_int n"
proof
  have "(2::rat) powi i / 2 powi j = 2 powi (i - j)"
    by (simp add: power_int_diff)
  also have "\<dots> = of_int (2 ^ nat (i - j))" using assms by (simp add: power_int_def)
  finally show "(2::rat) powi i / 2 powi j = of_int (2 ^ nat (i - j))" .
qed

lemma round_mag_le_grid:
  assumes "0 < x" "x \<le> 2 powi i" "ulp_exp x \<le> i"
  shows "round_mag x \<le> 2 powi i"
proof -
  define u :: rat where "u = 2 powi (ulp_exp x)"
  have u: "0 < u" by (simp add: u_def)
  obtain n where n: "2 powi i / u = of_int n" using powi2_int [OF assms(3)] unfolding u_def by blast
  have "x / u \<le> of_int n" using assms(2) u n by (metis divide_right_mono less_imp_le)
  then have "round_even (x / u) \<le> n" using round_even_mono [of "x / u" "of_int n"] by simp
  then have "of_int (round_even (x / u)) * u \<le> of_int n * u" using u by simp
  also have "\<dots> = 2 powi i" using n u by (simp add: field_simps)
  finally show ?thesis using assms(1) by (simp add: round_mag_def u_def Let_def)
qed

lemma round_mag_ge_grid:
  assumes "0 < x" "2 powi i \<le> x" "ulp_exp x \<le> i"
  shows "2 powi i \<le> round_mag x"
proof -
  define u :: rat where "u = 2 powi (ulp_exp x)"
  have u: "0 < u" by (simp add: u_def)
  obtain n where n: "2 powi i / u = of_int n" using powi2_int [OF assms(3)] unfolding u_def by blast
  have "of_int n \<le> x / u" using assms(2) u n by (metis divide_right_mono less_imp_le)
  then have "n \<le> round_even (x / u)" using round_even_mono [of "of_int n" "x / u"] by simp
  then have "of_int n * u \<le> of_int (round_even (x / u)) * u" using u by simp
  moreover have "of_int n * u = 2 powi i" using n u by (simp add: field_simps)
  ultimately have "2 powi i \<le> of_int (round_even (x / u)) * u" by metis
  then show ?thesis using assms(1) by (simp add: round_mag_def u_def Let_def)
qed

lemma round_mag_nonneg [simp]: "0 \<le> round_mag x"
proof (cases "0 < x")
  case True
  then have "0 \<le> round_even (x / 2 powi ulp_exp x)"
    using round_even_mono [of 0 "x / 2 powi ulp_exp x"] round_even_of_int [of 0]
    by (simp add: less_imp_le)
  then show ?thesis by (simp add: round_mag_def Let_def)
qed (simp add: round_mag_def)

lemma round_mag_mono:
  assumes "x \<le> y"
  shows "round_mag x \<le> round_mag y"
proof (cases "0 < x")
  case False
  then show ?thesis by (simp add: round_mag_def [of x])
next
  case True
  then have y: "0 < y" using assms by simp
  have k: "ilog2 x \<le> ilog2 y" using ilog2_mono True assms by simp
  show ?thesis
  proof (cases "ulp_exp x = ulp_exp y")
    case eq: True
    have "x / 2 powi ulp_exp y \<le> y / 2 powi ulp_exp y" using assms by (simp add: divide_right_mono)
    then show ?thesis using True y eq round_even_mono
      by (simp add: round_mag_def Let_def)
  next
    case False
    then have e: "ilog2 x < ilog2 y" "ulp_exp x \<le> ilog2 y" "ulp_exp y \<le> ilog2 y"
      using k unfolding ulp_exp_def by auto
    have "x \<le> 2 powi (ilog2 y)"
    proof -
      have "x < 2 powi (ilog2 x + 1)" using ilog2_bounds(2) True .
      also have "\<dots> \<le> (2::rat) powi (ilog2 y)" using e(1) by simp
      finally show ?thesis by simp
    qed
    then have "round_mag x \<le> 2 powi (ilog2 y)" using round_mag_le_grid True e by blast
    also have "\<dots> \<le> round_mag y" using round_mag_ge_grid y e ilog2_bounds(1) by blast
    finally show ?thesis .
  qed
qed

text \<open>A rational on the grid of its binade is a float: rounding leaves it alone.\<close>

lemma round_mag_exact:
  assumes "x = of_int j * 2 powi i" "ulp_exp x \<le> i" "0 \<le> x"
  shows "round_mag x = x"
proof (cases "x = 0")
  case True
  then show ?thesis by (simp add: round_mag_def)
next
  case False
  define u :: rat where "u = 2 powi (ulp_exp x)"
  have u: "u \<noteq> 0" by (simp add: u_def)
  obtain n where n: "2 powi i / u = of_int n" using powi2_int [OF assms(2)] unfolding u_def by blast
  have "x / u = of_int j * (2 powi i / u)" by (subst assms(1)) simp
  then have "x / u = of_int (j * n)" by (simp add: n)
  then have "round_even (x / u) = j * n" by (simp only: round_even_of_int)
  then have "of_int (round_even (x / u)) * u = x" using \<open>x / u = of_int (j * n)\<close> u
    by (simp add: field_simps)
  then show ?thesis using False assms(3) by (simp add: round_mag_def u_def Let_def)
qed

lemma ilog2_less: "0 < x \<Longrightarrow> x < 2 powi k \<Longrightarrow> ilog2 x < k"
proof -
  assume a: "0 < x" "x < 2 powi k"
  then have "(2::rat) powi ilog2 x < 2 powi k" using ilog2_bounds(1) [of x] by linarith
  then show ?thesis by simp
qed

lemma round_mag_int:
  assumes "0 \<le> n" "n \<le> 9007199254740992"
  shows "round_mag (of_int n) = of_int n"
proof (cases "n = 9007199254740992")
  case True
  have "ilog2 (of_int 9007199254740992) = 53" by (rule ilog2_unique) (simp_all add: power_int_def)
  then have e: "ulp_exp (of_int n) \<le> 53" using True by (simp add: ulp_exp_def)
  show ?thesis
    by (rule round_mag_exact [where j = 1 and i = 53, OF _ e]) (simp_all add: True power_int_def)
next
  case False
  have "ulp_exp (of_int n) \<le> 0" if "n \<noteq> 0"
  proof -
    have "ilog2 (of_int n) < 53"
      using assms False that by (intro ilog2_less) (simp_all add: power_int_def)
    then show ?thesis by (simp add: ulp_exp_def)
  qed
  then show ?thesis
    using round_mag_exact [where x = "of_int n" and j = n and i = 0] assms(1)
    by (cases "n = 0") (simp_all add: round_mag_def)
qed

text \<open>Rounding never passes an integer that is itself a float.\<close>

lemma round_mag_le_int:
  assumes "x \<le> of_int n" "0 \<le> n" "n \<le> 9007199254740992"
  shows "round_mag x \<le> of_int n"
  using round_mag_mono [OF assms(1)] round_mag_int [OF assms(2,3)] by simp

lemma ilog2_small_int:
  assumes "0 < x" "x \<le> of_int n" "n \<le> 9007199254740992"
  shows "ilog2 x < 1024"
proof -
  have "x \<le> of_int 9007199254740992" using assms by (meson of_int_le_iff order_trans)
  then have "x < 2 powi 54" by (simp add: power_int_def)
  then show ?thesis using ilog2_less [OF assms(1), of 54] by simp
qed

lemma mk_num_le_int:
  assumes "x \<le> of_int n" "0 \<le> n" "n \<le> 9007199254740992"
  shows "mk_num s x = Num s (round_mag x)"
  using ilog2_small_int [OF _ round_mag_le_int [OF assms] assms(3)]
  by (fastforce simp: mk_num_def Let_def)

lemma f64_of_int_exact:
  assumes "\<bar>n\<bar> \<le> 9007199254740992"
  shows "f64_of_int n = Num (n < 0) (of_int \<bar>n\<bar>)"
  using assms mk_num_le_int [of "of_int \<bar>n\<bar>" "\<bar>n\<bar>" "n < 0"] round_mag_int [of "\<bar>n\<bar>"]
  by (simp add: f64_of_int_def)

text \<open>
  The shape \<^verbatim>\<open>int64(float64(n) * f)\<close> with a fraction \<open>f\<close> between 0 and 1: it stays between
  0 and \<open>n\<close> as long as \<open>n\<close> is exactly representable.
\<close>

lemma f64_fraction_of_int:
  assumes "0 \<le> n" "n \<le> 9007199254740992" "0 \<le> f" "f \<le> 1"
  shows "0 \<le> f64_to_int (f64_of_int n * Num False f)"
    and "f64_to_int (f64_of_int n * Num False f) \<le> n"
proof -
  define m where "m = round_mag (of_int n * f)"
  have le: "of_int n * f \<le> of_int n" using assms by (simp add: mult_left_le)
  then have m: "0 \<le> m" "m \<le> of_int n"
    using round_mag_le_int [OF le assms(1,2)] by (simp_all add: m_def)
  have "f64_of_int n * Num False f = Num False m"
    using assms mk_num_le_int [OF le assms(1,2)]
    by (simp add: f64_of_int_exact f64_ops m_def)
  moreover have fl: "0 \<le> \<lfloor>m\<rfloor>" "\<lfloor>m\<rfloor> \<le> n"
    using m by (simp_all add: floor_le_iff)
  moreover have "in64 \<lfloor>m\<rfloor>" using fl assms unfolding in64_def by linarith
  ultimately show "0 \<le> f64_to_int (f64_of_int n * Num False f)"
    and "f64_to_int (f64_of_int n * Num False f) \<le> n"
    using assms by (simp_all add: Let_def)
qed

text \<open>A well-formed float: its magnitude is one of binary64.\<close>

fun wf_f64 :: "float64 \<Rightarrow> bool" where
  "wf_f64 (Num s m) = (0 \<le> m \<and> round_mag m = m \<and> (0 < m \<longrightarrow> ilog2 m < 1024))"
| "wf_f64 _ = True"

text \<open>What a comparison with two finite numbers says about a float.\<close>

lemma f64_between:
  assumes "\<not> f64_lt x (Num False a)" "\<not> f64_lt (Num False b) x" "x \<noteq> NaN"
  obtains s m where "x = Num s m" "a \<le> signed s m" "signed s m \<le> b"
  using assms by (cases x) (auto simp: signed_def split: if_splits)

end
