(* ===== verification/GoRand.thy ===== *)
theory GoRand
  imports Float64
begin

text \<open>
  Package \<^verbatim>\<open>math/rand\<close> as the generators use it. A \<^verbatim>\<open>*rand.Rand\<close> is the stream of values its
  source will produce; every theorem holds for every stream, so for every seed and for every
  sequence of draws. \<^verbatim>\<open>Int63n(n)\<close> panics unless \<open>0 < n\<close> and returns the next value reduced modulo
  \<open>n\<close>. (The library first rejects the few top values that would bias the result; a stream
  stands for the values that are kept.) \<^verbatim>\<open>Float64\<close> divides a 53-bit draw by \<open>2 ^ 53\<close>.
\<close>

type_synonym rand = "nat \<Rightarrow> nat"

definition rand_rest :: "rand \<Rightarrow> rand" where
  "rand_rest r = (\<lambda>i. r (Suc i))"

definition Int63n :: "int \<Rightarrow> rand \<Rightarrow> (int \<times> rand) outcome" where
  "Int63n n r = (if n \<le> 0 then Panic ''invalid argument to Int63n''
     else Ret (int (r 0) mod n, rand_rest r))"

definition Intn :: "int \<Rightarrow> rand \<Rightarrow> (int \<times> rand) outcome" where
  "Intn n r = (if n \<le> 0 then Panic ''invalid argument to Intn''
     else Ret (int (r 0) mod n, rand_rest r))"

definition rand_Float64 :: "rand \<Rightarrow> float64 \<times> rand" where
  "rand_Float64 r =
     (f64_of_int (int (r 0) mod 9007199254740992) / f64_of_int 9007199254740992, rand_rest r)"

lemma rand_rest_app [simp]: "rand_rest r i = r (Suc i)"
  by (simp add: rand_rest_def)

lemma Int63n_Ret: "0 < n \<Longrightarrow> Int63n n r = Ret (int (r 0) mod n, rand_rest r)"
  by (simp add: Int63n_def)

lemma Int63n_range:
  "Int63n n r = Ret (k, r') \<Longrightarrow> 0 \<le> k \<and> k < n"
  by (auto simp: Int63n_def split: if_splits)

lemma Int63n_onto: "0 \<le> k \<Longrightarrow> k < n \<Longrightarrow> \<exists>r. Int63n n r = Ret (k, r)"
  by (intro exI [of _ "\<lambda>_. nat k"]) (auto simp: Int63n_def rand_rest_def)

text \<open>A draw of \<^verbatim>\<open>Float64\<close> is exact and lies in \<open>[0, 1)\<close>.\<close>

lemma round_mag_53:
  assumes "0 \<le> k" "k < 9007199254740992"
  shows "round_mag (of_int k / 9007199254740992) = of_int k / 9007199254740992"
proof (cases "k = 0")
  case False
  have "ilog2 (of_int k / 9007199254740992) < 0"
    using assms False by (intro ilog2_less) (simp_all add: power_int_def)
  then have e: "ulp_exp (of_int k / 9007199254740992) \<le> - 53" by (simp add: ulp_exp_def)
  have "of_int k / 9007199254740992 = (of_int k :: rat) * 2 powi (- 53)"
    by (simp add: power_int_def power_one_over)
  then show ?thesis by (rule round_mag_exact [OF _ e]) (use assms in simp)
qed (simp add: round_mag_def)

lemma rand_Float64_eq:
  "fst (rand_Float64 r) = Num False (of_int (int (r 0) mod 9007199254740992) / 9007199254740992)"
proof -
  define k where "k = int (r 0) mod 9007199254740992"
  have k: "0 \<le> k" "k < 9007199254740992" by (simp_all add: k_def)
  then have "of_int k / 9007199254740992 \<le> (of_int 1 :: rat)" by simp
  then have "mk_num False (of_int k / 9007199254740992) = Num False (of_int k / 9007199254740992)"
    using mk_num_le_int [of "of_int k / 9007199254740992" 1 False] round_mag_53 [OF k] by simp
  then show ?thesis using k
    by (simp add: rand_Float64_def f64_of_int_exact f64_ops k_def [symmetric])
qed

lemma snd_rand_Float64 [simp]: "snd (rand_Float64 r) = rand_rest r"
  by (simp add: rand_Float64_def)

lemma wf_rand_Float64:
  obtains q where "rand_Float64 r = (Num False q, rand_rest r)" "0 \<le> q" "q < 1" "wf_f64 (Num False q)"
proof
  let ?k = "int (r 0) mod 9007199254740992"
  let ?q = "of_int ?k / 9007199254740992 :: rat"
  show "rand_Float64 r = (Num False ?q, rand_rest r)" by (simp add: prod_eq_iff rand_Float64_eq)
  show q: "0 \<le> ?q" "?q < 1" by simp_all
  have "ilog2 ?q < 1024" if "0 < ?q"
  proof -
    have "ilog2 ?q < 0" by (rule ilog2_less [OF that]) (use q(2) in simp)
    then show ?thesis by linarith
  qed
  then show "wf_f64 (Num False ?q)" using q(1) round_mag_53 [of ?k] by simp
qed

end
