(* ===== verification/Props.thy ===== *)
theory Props
  imports GoRand
begin

text \<open>
  The names and default values of the properties (\<^verbatim>\<open>pkg/prop/prop.go\<close>), and the reading side of
  \<^verbatim>\<open>properties.Properties\<close>. That package is third-party code: a property file is the record of what
  its getters return, a parameter of every definition that reads one.
\<close>

record properties =
  GetString :: "string \<Rightarrow> string \<Rightarrow> string"
  GetInt64 :: "string \<Rightarrow> int \<Rightarrow> int"
  GetInt :: "string \<Rightarrow> int \<Rightarrow> int"
  GetBool :: "string \<Rightarrow> bool \<Rightarrow> bool"
  GetFloat64 :: "string \<Rightarrow> float64 \<Rightarrow> float64"
  PropGet :: "string \<Rightarrow> string option"
  GetDuration :: "string \<Rightarrow> int \<Rightarrow> int"
  GetUint64 :: "string \<Rightarrow> nat \<Rightarrow> nat"

text \<open>The properties of an empty property file: every getter gives its default.\<close>

definition no_properties :: properties where
  "no_properties = \<lparr>GetString = (\<lambda>_ d. d), GetInt64 = (\<lambda>_ d. d), GetInt = (\<lambda>_ d. d),
     GetBool = (\<lambda>_ d. d), GetFloat64 = (\<lambda>_ d. d), PropGet = (\<lambda>_. None),
     GetDuration = (\<lambda>_ d. d), GetUint64 = (\<lambda>_ d. d)\<rparr>"

text \<open>Property files that set some of the properties.\<close>

definition with_ints :: "(string \<times> int) list \<Rightarrow> properties \<Rightarrow> properties" where
  "with_ints kvs p = p\<lparr>GetInt64 := \<lambda>k d. case map_of kvs k of Some v \<Rightarrow> v | None \<Rightarrow> GetInt64 p k d,
     GetInt := \<lambda>k d. case map_of kvs k of Some v \<Rightarrow> v | None \<Rightarrow> GetInt p k d\<rparr>"

definition with_strings :: "(string \<times> string) list \<Rightarrow> properties \<Rightarrow> properties" where
  "with_strings kvs p = p\<lparr>GetString := \<lambda>k d. case map_of kvs k of Some v \<Rightarrow> v | None \<Rightarrow> GetString p k d,
     PropGet := \<lambda>k. case map_of kvs k of Some v \<Rightarrow> Some v | None \<Rightarrow> PropGet p k\<rparr>"

definition with_bools :: "(string \<times> bool) list \<Rightarrow> properties \<Rightarrow> properties" where
  "with_bools kvs p = p\<lparr>GetBool := \<lambda>k d. case map_of kvs k of Some v \<Rightarrow> v | None \<Rightarrow> GetBool p k d\<rparr>"

lemma with_simps [simp]:
  "GetInt64 (with_ints kvs p) k d = (case map_of kvs k of Some v \<Rightarrow> v | None \<Rightarrow> GetInt64 p k d)"
  "GetInt (with_ints kvs p) k d = (case map_of kvs k of Some v \<Rightarrow> v | None \<Rightarrow> GetInt p k d)"
  "GetString (with_ints kvs p) = GetString p" "GetBool (with_ints kvs p) = GetBool p"
  "GetFloat64 (with_ints kvs p) = GetFloat64 p" "PropGet (with_ints kvs p) = PropGet p"
  "GetString (with_strings ss p) k s = (case map_of ss k of Some v \<Rightarrow> v | None \<Rightarrow> GetString p k s)"
  "PropGet (with_strings ss p) k = (case map_of ss k of Some v \<Rightarrow> Some v | None \<Rightarrow> PropGet p k)"
  "GetInt64 (with_strings ss p) = GetInt64 p" "GetInt (with_strings ss p) = GetInt p"
  "GetBool (with_strings ss p) = GetBool p" "GetFloat64 (with_strings ss p) = GetFloat64 p"
  "GetBool (with_bools bs p) k b = (case map_of bs k of Some v \<Rightarrow> v | None \<Rightarrow> GetBool p k b)"
  "GetInt64 (with_bools bs p) = GetInt64 p" "GetInt (with_bools bs p) = GetInt p" "GetString (with_bools bs p) = GetString p"
  "GetFloat64 (with_bools bs p) = GetFloat64 p" "PropGet (with_bools bs p) = PropGet p"
  by (simp_all add: with_ints_def with_strings_def with_bools_def)

lemma no_properties_simps [simp]:
  "GetString no_properties k s = s" "GetInt64 no_properties k d = d" "GetInt no_properties k d = d" "GetBool no_properties k b = b"
  "GetFloat64 no_properties k f = f" "PropGet no_properties k = None" "GetDuration no_properties k d = d" "GetUint64 no_properties k n = n"
  by (simp_all add: no_properties_def)

text \<open>An \<^verbatim>\<open>int64\<close> getter returns an \<^verbatim>\<open>int64\<close>.\<close>

definition wf_properties :: "properties \<Rightarrow> bool" where
  "wf_properties p \<longleftrightarrow> (\<forall>k d. in64 d \<longrightarrow> in64 (GetInt64 p k d) \<and> in64 (GetInt p k d))"

lemma wf_no_properties [simp]: "wf_properties no_properties"
  by (simp add: wf_properties_def no_properties_def)

section \<open>Names and defaults\<close>

abbreviation (input) prop_InsertStart :: string where "prop_InsertStart \<equiv> ''insertstart''"

abbreviation (input) prop_InsertCount :: string where "prop_InsertCount \<equiv> ''insertcount''"

abbreviation (input) prop_InsertStartDefault :: int where "prop_InsertStartDefault \<equiv> 0"

abbreviation (input) prop_OperationCount :: string where "prop_OperationCount \<equiv> ''operationcount''"

abbreviation (input) prop_RecordCount :: string where "prop_RecordCount \<equiv> ''recordcount''"

abbreviation (input) prop_RecordCountDefault :: int where "prop_RecordCountDefault \<equiv> 0"

abbreviation (input) prop_Workload :: string where "prop_Workload \<equiv> ''workload''"

abbreviation (input) prop_DB :: string where "prop_DB \<equiv> ''db''"

abbreviation (input) prop_Exporter :: string where "prop_Exporter \<equiv> ''exporter''"

abbreviation (input) prop_ExportFile :: string where "prop_ExportFile \<equiv> ''exportfile''"

abbreviation (input) prop_ThreadCount :: string where "prop_ThreadCount \<equiv> ''threadcount''"

abbreviation (input) prop_ThreadCountDefault :: int where "prop_ThreadCountDefault \<equiv> 200"

abbreviation (input) prop_Target :: string where "prop_Target \<equiv> ''target''"

abbreviation (input) prop_MaxExecutiontime :: string where "prop_MaxExecutiontime \<equiv> ''maxexecutiontime''"

abbreviation (input) prop_WarmUpTime :: string where "prop_WarmUpTime \<equiv> ''warmuptime''"

abbreviation (input) prop_DoTransactions :: string where "prop_DoTransactions \<equiv> ''dotransactions''"

abbreviation (input) prop_Status :: string where "prop_Status \<equiv> ''status''"

abbreviation (input) prop_Label :: string where "prop_Label \<equiv> ''label''"

abbreviation (input) prop_BatchSize :: string where "prop_BatchSize \<equiv> ''batch.size''"

abbreviation (input) prop_DefaultBatchSize :: int where "prop_DefaultBatchSize \<equiv> 1"

abbreviation (input) prop_TableName :: string where "prop_TableName \<equiv> ''table''"

abbreviation (input) prop_TableNameDefault :: string where "prop_TableNameDefault \<equiv> ''usertable''"

abbreviation (input) prop_FieldCount :: string where "prop_FieldCount \<equiv> ''fieldcount''"

abbreviation (input) prop_FieldCountDefault :: int where "prop_FieldCountDefault \<equiv> 10"

abbreviation (input) prop_FieldLengthDistribution :: string where "prop_FieldLengthDistribution \<equiv> ''fieldlengthdistribution''"

abbreviation (input) prop_FieldLengthDistributionDefault :: string where "prop_FieldLengthDistributionDefault \<equiv> ''constant''"

abbreviation (input) prop_FieldLength :: string where "prop_FieldLength \<equiv> ''fieldlength''"

abbreviation (input) prop_FieldLengthDefault :: int where "prop_FieldLengthDefault \<equiv> 100"

abbreviation (input) prop_FieldLengthHistogramFile :: string where "prop_FieldLengthHistogramFile \<equiv> ''fieldlengthhistogram''"

abbreviation (input) prop_FieldLengthHistogramFileDefault :: string where "prop_FieldLengthHistogramFileDefault \<equiv> ''hist.txt''"

abbreviation (input) prop_ReadAllFields :: string where "prop_ReadAllFields \<equiv> ''readallfields''"

abbreviation (input) prop_ReadALlFieldsDefault :: bool where "prop_ReadALlFieldsDefault \<equiv> True"

abbreviation (input) prop_WriteAllFields :: string where "prop_WriteAllFields \<equiv> ''writeallfields''"

abbreviation (input) prop_WriteAllFieldsDefault :: bool where "prop_WriteAllFieldsDefault \<equiv> False"

abbreviation (input) prop_DataIntegrity :: string where "prop_DataIntegrity \<equiv> ''dataintegrity''"

abbreviation (input) prop_DataIntegrityDefault :: bool where "prop_DataIntegrityDefault \<equiv> False"

abbreviation (input) prop_ReadProportion :: string where "prop_ReadProportion \<equiv> ''readproportion''"

abbreviation (input) prop_ReadProportionDefault :: float64 where "prop_ReadProportionDefault \<equiv> f64_lit (95 / 100)"

abbreviation (input) prop_UpdateProportion :: string where "prop_UpdateProportion \<equiv> ''updateproportion''"

abbreviation (input) prop_UpdateProportionDefault :: float64 where "prop_UpdateProportionDefault \<equiv> f64_lit (5 / 100)"

abbreviation (input) prop_InsertProportion :: string where "prop_InsertProportion \<equiv> ''insertproportion''"

abbreviation (input) prop_InsertProportionDefault :: float64 where "prop_InsertProportionDefault \<equiv> f64_lit 0"

abbreviation (input) prop_ScanProportion :: string where "prop_ScanProportion \<equiv> ''scanproportion''"

abbreviation (input) prop_ScanProportionDefault :: float64 where "prop_ScanProportionDefault \<equiv> f64_lit 0"

abbreviation (input) prop_ReadModifyWriteProportion :: string where "prop_ReadModifyWriteProportion \<equiv> ''readmodifywriteproportion''"

abbreviation (input) prop_ReadModifyWriteProportionDefault :: float64 where "prop_ReadModifyWriteProportionDefault \<equiv> f64_lit 0"

abbreviation (input) prop_RequestDistribution :: string where "prop_RequestDistribution \<equiv> ''requestdistribution''"

abbreviation (input) prop_RequestDistributionDefault :: string where "prop_RequestDistributionDefault \<equiv> ''uniform''"

abbreviation (input) prop_ZeroPadding :: string where "prop_ZeroPadding \<equiv> ''zeropadding''"

abbreviation (input) prop_ZeroPaddingDefault :: int where "prop_ZeroPaddingDefault \<equiv> 1"

abbreviation (input) prop_MinScanLength :: string where "prop_MinScanLength \<equiv> ''minscanlength''"

abbreviation (input) prop_MinScanLengthDefault :: int where "prop_MinScanLengthDefault \<equiv> 1"

abbreviation (input) prop_MaxScanLength :: string where "prop_MaxScanLength \<equiv> ''maxscanlength''"

abbreviation (input) prop_MaxScanLengthDefault :: int where "prop_MaxScanLengthDefault \<equiv> 1000"

abbreviation (input) prop_ScanLengthDistribution :: string where "prop_ScanLengthDistribution \<equiv> ''scanlengthdistribution''"

abbreviation (input) prop_ScanLengthDistributionDefault :: string where "prop_ScanLengthDistributionDefault \<equiv> ''uniform''"

abbreviation (input) prop_InsertOrder :: string where "prop_InsertOrder \<equiv> ''insertorder''"

abbreviation (input) prop_InsertOrderDefault :: string where "prop_InsertOrderDefault \<equiv> ''hashed''"

abbreviation (input) prop_HotspotDataFraction :: string where "prop_HotspotDataFraction \<equiv> ''hotspotdatafraction''"

abbreviation (input) prop_HotspotDataFractionDefault :: float64 where "prop_HotspotDataFractionDefault \<equiv> f64_lit (2 / 10)"

abbreviation (input) prop_HotspotOpnFraction :: string where "prop_HotspotOpnFraction \<equiv> ''hotspotopnfraction''"

abbreviation (input) prop_HotspotOpnFractionDefault :: float64 where "prop_HotspotOpnFractionDefault \<equiv> f64_lit (8 / 10)"

abbreviation (input) prop_InsertionRetryLimit :: string where "prop_InsertionRetryLimit \<equiv> ''core_workload_insertion_retry_limit''"

abbreviation (input) prop_InsertionRetryLimitDefault :: int where "prop_InsertionRetryLimitDefault \<equiv> 0"

abbreviation (input) prop_InsertionRetryInterval :: string where "prop_InsertionRetryInterval \<equiv> ''core_workload_insertion_retry_interval''"

abbreviation (input) prop_InsertionRetryIntervalDefault :: int where "prop_InsertionRetryIntervalDefault \<equiv> 3"

abbreviation (input) prop_ExponentialPercentile :: string where "prop_ExponentialPercentile \<equiv> ''exponential.percentile''"

abbreviation (input) prop_ExponentialPercentileDefault :: float64 where "prop_ExponentialPercentileDefault \<equiv> f64_lit 95"

abbreviation (input) prop_ExponentialFrac :: string where "prop_ExponentialFrac \<equiv> ''exponential.frac''"

abbreviation (input) prop_ExponentialFracDefault :: float64 where "prop_ExponentialFracDefault \<equiv> f64_lit (8571428571 / 10000000000)"

abbreviation (input) prop_DebugPprof :: string where "prop_DebugPprof \<equiv> ''debug.pprof''"

abbreviation (input) prop_DebugPprofDefault :: string where "prop_DebugPprofDefault \<equiv> '':6060''"

abbreviation (input) prop_Verbose :: string where "prop_Verbose \<equiv> ''verbose''"

abbreviation (input) prop_VerboseDefault :: bool where "prop_VerboseDefault \<equiv> False"

abbreviation (input) prop_DropData :: string where "prop_DropData \<equiv> ''dropdata''"

abbreviation (input) prop_DropDataDefault :: bool where "prop_DropDataDefault \<equiv> False"

abbreviation (input) prop_Silence :: string where "prop_Silence \<equiv> ''silence''"

abbreviation (input) prop_SilenceDefault :: bool where "prop_SilenceDefault \<equiv> True"

abbreviation (input) prop_KeyPrefix :: string where "prop_KeyPrefix \<equiv> ''keyprefix''"

abbreviation (input) prop_KeyPrefixDefault :: string where "prop_KeyPrefixDefault \<equiv> ''user''"

abbreviation (input) prop_LogInterval :: string where "prop_LogInterval \<equiv> ''measurement.interval''"

abbreviation (input) prop_MeasurementType :: string where "prop_MeasurementType \<equiv> ''measurementtype''"

abbreviation (input) prop_MeasurementTypeDefault :: string where "prop_MeasurementTypeDefault \<equiv> ''histogram''"

abbreviation (input) prop_MeasurementRawOutputFile :: string where "prop_MeasurementRawOutputFile \<equiv> ''measurement.output_file''"

abbreviation (input) prop_Command :: string where "prop_Command \<equiv> ''command''"

abbreviation (input) prop_OutputStyle :: string where "prop_OutputStyle \<equiv> ''outputstyle''"

abbreviation (input) prop_MeasurementHistogramPercentileExport :: string where "prop_MeasurementHistogramPercentileExport \<equiv> ''histogram.percentiles.export''"

abbreviation (input) prop_MeasurementHistogramPercentileExportDefault :: bool where "prop_MeasurementHistogramPercentileExportDefault \<equiv> False"

abbreviation (input) prop_MeasurementHistogramPercentileExportFilepath :: string where "prop_MeasurementHistogramPercentileExportFilepath \<equiv> ''histogram.percentiles.export.filepath''"

abbreviation (input) prop_MeasurementHistogramPercentileExportFilepathDefault :: string where "prop_MeasurementHistogramPercentileExportFilepathDefault \<equiv> ''./''"

end
