(* ===== verification/Hash.thy ===== *)
theory Hash
  imports Props
begin

text \<open>
  The hash functions of \<^verbatim>\<open>pkg/util/hash.go\<close>: FNV-1a over 64-bit words. The two conversions of
  \<^verbatim>\<open>pkg/util/hack.go\<close> reinterpret the same bytes, so they are \<open>to_bytes\<close> and \<open>of_bytes\<close>.
\<close>

unbundle bit_operations_syntax

section \<open>Definitions\<close>

definition hack_String :: "bytes \<Rightarrow> string" where
  "hack_String b = (if length b = 0 then [] else of_bytes b)"

definition hack_Slice :: "string \<Rightarrow> bytes" where
  "hack_Slice s = to_bytes s"

text \<open>\<^verbatim>\<open>binary.BigEndian.PutUint64\<close> and \<^verbatim>\<open>hash/fnv\<close>'s \<^verbatim>\<open>New64a\<close>, \<^verbatim>\<open>Write\<close>, \<^verbatim>\<open>Sum64\<close>.\<close>

definition PutUint64 :: "64 word \<Rightarrow> bytes" where
  "PutUint64 w = map (\<lambda>i. ucast (drop_bit i w)) [56, 48, 40, 32, 24, 16, 8, 0]"

definition fnv_step :: "byte \<Rightarrow> 64 word \<Rightarrow> 64 word" where
  "fnv_step c h = (h XOR ucast c) * 1099511628211"

definition fnv64a :: "bytes \<Rightarrow> 64 word" where
  "fnv64a b = fold fnv_step b 14695981039346656037"

definition Hash64 :: "int \<Rightarrow> int" where
  "Hash64 n =
     (let b = PutUint64 (word_of_int n); result = sint (fnv64a b)
      in if result < 0 then wrap64 (- result) else result)"

definition BytesHash64 :: "bytes \<Rightarrow> int" where
  "BytesHash64 b = sint (fnv64a b)"

definition StringHash64 :: "string \<Rightarrow> int" where
  "StringHash64 s = sint (fnv64a (hack_Slice s))"


section \<open>The hash of a byte string\<close>

lemma hack_round_trip [simp]: "hack_String (hack_Slice s) = s"
  by (simp add: hack_String_def hack_Slice_def)

lemma fnv64a_append: "fnv64a (b @ c) = fold fnv_step c (fnv64a b)"
  by (simp add: fnv64a_def)

text \<open>The prime is invertible modulo \<open>2 ^ 64\<close>, so a step loses no information about the state.\<close>

lemma fnv_prime_inverse: "(1099511628211 :: 64 word) * 14886173955864302971 = 1"
  by simp

lemma xor_cancel:
  "(a :: 64 word) XOR c = b XOR c \<longleftrightarrow> a = b" "(c :: 64 word) XOR a = c XOR b \<longleftrightarrow> a = b"
  by (auto simp: bit_eq_iff bit_simps)

lemma inj_fnv_step_state: "fnv_step c h = fnv_step c h' \<longleftrightarrow> h = h'"
proof
  assume "fnv_step c h = fnv_step c h'"
  then have "fnv_step c h * 14886173955864302971 = fnv_step c h' * 14886173955864302971" by simp
  then have "h XOR ucast c = h' XOR ucast c"
    by (simp only: fnv_step_def mult.assoc fnv_prime_inverse mult_1_right)
  then show "h = h'" by (simp add: xor_cancel)
qed simp

lemma ucast_byte_inject: "(ucast (c :: byte) :: 64 word) = ucast d \<Longrightarrow> c = d"
  by (drule arg_cong [where f = "ucast :: _ \<Rightarrow> byte"]) (simp add: ucast_up_ucast_id is_up)

lemma inj_fnv_step_byte: "fnv_step c h = fnv_step d h \<longleftrightarrow> c = d"
proof
  assume "fnv_step c h = fnv_step d h"
  then have "fnv_step c h * 14886173955864302971 = fnv_step d h * 14886173955864302971" by simp
  then have "h XOR ucast c = h XOR ucast d"
    by (simp only: fnv_step_def mult.assoc fnv_prime_inverse mult_1_right)
  then have "(ucast c :: 64 word) = ucast d"
    by (simp add: xor_cancel)
  then show "c = d" by (rule ucast_byte_inject)
qed simp

lemma inj_fold_fnv_step: "fold fnv_step b h = fold fnv_step b h' \<longleftrightarrow> h = h'"
  by (induction b arbitrary: h h') (simp_all add: inj_fnv_step_state)

lemma fnv64a_one_byte: "fnv64a (p @ c # s) = fnv64a (p @ d # s) \<longleftrightarrow> c = d"
  by (simp add: fnv64a_append inj_fold_fnv_step inj_fnv_step_byte)

section \<open>The hash of a key number\<close>

lemma sint_in64 [simp]: "in64 (sint (w :: 64 word))"
  using sint_lt [of w] sint_ge [of w] by (simp add: in64_def)

lemma in64_Hash64 [simp]: "in64 (Hash64 n)"
  by (simp add: Hash64_def Let_def)

text \<open>The negation overflows on the least integer only.\<close>

lemma Hash64_nonneg: "0 \<le> Hash64 n \<or> Hash64 n = min64"
proof -
  define r where "r = sint (fnv64a (PutUint64 (word_of_int n)))"
  have "in64 r" by (simp add: r_def)
  then have "r < 0 \<Longrightarrow> r \<noteq> min64 \<Longrightarrow> wrap64 (- r) = - r"
    by (intro wrap64_id) (simp add: in64_def)
  moreover have "wrap64 (- min64) = min64" by (simp add: wrap64_def)
  ultimately show ?thesis by (cases "r = min64") (auto simp: Hash64_def r_def [symmetric] Let_def)
qed

section \<open>Properties\<close>


end
