(* ===== verification/RowCodec.thy ===== *)
theory RowCodec
  imports Hash "HOL-Library.Multiset" "HOL-Library.Char_ord" "HOL-Library.List_Lexorder"
begin

text \<open>
  The row codec: \<^verbatim>\<open>pkg/util/row.go\<close> (varints, columns, rows as bytes) and \<^verbatim>\<open>pkg/util/core.go\<close>
  (the mapping of field names to column numbers, and the sorted field pairs). A Go function that
  returns a value and an error gives \<open>Inl\<close> the error or \<open>Inr\<close> the value; where the source
  also returns a value with the error it is a pair. An index or slice out of range is a \<^term>\<open>Panic\<close>.
\<close>

unbundle bit_operations_syntax

section \<open>Varints\<close>

text \<open>The functions of \<^verbatim>\<open>encoding/binary\<close>; the loop of \<^verbatim>\<open>Uvarint\<close> carries the index, the shift
  and the value so far. A negative count says the value does not fit, zero that bytes are missing.\<close>

function PutUvarint :: "64 word \<Rightarrow> bytes" where
  "PutUvarint x = (if x < 128 then [ucast x] else (ucast x OR 128) # PutUvarint (drop_bit 7 x))"
  by pat_completeness auto
termination
proof (relation "measure unat", goal_cases)
  case (2 x)
  then have "128 \<le> unat x" by (simp add: not_less word_le_nat_alt)
  then show ?case by (simp add: drop_bit_eq_div unat_div)
qed simp

declare PutUvarint.simps [simp del]

definition PutVarint :: "int \<Rightarrow> bytes" where
  "PutVarint x =
     (let ux = push_bit 1 (word_of_int x :: 64 word)
      in PutUvarint (if x < 0 then NOT ux else ux))"

fun uvarint_loop :: "nat \<Rightarrow> nat \<Rightarrow> 64 word \<Rightarrow> bytes \<Rightarrow> 64 word \<times> int" where
  "uvarint_loop i s x [] = (0, 0)"
| "uvarint_loop i s x (b # bs) =
     (if i = 10 then (0, - (int i + 1))
      else if b < 128 then
        (if i = 9 \<and> 1 < b then (0, - (int i + 1)) else (x OR push_bit s (ucast b), int i + 1))
      else uvarint_loop (i + 1) (s + 7) (x OR push_bit s (ucast (b AND 127))) bs)"

definition Uvarint :: "bytes \<Rightarrow> 64 word \<times> int" where
  "Uvarint b = uvarint_loop 0 0 0 b"

definition Varint :: "bytes \<Rightarrow> int \<times> int" where
  "Varint b =
     (let (ux, n) = Uvarint b; x = drop_bit 1 ux
      in (sint (if ux AND 1 \<noteq> 0 then NOT x else x), n))"


section \<open>Rows as bytes\<close>

abbreviation compactBytesFlag :: byte where "compactBytesFlag \<equiv> 2"

abbreviation varintFlag :: byte where "varintFlag \<equiv> 8"

definition appendVarint :: "bytes \<Rightarrow> int \<Rightarrow> bytes" where
  "appendVarint b v = b @ PutVarint v"

definition encodeInt64 :: "bytes \<Rightarrow> int \<Rightarrow> bytes" where
  "encodeInt64 b v = appendVarint (b @ [varintFlag]) v"

definition encodeBytes :: "bytes \<Rightarrow> bytes \<Rightarrow> bytes" where
  "encodeBytes b v = appendVarint (b @ [compactBytesFlag]) (int (length v)) @ v"

definition EncodeRow :: "bytes list \<Rightarrow> int list \<Rightarrow> bytes \<Rightarrow> goerror + bytes" where
  "EncodeRow cols colIDs valBuf =
     (if length cols \<noteq> length colIDs then
        Inl (''EncodeRow error: cols and colIDs count not match '' @ itoa (int (length cols)) @
             '' vs '' @ itoa (int (length colIDs)))
      else let valBuf = take 0 valBuf
        in if length cols = 0 then Inr (valBuf @ [0])
           else Inr (fold (\<lambda>(c, i) b. encodeBytes (encodeInt64 b i) c) (zip cols colIDs) valBuf))"

text \<open>\<^verbatim>\<open>b[n:]\<close> and \<^verbatim>\<open>b[:n]\<close>.\<close>

definition slice_from :: "int \<Rightarrow> bytes \<Rightarrow> bytes outcome" where
  "slice_from n b = (if n < 0 \<or> int (length b) < n then Panic ''slice bounds out of range''
     else Ret (drop (nat n) b))"

definition decodeVarint :: "bytes \<Rightarrow> (goerror + bytes \<times> int) outcome" where
  "decodeVarint b =
     (let (v, n) = Varint b
      in if 0 < n then obind (slice_from n b) (\<lambda>r. Ret (Inr (r, v)))
         else if n < 0 then Ret (Inl ''value larger than 64 bits'')
         else Ret (Inl ''insufficient bytes to decode value''))"

definition decodeInt64 :: "bytes \<Rightarrow> (goerror + bytes \<times> int) outcome" where
  "decodeInt64 b = obind (slice_from 1 b) decodeVarint"

definition decodeBytes :: "bytes \<Rightarrow> (goerror + bytes \<times> bytes) outcome" where
  "decodeBytes b =
     obind (slice_from 1 b) (\<lambda>b1. obind (decodeVarint b1) (\<lambda>res. case res of
         Inl err \<Rightarrow> Ret (Inl err)
       | Inr (remain, n) \<Rightarrow>
           if int (length remain) < n then
             Ret (Inl (''insufficient bytes to decode value, expected length: '' @ itoa n))
           else obind (slice_from n remain) (\<lambda>rest. Ret (Inr (rest, take (nat n) remain)))))"

lemma uvarint_loop_le:
  "uvarint_loop i s x b = (v, n) \<Longrightarrow> 0 < n \<Longrightarrow> int i < n \<and> n \<le> int i + int (length b)"
  by (induction i s x b rule: uvarint_loop.induct) (fastforce split: if_splits)+

lemma decodeVarint_shorter:
  "decodeVarint b = Ret (Inr (r, v)) \<Longrightarrow> length r < length b"
  using uvarint_loop_le [of 0 0 0 b]
  by (auto simp: decodeVarint_def Varint_def Uvarint_def slice_from_def Let_def outcome_simps
      split: prod.splits if_splits)

lemma decodeInt64_shorter:
  "decodeInt64 b = Ret (Inr (r, v)) \<Longrightarrow> length r < length b"
  by (auto simp: decodeInt64_def slice_from_def outcome_simps dest!: decodeVarint_shorter split: if_splits)

lemma decodeBytes_shorter:
  "decodeBytes b = Ret (Inr (r, v)) \<Longrightarrow> length r < length b"
  by (cases "decodeVarint (drop (Suc 0) b)")
    (auto simp: decodeBytes_def slice_from_def dest!: decodeVarint_shorter
      split: if_splits sum.splits prod.splits)

function decodeRow_loop :: "(int, bytes) gomap \<Rightarrow> bytes \<Rightarrow> ((int, bytes) gomap \<times> goerror option) outcome"
where
  "decodeRow_loop row b =
     (if length b = 0 then Ret (row, None)
      else obind (decodeInt64 b) (\<lambda>res. case res of
          Inl err \<Rightarrow> Ret (row, Some err)
        | Inr (remain, rowID) \<Rightarrow> obind (decodeBytes remain) (\<lambda>res. case res of
              Inl err \<Rightarrow> Ret (row, Some err)
            | Inr (remain, v) \<Rightarrow> decodeRow_loop (AList.update rowID v row) remain)))"
  by pat_completeness auto
termination
  by (relation "measure (length \<circ> snd)") (auto dest!: decodeInt64_shorter decodeBytes_shorter)

declare decodeRow_loop.simps [simp del]

definition DecodeRow :: "bytes \<Rightarrow> ((int, bytes) gomap \<times> goerror option) outcome" where
  "DecodeRow b =
     (if length b = 0 then Ret ([], None)
      else if length b = 1 \<and> b ! 0 = 0 then Ret ([], None)
      else decodeRow_loop [] b)"

section \<open>Fields and columns\<close>

definition createFieldIndices :: "properties \<Rightarrow> (string, int) gomap" where
  "createFieldIndices p =
     (let fieldCount = GetInt64 p prop_FieldCount prop_FieldCountDefault
      in fold (\<lambda>i m. AList.update (''field'' @ itoa (int i)) (int i) m) [0..<nat fieldCount] [])"

definition allFields :: "properties \<Rightarrow> string list outcome" where
  "allFields p =
     (let fieldCount = GetInt64 p prop_FieldCount prop_FieldCountDefault
      in if fieldCount < 0 then Panic ''makeslice: cap out of range''
         else Ret (map (\<lambda>i. ''field'' @ itoa (int i)) [0..<nat fieldCount]))"

record RowCodec =
  fieldIndices :: "(string, int) gomap"
  codecFields :: "string list"

definition NewRowCodec :: "properties \<Rightarrow> RowCodec outcome" where
  "NewRowCodec p = obind (allFields p) (\<lambda>fs.
     Ret \<lparr>fieldIndices = createFieldIndices p, codecFields = fs\<rparr>)"

definition Decode :: "RowCodec \<Rightarrow> bytes \<Rightarrow> string list \<Rightarrow> (goerror + row) outcome" where
  "Decode r row flds =
     (let flds = (if length flds = 0 then codecFields r else flds)
      in obind (DecodeRow row) (\<lambda>(data, err). case err of
           Some err \<Rightarrow> Ret (Inl err)
         | None \<Rightarrow> Ret (Inr (fold (\<lambda>field res.
               let i = map_index 0 (fieldIndices r) field
               in case map_of data i of Some v \<Rightarrow> AList.update field v res | None \<Rightarrow> res) flds []))))"

definition Encode :: "RowCodec \<Rightarrow> bytes \<Rightarrow> row \<Rightarrow> goerror + bytes" where
  "Encode r buf values =
     (let cols = map snd values; colIDs = map (\<lambda>(k, v). map_index 0 (fieldIndices r) k) values
      in EncodeRow cols colIDs buf)"

record FieldPair =
  Field :: string
  Value :: bytes

text \<open>The names of a row are distinct, so every sorting algorithm gives this list.\<close>

definition NewFieldPairs :: "row \<Rightarrow> FieldPair list" where
  "NewFieldPairs values = sort_key Field (map (\<lambda>(f, v). \<lparr>Field = f, Value = v\<rparr>) values)"


section \<open>A varint decodes to the number it encodes\<close>

text \<open>The low seven bits of a byte and the rest of the number make up the number.\<close>

lemma or_push_split:
  "((x :: 64 word) OR push_bit s (ucast ((ucast w OR 128 :: byte) AND 127))) OR push_bit (s + 7) (drop_bit 7 w) =
   x OR push_bit s (w :: 64 word)"
proof (rule bit_word_eqI)
  fix n assume "n < LENGTH(64)"
  have m: "bit (127::byte) k \<longleftrightarrow> k < 7" "bit (128::byte) k \<longleftrightarrow> k = 7" for k
    using bit_mask_iff [where 'a = byte, of 7 k] bit_exp_iff [where 'a = byte, of 7 k]
    by (auto simp: mask_eq_exp_minus_1)
  have u: "bit (ucast ((ucast w OR 128 :: byte) AND 127) :: 64 word) k \<longleftrightarrow> k < 7 \<and> bit w k" for k
    by (simp only: bit_unsigned_iff bit_and_iff bit_or_iff m) (auto simp: possible_bit_def)
  show "bit ((x OR push_bit s (ucast ((ucast w OR 128 :: byte) AND 127))) OR push_bit (s + 7) (drop_bit 7 w)) n = bit (x OR push_bit s w) n"
  proof (cases "s + 7 \<le> n")
    case True
    then have "7 + (n - (s + 7)) = n - s" by simp
    then show ?thesis
      by (simp only: bit_or_iff bit_push_bit_iff bit_drop_bit_eq u o_apply) (auto simp: possible_bit_def)
  next
    case False
    then show ?thesis
      by (simp only: bit_or_iff bit_push_bit_iff bit_drop_bit_eq u o_apply) (auto simp: possible_bit_def)
  qed
qed

lemma unat_byte: "unat (ucast (x :: 64 word) :: byte) = unat x mod 256"
  by (simp add: unsigned_ucast_eq take_bit_eq_mod)

lemma small_byte:
  assumes "(x :: 64 word) < 128"
  shows "(ucast x :: byte) < 128" "(ucast (ucast x :: byte) :: 64 word) = x"
  using assms by (simp_all add: word_less_nat_alt unat_byte word_unat_eq_iff unsigned_ucast_eq take_bit_eq_mod unat_mod)

lemma large_byte: "\<not> (ucast (x :: 64 word) OR 128 :: byte) < 128"
  by (simp add: not_less le_word_or1)

lemma PutUvarint_step_bound:
  assumes "unat (x :: 64 word) < 2 ^ (64 - s)" "\<not> x < 128" "s = 7 * i" "i \<le> 9"
  shows "unat (drop_bit 7 x) < 2 ^ (64 - (s + 7))" "i + 1 \<le> 9"
proof -
  have b: "128 \<le> unat x" using assms(2) by (simp add: word_less_nat_alt)
  have "i \<noteq> 9" using assms b by auto
  then show i: "i + 1 \<le> 9" using assms by simp
  then have "64 - s = 7 + (64 - (s + 7))" using assms(3) by simp
  then have "(2::nat) ^ (64 - s) = 2 ^ 7 * 2 ^ (64 - (s + 7))"
    by (metis power_add)
  then show "unat (drop_bit 7 x) < 2 ^ (64 - (s + 7))" using assms(1) 
    by (auto simp: drop_bit_eq_div unat_div less_mult_imp_div_less mult.commute)
qed
lemma uvarint_loop_PutUvarint:
  assumes "i \<le> 9" "s = 7 * i" "unat x < 2 ^ (64 - s)"
  shows "uvarint_loop i s a (PutUvarint x @ rest) = (a OR push_bit s x, int i + int (length (PutUvarint x)))"
  using assms
proof (induction x arbitrary: i s a rule: PutUvarint.induct)
  case (1 x)
  show ?case
  proof (cases "x < 128")
    case True
    have "\<not> (1 :: byte) < ucast x" if "i = 9"
      using 1 that by (simp add: word_less_nat_alt unat_byte)
    then show ?thesis using True 1(2) small_byte [OF True] by (simp add: PutUvarint.simps [of x])
  next
    case False
    note step = PutUvarint_step_bound [OF 1(4) False 1(3) 1(2)]
    show ?thesis using False 1(1) [OF False step(2) _ step(1)] 1(2-3) or_push_split [of a s x] large_byte [of x]
      by (simp add: PutUvarint.simps [of x])
  qed
qed

lemma Uvarint_PutUvarint: "Uvarint (PutUvarint x @ rest) = (x, int (length (PutUvarint x)))"
  using uvarint_loop_PutUvarint [of 0 0 x 0 rest] unsigned_less [of x, where 'a = nat] by (simp add: Uvarint_def)

lemma bit63: "in64 x \<Longrightarrow> bit x 63 \<longleftrightarrow> x < 0"
proof -
  assume "in64 x"
  then have "x < 0 \<Longrightarrow> x div 2 ^ 63 = - 1" "0 \<le> x \<Longrightarrow> x div 2 ^ 63 = 0"
    by (auto simp: in64_def div_eq_minus1 )
  then show ?thesis by (cases "x < 0") (simp_all add: bit_iff_odd)
qed


lemma zigzag:
  fixes v ux :: "64 word"
  assumes "in64 x" "v = push_bit 1 (word_of_int x)" "ux = (if x < 0 then NOT v else v)"
  shows "(if ux AND 1 \<noteq> 0 then NOT (drop_bit 1 ux) else drop_bit 1 ux) = word_of_int x"
proof -
  have v: "bit v k \<longleftrightarrow> 1 \<le> k \<and> k < 64 \<and> bit x (k - 1)" for k
    unfolding assms(2) bit_push_bit_iff by (auto simp: bit_simps)
  then have "even v" using v [of 0] by (simp add: bit_0)
  then have o: "ux AND 1 \<noteq> 0 \<longleftrightarrow> x < 0"
    using assms(3) by (simp add: and_one_eq flip: even_iff_mod_2_eq_zero)
  show ?thesis unfolding o
  proof (rule bit_word_eqI)
    fix n assume "n < LENGTH(64)"
    then show "bit (if x < 0 then NOT (drop_bit 1 ux) else drop_bit 1 ux) n = bit (word_of_int x :: 64 word) n"
      using bit63 [OF assms(1)] assms(3) by (cases "n = 63") (auto simp: bit_simps v)
  qed
qed

lemma Varint_PutVarint:
  assumes "in64 x"
  shows "Varint (PutVarint x @ rest) = (x, int (length (PutVarint x)))"
proof -
  define v where "v = push_bit 1 (word_of_int x :: 64 word)"
  define ux where "ux = (if x < 0 then NOT v else v)"
  have "PutVarint x = PutUvarint ux" unfolding PutVarint_def Let_def v_def ux_def ..
  moreover have "Varint (PutUvarint ux @ rest) = (sint (word_of_int x :: 64 word), int (length (PutUvarint ux)))"
    using zigzag [OF assms v_def ux_def] by (simp only: Varint_def Uvarint_PutUvarint Let_def prod.case)
  ultimately show ?thesis using assms by (simp add: sint_word_wrap64 wrap64_id)
qed

lemma PutUvarint_nonempty [simp]: "PutUvarint x \<noteq> []"
  by (subst PutUvarint.simps) simp

lemma PutVarint_nonempty [simp]: "PutVarint x \<noteq> []"
  by (simp add: PutVarint_def Let_def)

lemma decodeVarint_PutVarint:
  assumes "in64 x"
  shows "decodeVarint (PutVarint x @ rest) = Ret (Inr (rest, x))"
  using assms by (simp add: decodeVarint_def Varint_PutVarint slice_from_def)

section \<open>A row decodes to the columns it encodes\<close>

definition encode_col :: "int \<times> bytes \<Rightarrow> bytes" where
  "encode_col = (\<lambda>(i, v). varintFlag # PutVarint i @ compactBytesFlag # PutVarint (int (length v)) @ v)"

definition encodable :: "(int, bytes) gomap \<Rightarrow> bool" where
  "encodable m \<longleftrightarrow> (\<forall>(i, v) \<in> set m. in64 i \<and> int (length v) \<le> max64)"

lemma encodable_Cons [simp]:
  "encodable ((i, v) # m) \<longleftrightarrow> in64 i \<and> int (length v) \<le> max64 \<and> encodable m"
  by (auto simp: encodable_def)

lemma encode_step: "encodeBytes (encodeInt64 b i) v = b @ encode_col (i, v)"
  by (simp add: encodeBytes_def encodeInt64_def appendVarint_def encode_col_def)

lemma fold_encode:
  "fold (\<lambda>(c, i) b. encodeBytes (encodeInt64 b i) c) cs b = b @ concat (map (\<lambda>(c, i). encode_col (i, c)) cs)"
  by (induction cs arbitrary: b) (auto simp: encode_step)

lemma EncodeRow_columns:
  "EncodeRow (map snd m) (map fst m) buf = Inr (if m = [] then [0] else concat (map encode_col m))"
proof -
  have "map (\<lambda>(c, i). encode_col (i, c)) (zip (map snd m) (map fst m)) = map encode_col m"
    by (induction m) auto
  then show ?thesis by (auto simp: EncodeRow_def fold_encode Let_def)
qed

lemma decodeBytes_encoded:
  assumes "int (length v) \<le> max64"
  shows "decodeBytes (compactBytesFlag # PutVarint (int (length v)) @ v @ rest) = Ret (Inr (rest, v))"
  using assms by (simp add: decodeBytes_def slice_from_def decodeVarint_PutVarint in64_def)

lemma decodeRow_loop_encoded:
  "encodable m \<Longrightarrow> decodeRow_loop row (concat (map encode_col m)) = Ret (map_assign row m, None)"
proof (induction row m rule: map_assign.induct)
  case (2 row i v m)
  then show ?case
    by (subst decodeRow_loop.simps)
      (simp add: encode_col_def decodeInt64_def slice_from_def decodeVarint_PutVarint decodeBytes_encoded)
qed (simp add: decodeRow_loop.simps)

lemma DecodeRow_EncodeRow:
  assumes "encodable m" "EncodeRow (map snd m) (map fst m) buf = Inr b"
  shows "DecodeRow b = Ret (map_assign [] m, None)"
proof (cases m)
  case Nil
  then show ?thesis using assms by (auto simp: EncodeRow_def DecodeRow_def)
next
  case (Cons a m')
  have b: "b = concat (map encode_col m)" using Cons assms(2) unfolding EncodeRow_columns by auto
  then have "1 < length b" using Cons by (auto simp: encode_col_def split: prod.splits)
  then show ?thesis using b decodeRow_loop_encoded [OF assms(1), of "[]"]
    unfolding DecodeRow_def by (metis (no_types) less_irrefl list.size(3) not_one_less_zero)
qed

section \<open>The codec of a row\<close>

definition field_name :: "nat \<Rightarrow> string" where
  "field_name i = ''field'' @ itoa (int i)"

definition field_names :: "nat \<Rightarrow> string list" where
  "field_names n = map field_name [0..<n]"

definition field_codec :: "nat \<Rightarrow> RowCodec" where
  "field_codec n = \<lparr>fieldIndices = map (\<lambda>i. (field_name i, int i)) [0..<n], codecFields = field_names n\<rparr>"

text \<open>The rows a client may write: distinct names, all of them fields of the codec.\<close>

definition codec_row :: "nat \<Rightarrow> row \<Rightarrow> bool" where
  "codec_row n values \<longleftrightarrow> wf_map values \<and> fst ` set values \<subseteq> set (field_names n) \<and>
     (\<forall>v \<in> snd ` set values. int (length v) \<le> max64)"

lemma field_name_inject [simp]: "field_name i = field_name j \<longleftrightarrow> i = j"
  by (simp add: field_name_def)

lemma distinct_field_names [simp]: "distinct (field_names n)"
  by (simp add: field_names_def distinct_map inj_on_def)

lemma update_absent: "k \<notin> fst ` set m \<Longrightarrow> AList.update k v m = m @ [(k, v)]"
  by (induction m) auto

lemma createFieldIndices_eq:
  "createFieldIndices p = map (\<lambda>i. (field_name i, int i))
     [0..<nat (GetInt64 p prop_FieldCount prop_FieldCountDefault)]"
proof -
  have "fold (\<lambda>i m. AList.update (field_name i) (int i) m) [0..<n] [] =
    map (\<lambda>i. (field_name i, int i)) [0..<n]" for n
    by (induction n) (simp_all, subst update_absent, auto)
  then show ?thesis by (simp add: createFieldIndices_def Let_def field_name_def)
qed

lemma NewRowCodec_eq:
  "NewRowCodec p = (let n = GetInt64 p prop_FieldCount prop_FieldCountDefault
     in if n < 0 then Panic ''makeslice: cap out of range'' else Ret (field_codec (nat n)))"
  by (auto simp: NewRowCodec_def allFields_def createFieldIndices_eq field_codec_def field_names_def
      field_name_def Let_def)

lemma map_index_field [simp]:
  "i < n \<Longrightarrow> map_index 0 (fieldIndices (field_codec n)) (field_name i) = int i"
proof -
  assume "i < n"
  then have "map_of (map (\<lambda>i. (field_name i, int i)) [0..<n]) (field_name i) = Some (int i)"
    by (intro map_of_is_SomeI) (auto simp: distinct_map inj_on_def o_def)
  then show ?thesis by (simp add: map_index_def field_codec_def)
qed

lemma in_field_names [simp]: "f \<in> set (field_names n) \<longleftrightarrow> (\<exists>i < n. f = field_name i)"
  by (auto simp: field_names_def)

text \<open>The columns that \<^verbatim>\<open>Encode\<close> writes for a row, and that they determine the row.\<close>

definition columns :: "nat \<Rightarrow> row \<Rightarrow> (int, bytes) gomap" where
  "columns n values = map (\<lambda>(k, v). (map_index 0 (fieldIndices (field_codec n)) k, v)) values"

lemma Encode_columns:
  "Encode (field_codec n) buf values = EncodeRow (map snd (columns n values)) (map fst (columns n values)) buf"
  by (simp add: Encode_def columns_def Let_def o_def case_prod_unfold)

lemma columns_lookup:
  assumes "codec_row n values" "i < n"
  shows "map_of (columns n values) (int i) = map_of values (field_name i)"
  using assms by (induction "values") (auto simp: columns_def codec_row_def)

lemma columns_lookup_name:
  assumes "codec_row n values" "f \<in> set (field_names n)"
  shows "map_of (columns n values) (map_index 0 (fieldIndices (field_codec n)) f) = map_of values f"
  using assms columns_lookup [OF assms(1)] by auto

lemma columns_wf:
  assumes "codec_row n values"
  shows "wf_map (columns n values)"
proof -
  have "inj_on (map_index 0 (fieldIndices (field_codec n))) (set (field_names n))"
    by (auto simp: inj_on_def)
  then have "inj_on (map_index 0 (fieldIndices (field_codec n))) (fst ` set values)"
    using assms unfolding codec_row_def by (blast intro: inj_on_subset)
  moreover have "map fst (columns n values) = map (map_index 0 (fieldIndices (field_codec n))) (map fst values)"
    by (simp add: columns_def case_prod_unfold)
  ultimately show ?thesis using assms by (simp add: wf_map_def codec_row_def distinct_map comp_inj_on)
qed

lemma columns_encodable:
  assumes "codec_row n values" "n \<le> nat max64"
  shows "encodable (columns n values)"
proof -
  have "in64 (map_index 0 (fieldIndices (field_codec n)) k) \<and> int (length v) \<le> max64"
    if kv: "(k, v) \<in> set values" for k v
  proof -
    have "k \<in> set (field_names n)" "int (length v) \<le> max64"
      using assms(1) kv unfolding codec_row_def by force+
    then show ?thesis using assms(2) by (auto simp: in64_def)
  qed
  then show ?thesis by (auto simp: encodable_def columns_def)
qed

lemma fold_collect:
  "map_of (fold (\<lambda>f res. case g f of Some v \<Rightarrow> AList.update f v res | None \<Rightarrow> res) fs r) =
     map_of r ++ (\<lambda>f. if f \<in> set fs then g f else None)"
proof (induction fs arbitrary: r)
  case (Cons f fs)
  then show ?case by (cases "g f") (auto simp: update_conv' map_add_def fun_eq_iff split: option.splits)
qed simp

lemma wf_fold_collect:
  "wf_map r \<Longrightarrow> wf_map (fold (\<lambda>f res. case g f of Some v \<Rightarrow> AList.update f v res | None \<Rightarrow> res) fs r)"
  by (induction fs arbitrary: r) (auto split: option.splits)

lemma Decode_Encode:
  assumes "codec_row n values" "n \<le> nat max64" "set fs \<subseteq> set (field_names n)"
    and "Encode (field_codec n) buf values = Inr b"
  obtains res where "Decode (field_codec n) b fs = Ret (Inr res)" "wf_map res"
    "map_of res = map_of values |` set (if fs = [] then field_names n else fs)"
proof -
  let ?fs = "if fs = [] then field_names n else fs"
  let ?g = "\<lambda>f. map_of (columns n values) (map_index 0 (fieldIndices (field_codec n)) f)"
  let ?res = "fold (\<lambda>f res. case ?g f of Some v \<Rightarrow> AList.update f v res | None \<Rightarrow> res) ?fs []"
  have "DecodeRow b = Ret (map_assign [] (columns n values), None)"
    using DecodeRow_EncodeRow [OF columns_encodable [OF assms(1,2)]] assms(4) by (simp add: Encode_columns)
  then have dec: "Decode (field_codec n) b fs = Ret (Inr ?res)"
    using columns_wf [OF assms(1)]
    by (simp add: Decode_def Let_def map_of_map_assign) (simp add: field_codec_def)
  have "(if f \<in> set ?fs then ?g f else None) = (map_of values |` set ?fs) f" for f
    using assms(3) columns_lookup_name [OF assms(1)]
    by (auto simp: restrict_map_def simp del: in_field_names)
  then have "map_of ?res = map_of values |` set ?fs"
    by (subst fold_collect) (simp add: fun_eq_iff del: in_field_names)
  then show ?thesis by (intro that [OF dec] wf_fold_collect wf_map_Nil)
qed

lemma map_restrict_self: "dom m \<subseteq> A \<Longrightarrow> m |` A = m"
  by (auto simp: restrict_map_def fun_eq_iff) (metis domIff subsetD)

text \<open>What a store that keeps encoded rows relies on: an encoding that never fails on the rows
  of its schema, and a decoding that gives back the fields asked for.\<close>

locale row_codec =
  fixes row_ok :: "row \<Rightarrow> bool"
    and names :: "string list"
    and enc :: "bytes \<Rightarrow> row \<Rightarrow> goerror + bytes"
    and dec :: "bytes \<Rightarrow> string list \<Rightarrow> (goerror + row) outcome"
  assumes enc_total: "\<exists>b. enc buf v = Inr b"
    and dec_enc: "row_ok v \<Longrightarrow> set fs \<subseteq> set names \<Longrightarrow> enc buf v = Inr b \<Longrightarrow>
      \<exists>res. dec b fs = Ret (Inr res) \<and> wf_map res \<and>
        map_of res = map_of v |` set (if fs = [] then names else fs)"
    and row_ok_wf: "row_ok v \<Longrightarrow> wf_map v \<and> fst ` set v \<subseteq> set names"
begin

lemma enc_obtain:
  obtains b where "enc buf v = Inr b"
  using enc_total by blast

text \<open>With no field list the whole row comes back.\<close>

lemma dec_all:
  assumes "row_ok v" "enc buf v = Inr b"
  shows "\<exists>res. dec b [] = Ret (Inr res) \<and> wf_map res \<and> map_of res = map_of v"
proof -
  have "map_of v |` set names = map_of v"
    using row_ok_wf [OF assms(1)] by (intro map_restrict_self) (simp add: dom_map_of_conv_image_fst)
  then show ?thesis using dec_enc [OF assms(1) _ assms(2), of "[]"] by auto
qed

text \<open>Two rows with the same bytes are the same row.\<close>

lemma enc_inject:
  assumes "row_ok v" "row_ok w" "enc buf v = Inr b" "enc buf' w = Inr b"
  shows "map_of v = map_of w"
  using dec_all [OF assms(1,3)] dec_all [OF assms(2,4)] by auto

end

interpretation fc: row_codec "\<lambda>v. codec_row n v \<and> n \<le> nat max64" "field_names n"
  "Encode (field_codec n)" "Decode (field_codec n)"
proof unfold_locales
  show "\<exists>b. Encode (field_codec n) buf v = Inr b" for buf v
    by (simp add: Encode_columns EncodeRow_columns)
next
  fix v fs buf b
  assume "codec_row n v \<and> n \<le> nat max64" "set fs \<subseteq> set (field_names n)" "Encode (field_codec n) buf v = Inr b"
  then show "\<exists>res. Decode (field_codec n) b fs = Ret (Inr res) \<and> wf_map res \<and>
      map_of res = map_of v |` set (if fs = [] then field_names n else fs)"
    using Decode_Encode by metis
qed (simp add: codec_row_def)

section \<open>Sorted field pairs\<close>

lemma NewFieldPairs_sorted:
  assumes "wf_map values"
  shows "sorted_wrt (<) (map Field (NewFieldPairs values))"
    and "set (NewFieldPairs values) = (\<lambda>(f, v). \<lparr>Field = f, Value = v\<rparr>) ` set values"
proof -
  have "mset (map Field (NewFieldPairs values)) = mset (map fst values)"
    by (simp add: NewFieldPairs_def image_mset.compositionality o_def case_prod_unfold)
  then have "distinct (map Field (NewFieldPairs values))"
    using assms unfolding wf_map_def by (metis mset_eq_imp_distinct_iff)
  then show "sorted_wrt (<) (map Field (NewFieldPairs values))"
    by (simp add: NewFieldPairs_def strict_sorted_iff)
qed (simp add: NewFieldPairs_def)

text \<open>The order in which the map is iterated does not matter.\<close>

lemma NewFieldPairs_order:
  assumes "wf_map v" "wf_map w" "map_of v = map_of w"
  shows "NewFieldPairs v = NewFieldPairs w"
proof -
  have "set v = set w" using assms map_of_inject_set [of v w] by (simp add: wf_map_def)
  then have s: "set (NewFieldPairs v) = set (NewFieldPairs w)"
    using NewFieldPairs_sorted(2) assms by simp
  then have "map Field (NewFieldPairs v) = map Field (NewFieldPairs w)"
    using NewFieldPairs_sorted(1) [OF assms(1)] NewFieldPairs_sorted(1) [OF assms(2)]
    by (intro strict_sorted_equal) simp_all
  moreover have "inj_on Field (set (NewFieldPairs v) \<union> set (NewFieldPairs w))"
    using NewFieldPairs_sorted(1) [OF assms(1)] s by (simp add: strict_sorted_iff distinct_map)
  ultimately show ?thesis by (simp add: inj_on_map_eq_map)
qed

section \<open>Properties\<close>

text \<open>(C6) Round trip of the row codec. A codec built from the properties encodes every row over
  its fields, in whatever order the map is iterated and whatever the buffer held, and decoding
  the bytes gives exactly the fields asked for, or the whole row when none is named.\<close>

theorem codec_round_trip:
  assumes "NewRowCodec p = Ret c"
    and "n = GetInt64 p prop_FieldCount prop_FieldCountDefault" "n \<le> max64"
    and "codec_row (nat n) values" "set fs \<subseteq> set (codecFields c)"
  shows "\<exists>b res. Encode c buf values = Inr b \<and> Decode c b fs = Ret (Inr res) \<and> wf_map res \<and>
    map_of res = map_of values |` set (if fs = [] then codecFields c else fs)"
proof -
  have c: "c = field_codec (nat n)" using assms(1,2) by (auto simp: NewRowCodec_eq Let_def split: if_splits)
  then have f: "codecFields c = field_names (nat n)" by (simp add: field_codec_def)
  have "nat n \<le> nat max64" using assms(3) by (rule nat_mono)
  then have ok: "codec_row (nat n) values \<and> nat n \<le> nat max64" using assms(4) by simp
  obtain b where b: "Encode (field_codec (nat n)) buf values = Inr b" using fc.enc_total ..
  show ?thesis using fc.dec_enc [OF ok _ b, of fs] assms(5) b unfolding f unfolding c by auto
qed

theorem codec_round_trip_witness:
  "NewRowCodec no_properties = Ret (field_codec 10) \<and>
   codec_row 10 [(''field3'', [1, 2]), (''field0'', [])] \<and>
   (\<exists>b res. Encode (field_codec 10) [7] [(''field3'', [1, 2]), (''field0'', [])] = Inr b \<and>
      Decode (field_codec 10) b [''field3''] = Ret (Inr res) \<and> wf_map res \<and>
      map_of res = map_of [(''field3'', [1, 2]), (''field0'', [])] |` {''field3''})"
proof -
  have c: "NewRowCodec no_properties = Ret (field_codec 10)" by (simp add: NewRowCodec_eq no_properties_def)
  moreover have r: "codec_row 10 [(''field3'', [1, 2]), (''field0'', [])]" by code_simp
  moreover have "set [''field3''] \<subseteq> set (codecFields (field_codec 10))" by code_simp
  ultimately show ?thesis
    using codec_round_trip [OF c refl, of "[(''field3'', [1, 2]), (''field0'', [])]" "[''field3'']" "[7]"]
    by (simp add: no_properties_def)
qed

text \<open>(C17) Every \<^verbatim>\<open>int64\<close> survives its varint, and the decoder consumes exactly the bytes written.\<close>

theorem varint_round_trip:
  assumes "in64 x"
  shows "decodeVarint (appendVarint [] x @ rest) = Ret (Inr (rest, x))"
  using decodeVarint_PutVarint [OF assms] by (simp add: appendVarint_def)

theorem varint_round_trip_witness:
  "in64 (- 300) \<and> decodeVarint (appendVarint [] (- 300) @ [9]) = Ret (Inr ([9], - 300))"
  using varint_round_trip [of "- 300" "[9]"] by (simp add: in64_def)





end
