(* ===== verification/ConcurrentMap.thy ===== *)
theory ConcurrentMap
  imports Hash "HOL-Library.Multiset"
begin

text \<open>
  The sharded map of \<^verbatim>\<open>pkg/util/concurrent_map.go\<close>, a \<^verbatim>\<open>map[int]int64\<close> cut into shards by a hash
  of the key. Every operation holds the lock of its shard for its whole body, so a run of the
  program is a sequence of these operations on the shards. The iterators send each shard through
  a channel of its own and merge the channels: \<open>fanIn\<close> relates the channels to every order in
  which the merged channel may deliver.
\<close>

unbundle bit_operations_syntax

section \<open>Shards\<close>

type_synonym shard = "(int, int) gomap"

record ConcurrentMap =
  shards :: "shard list"
  shardCount :: int

definition cm_New :: "int \<Rightarrow> ConcurrentMap outcome" where
  "cm_New n = (if n < 0 then Panic ''makeslice: len out of range''
     else Ret \<lparr>shards = replicate (nat n) [], shardCount = n\<rparr>)"

text \<open>The arithmetic of \<^verbatim>\<open>fnv32\<close> is that of \<^verbatim>\<open>int\<close>: 64 bits, with an arithmetic shift to the right.\<close>

definition cm_mix :: "64 word \<Rightarrow> 64 word" where
  "cm_mix key =
     (let key = (key + 0x7ed55d16) + push_bit 12 key;
          key = (key XOR 0xc761c23c) XOR signed_drop_bit 19 key;
          key = (key + 0x165667b1) + push_bit 5 key;
          key = (key + 0xd3a2646c) XOR push_bit 9 key;
          key = (key + 0xfd7046c5) + push_bit 3 key
      in (key XOR 0xb55a4f09) XOR signed_drop_bit 16 key)"

definition fnv32 :: "ConcurrentMap \<Rightarrow> int \<Rightarrow> int outcome" where
  "fnv32 m key = obind (i64_rem (sint (cm_mix (word_of_int key))) (shardCount m)) (\<lambda>k. Ret (k mod 4294967296))"

definition GetShard :: "ConcurrentMap \<Rightarrow> int \<Rightarrow> nat outcome" where
  "GetShard m key = obind (fnv32 m key) (\<lambda>h.
     let i = nat (h mod (shardCount m mod 18446744073709551616))
     in if i < length (shards m) then Ret i else Panic ''index out of range'')"

text \<open>What an operation does to the items of its shard.\<close>

definition set_shard :: "ConcurrentMap \<Rightarrow> nat \<Rightarrow> shard \<Rightarrow> ConcurrentMap" where
  "set_shard m i items = m\<lparr>shards := (shards m)[i := items]\<rparr>"


section \<open>Operations\<close>

definition cm_Set :: "int \<Rightarrow> int \<Rightarrow> ConcurrentMap \<Rightarrow> ConcurrentMap outcome" where
  "cm_Set key value m = obind (GetShard m key) (\<lambda>i.
     Ret (set_shard m i (AList.update key value (shards m ! i))))"

fun cm_MSet :: "(int, int) gomap \<Rightarrow> ConcurrentMap \<Rightarrow> ConcurrentMap outcome" where
  "cm_MSet [] m = Ret m"
| "cm_MSet ((key, value) # data) m = obind (cm_Set key value m) (cm_MSet data)"

definition cm_Upsert ::
  "int \<Rightarrow> int \<Rightarrow> (bool \<Rightarrow> int \<Rightarrow> int \<Rightarrow> int) \<Rightarrow> ConcurrentMap \<Rightarrow> (int \<times> ConcurrentMap) outcome"
where
  "cm_Upsert key value cb m = obind (GetShard m key) (\<lambda>i.
     let items = shards m ! i;
         v = map_index 0 items key; ok = (map_of items key \<noteq> None);
         res = cb ok v value
     in Ret (res, set_shard m i (AList.update key res items)))"

definition cm_SetIfAbsent :: "int \<Rightarrow> int \<Rightarrow> ConcurrentMap \<Rightarrow> (bool \<times> ConcurrentMap) outcome" where
  "cm_SetIfAbsent key value m = obind (GetShard m key) (\<lambda>i.
     let items = shards m ! i; ok = (map_of items key \<noteq> None)
     in Ret (\<not> ok, if \<not> ok then set_shard m i (AList.update key value items) else m))"

definition cm_Get :: "int \<Rightarrow> ConcurrentMap \<Rightarrow> (int \<times> bool) outcome" where
  "cm_Get key m = obind (GetShard m key) (\<lambda>i.
     Ret (map_index 0 (shards m ! i) key, map_of (shards m ! i) key \<noteq> None))"

fun count_shards :: "shard list \<Rightarrow> int" where
  "count_shards [] = 0"
| "count_shards (s # ss) = int (length s) + count_shards ss"

definition cm_Count :: "ConcurrentMap \<Rightarrow> int" where
  "cm_Count m = count_shards (take (nat (shardCount m)) (shards m))"

definition cm_Has :: "int \<Rightarrow> ConcurrentMap \<Rightarrow> bool outcome" where
  "cm_Has key m = obind (GetShard m key) (\<lambda>i. Ret (map_of (shards m ! i) key \<noteq> None))"

definition cm_Remove :: "int \<Rightarrow> ConcurrentMap \<Rightarrow> ConcurrentMap outcome" where
  "cm_Remove key m = obind (GetShard m key) (\<lambda>i.
     Ret (set_shard m i (AList.delete key (shards m ! i))))"

definition cm_RemoveCb ::
  "int \<Rightarrow> (int \<Rightarrow> int \<Rightarrow> bool \<Rightarrow> bool) \<Rightarrow> ConcurrentMap \<Rightarrow> (bool \<times> ConcurrentMap) outcome"
where
  "cm_RemoveCb key cb m = obind (GetShard m key) (\<lambda>i.
     let items = shards m ! i;
         v = map_index 0 items key; ok = (map_of items key \<noteq> None);
         remove = cb key v ok
     in Ret (remove, if remove \<and> ok then set_shard m i (AList.delete key items) else m))"

definition cm_Pop :: "int \<Rightarrow> ConcurrentMap \<Rightarrow> ((int \<times> bool) \<times> ConcurrentMap) outcome" where
  "cm_Pop key m = obind (GetShard m key) (\<lambda>i.
     let items = shards m ! i
     in Ret ((map_index 0 items key, map_of items key \<noteq> None),
             set_shard m i (AList.delete key items)))"

definition cm_IsEmpty :: "ConcurrentMap \<Rightarrow> bool" where
  "cm_IsEmpty m \<longleftrightarrow> cm_Count m = 0"


section \<open>Iteration\<close>

definition snapshot :: "ConcurrentMap \<Rightarrow> (int \<times> int) list list" where
  "snapshot m = shards m"

text \<open>The goroutines of \<^verbatim>\<open>fanIn\<close>: each step one of them forwards the next tuple of its channel.\<close>

inductive fanIn :: "'a list list \<Rightarrow> 'a list \<Rightarrow> bool" where
  fanIn_done: "\<forall>ch \<in> set chans. ch = [] \<Longrightarrow> fanIn chans []"
| fanIn_step: "i < length chans \<Longrightarrow> chans ! i = t # ch \<Longrightarrow> fanIn (chans[i := ch]) out \<Longrightarrow> fanIn chans (t # out)"

definition cm_IterBuffered :: "ConcurrentMap \<Rightarrow> (int \<times> int) list \<Rightarrow> bool" where
  "cm_IterBuffered m out \<longleftrightarrow> fanIn (snapshot m) out"

definition cm_Items :: "(int \<times> int) list \<Rightarrow> (int, int) gomap" where
  "cm_Items received = map_assign [] received"

definition cm_MarshalJSON :: "((int, int) gomap \<Rightarrow> goerror + bytes) \<Rightarrow> (int \<times> int) list \<Rightarrow> goerror + bytes" where
  "cm_MarshalJSON json_Marshal received = json_Marshal (map_assign [] received)"

definition cm_IterCb :: "(int \<Rightarrow> int \<Rightarrow> 's \<Rightarrow> 's) \<Rightarrow> ConcurrentMap \<Rightarrow> 's \<Rightarrow> 's" where
  "cm_IterCb fn m s = fold (\<lambda>shard. fold (\<lambda>(key, value). fn key value) shard) (shards m) s"

text \<open>\<^verbatim>\<open>Keys\<close> merges the keys of the shards in the same way and collects what it receives.\<close>

definition cm_Keys :: "ConcurrentMap \<Rightarrow> int list \<Rightarrow> bool" where
  "cm_Keys m out \<longleftrightarrow> fanIn (map (map fst) (shards m)) out"


section \<open>The calls of a client\<close>

datatype cm_call =
    CSet int int
  | CUpsert int int "bool \<Rightarrow> int \<Rightarrow> int \<Rightarrow> int"
  | CSetIfAbsent int int
  | CGet int
  | CHas int
  | CRemove int
  | CRemoveCb int "int \<Rightarrow> int \<Rightarrow> bool \<Rightarrow> bool"
  | CPop int
  | CCount
  | CIsEmpty

datatype cm_reply = RUnit | RBool bool | RInt int | RVal int bool

primrec cm_exec :: "cm_call \<Rightarrow> ConcurrentMap \<Rightarrow> (cm_reply \<times> ConcurrentMap) outcome" where
  "cm_exec (CSet k v) m = obind (cm_Set k v m) (\<lambda>m'. Ret (RUnit, m'))"
| "cm_exec (CUpsert k v cb) m = obind (cm_Upsert k v cb m) (\<lambda>(r, m'). Ret (RInt r, m'))"
| "cm_exec (CSetIfAbsent k v) m = obind (cm_SetIfAbsent k v m) (\<lambda>(r, m'). Ret (RBool r, m'))"
| "cm_exec (CGet k) m = obind (cm_Get k m) (\<lambda>(v, ok). Ret (RVal v ok, m))"
| "cm_exec (CHas k) m = obind (cm_Has k m) (\<lambda>ok. Ret (RBool ok, m))"
| "cm_exec (CRemove k) m = obind (cm_Remove k m) (\<lambda>m'. Ret (RUnit, m'))"
| "cm_exec (CRemoveCb k cb) m = obind (cm_RemoveCb k cb m) (\<lambda>(r, m'). Ret (RBool r, m'))"
| "cm_exec (CPop k) m = obind (cm_Pop k m) (\<lambda>((v, ok), m'). Ret (RVal v ok, m'))"
| "cm_exec CCount m = Ret (RInt (cm_Count m), m)"
| "cm_exec CIsEmpty m = Ret (RBool (cm_IsEmpty m), m)"

text \<open>The same calls on one mathematical map.\<close>

definition the_default :: "'a \<Rightarrow> 'a option \<Rightarrow> 'a" where
  "the_default z x = (case x of Some v \<Rightarrow> v | None \<Rightarrow> z)"

primrec map_exec :: "cm_call \<Rightarrow> (int \<rightharpoonup> int) \<Rightarrow> cm_reply \<times> (int \<rightharpoonup> int)" where
  "map_exec (CSet k v) f = (RUnit, f(k \<mapsto> v))"
| "map_exec (CUpsert k v cb) f =
     (let r = cb (f k \<noteq> None) (the_default 0 (f k)) v in (RInt r, f(k \<mapsto> r)))"
| "map_exec (CSetIfAbsent k v) f = (RBool (f k = None), if f k = None then f(k \<mapsto> v) else f)"
| "map_exec (CGet k) f = (RVal (the_default 0 (f k)) (f k \<noteq> None), f)"
| "map_exec (CHas k) f = (RBool (f k \<noteq> None), f)"
| "map_exec (CRemove k) f = (RUnit, f(k := None))"
| "map_exec (CRemoveCb k cb) f =
     (let r = cb k (the_default 0 (f k)) (f k \<noteq> None) in (RBool r, if r then f(k := None) else f))"
| "map_exec (CPop k) f = (RVal (the_default 0 (f k)) (f k \<noteq> None), f(k := None))"
| "map_exec CCount f = (RInt (int (card (dom f))), f)"
| "map_exec CIsEmpty f = (RBool (f = Map.empty), f)"

fun cm_run :: "cm_call list \<Rightarrow> ConcurrentMap \<Rightarrow> (cm_reply list \<times> ConcurrentMap) outcome" where
  "cm_run [] m = Ret ([], m)"
| "cm_run (c # cs) m = obind (cm_exec c m) (\<lambda>(r, m1).
     obind (cm_run cs m1) (\<lambda>(rs, m2). Ret (r # rs, m2)))"

fun map_run :: "cm_call list \<Rightarrow> (int \<rightharpoonup> int) \<Rightarrow> cm_reply list \<times> (int \<rightharpoonup> int)" where
  "map_run [] f = ([], f)"
| "map_run (c # cs) f = (let (r, f1) = map_exec c f; (rs, f2) = map_run cs f1 in (r # rs, f2))"


section \<open>Every operation is that of a map\<close>

definition cm_index :: "ConcurrentMap \<Rightarrow> int \<Rightarrow> nat" where
  "cm_index m key = (case GetShard m key of Ret i \<Rightarrow> i | _ \<Rightarrow> 0)"

definition cm_inv :: "ConcurrentMap \<Rightarrow> bool" where
  "cm_inv m \<longleftrightarrow> 0 < shardCount m \<and> shardCount m \<le> max64 \<and> int (length (shards m)) = shardCount m \<and>
     (\<forall>i < length (shards m). wf_map (shards m ! i) \<and> (\<forall>k \<in> fst ` set (shards m ! i). cm_index m k = i))"

definition cm_abs :: "ConcurrentMap \<Rightarrow> int \<rightharpoonup> int" where
  "cm_abs m key = map_of (shards m ! cm_index m key) key"

lemma GetShard_Ret:
  assumes "0 < shardCount m" "shardCount m \<le> max64" "int (length (shards m)) = shardCount m"
  obtains i where "GetShard m key = Ret i" "i < length (shards m)"
proof -
  obtain h where "fnv32 m key = Ret h" using assms(1) by (auto simp: fnv32_def i64_rem_def)
  moreover have "h mod shardCount m < int (length (shards m))" "0 \<le> h mod shardCount m"
    unfolding assms(3) using assms(1) by simp_all
  then have "nat (h mod (shardCount m mod 18446744073709551616)) < length (shards m)"
    using assms(1,2) by (simp add: mod_pos_pos_trivial nat_less_iff)
  ultimately show ?thesis using that by (simp add: GetShard_def Let_def)
qed

lemma GetShard_index:
  assumes "cm_inv m"
  shows "GetShard m key = Ret (cm_index m key)" "cm_index m key < length (shards m)"
proof -
  obtain i where "GetShard m key = Ret i" "i < length (shards m)"
    by (rule GetShard_Ret [of m key]) (use assms in \<open>simp_all add: cm_inv_def\<close>)
  then show "GetShard m key = Ret (cm_index m key)" "cm_index m key < length (shards m)"
    by (simp_all add: cm_index_def)
qed

lemma GetShard_cong:
  "shardCount m = shardCount m' \<Longrightarrow> length (shards m) = length (shards m') \<Longrightarrow> GetShard m = GetShard m'"
  by (simp add: GetShard_def fnv32_def fun_eq_iff)

lemma set_shard_index [simp]: "cm_index (set_shard m i items) = cm_index m"
  using GetShard_cong [of "set_shard m i items" m] by (simp add: cm_index_def set_shard_def fun_eq_iff)

text \<open>An update of one shard that keeps its other keys is an update of the map at one key.\<close>

lemma set_shard_refine:
  assumes "cm_inv m" "wf_map items" "map_of items = (map_of (shards m ! cm_index m key))(key := x)"
  shows "cm_inv (set_shard m (cm_index m key) items)"
    and "cm_abs (set_shard m (cm_index m key) items) = (cm_abs m)(key := x)"
proof -
  let ?i = "cm_index m key"
  have i: "?i < length (shards m)" using assms(1) by (rule GetShard_index)
  have "fst ` set items \<subseteq> insert key (fst ` set (shards m ! ?i))"
    using assms(3) by (auto simp flip: dom_map_of_conv_image_fst split: if_splits)
  moreover have "\<forall>k \<in> fst ` set (shards m ! ?i). cm_index m k = ?i"
    using assms(1) i by (simp add: cm_inv_def)
  ultimately have items: "\<forall>k \<in> fst ` set items. cm_index m k = ?i" by blast
  have "wf_map (shards (set_shard m ?i items) ! j) \<and>
      (\<forall>k \<in> fst ` set (shards (set_shard m ?i items) ! j). cm_index m k = j)"
    if "j < length (shards m)" for j
  proof (cases "j = ?i")
    case True
    then show ?thesis using i items assms(2) by (simp add: set_shard_def)
  next
    case False
    then show ?thesis using that assms(1) by (simp add: set_shard_def cm_inv_def)
  qed
  then show "cm_inv (set_shard m ?i items)"
    using assms(1) unfolding cm_inv_def set_shard_index by (simp add: set_shard_def)
  show "cm_abs (set_shard m ?i items) = (cm_abs m)(key := x)"
    unfolding cm_abs_def set_shard_index using i assms(3)
    by (simp add: set_shard_def nth_list_update fun_eq_iff)
qed

lemma map_index_default: "map_index z m k = the_default z (map_of m k)"
  by (simp add: map_index_def the_default_def)

lemma cm_abs_shard: "map_of (shards m ! cm_index m key) key = cm_abs m key"
  by (simp add: cm_abs_def)

lemma cm_abs_eq_self: "cm_abs m k = x \<Longrightarrow> (cm_abs m)(k := x) = cm_abs m"
  by auto

lemma cm_inv_shard: "cm_inv m \<Longrightarrow> wf_map (shards m ! cm_index m key)"
  using GetShard_index(2) [of m key] by (simp add: cm_inv_def)

lemma set_shard_update:
  assumes "cm_inv m"
  shows "cm_inv (set_shard m (cm_index m k) (AList.update k v (shards m ! cm_index m k)))"
    and "cm_abs (set_shard m (cm_index m k) (AList.update k v (shards m ! cm_index m k))) = (cm_abs m)(k \<mapsto> v)"
  using set_shard_refine [OF assms, of _ k "Some v"] cm_inv_shard [OF assms]
  by (simp_all add: update_conv')

lemma set_shard_delete:
  assumes "cm_inv m"
  shows "cm_inv (set_shard m (cm_index m k) (AList.delete k (shards m ! cm_index m k)))"
    and "cm_abs (set_shard m (cm_index m k) (AList.delete k (shards m ! cm_index m k))) = (cm_abs m)(k := None)"
  using set_shard_refine [OF assms, of _ k None] cm_inv_shard [OF assms]
  by (simp_all add: delete_conv')

lemma count_shards_sum: "count_shards ss = int (\<Sum>s \<leftarrow> ss. length s)"
  by (induction ss) auto

text \<open>The keys of the map are the disjoint union of the keys of the shards.\<close>

lemma cm_inv_key:
  assumes "cm_inv m" "i < length (shards m)" "k \<in> fst ` set (shards m ! i)"
  shows "cm_index m k = i"
  using assms by (auto simp: cm_inv_def)

lemma dom_cm_abs:
  assumes "cm_inv m"
  shows "dom (cm_abs m) = (\<Union>s \<in> set (shards m). fst ` set s)"
proof -
  have "k \<in> dom (cm_abs m) \<longleftrightarrow> k \<in> fst ` set (shards m ! cm_index m k)" for k
    by (auto simp: cm_abs_def simp flip: dom_map_of_conv_image_fst)
  moreover have "k \<in> fst ` set s \<Longrightarrow> s \<in> set (shards m) \<Longrightarrow> s = shards m ! cm_index m k" for k s
    using cm_inv_key [OF assms] by (metis in_set_conv_nth)
  moreover have "shards m ! cm_index m k \<in> set (shards m)" for k
    using GetShard_index(2) [OF assms] by (rule nth_mem)
  ultimately show ?thesis by (metis (no_types, lifting) UN_iff subsetI subset_antisym)
qed

lemma distinct_concat_indexed:
  assumes "\<And>i. i < length ls \<Longrightarrow> distinct (ls ! i)"
    and "\<And>i k. i < length ls \<Longrightarrow> k \<in> set (ls ! i) \<Longrightarrow> h k = i + d"
  shows "distinct (concat ls)"
  using assms
proof (induction ls arbitrary: d)
  case (Cons l ls)
  have "distinct (concat ls)"
    using Cons.IH [of "Suc d"] Cons.prems(1) [of "Suc _"] Cons.prems(2) [of "Suc _"] by simp
  moreover have "distinct l" "\<And>k. k \<in> set l \<Longrightarrow> h k = d"
    using Cons.prems(1) [of 0] Cons.prems(2) [of 0] by auto
  moreover have "\<And>k. k \<in> set (concat ls) \<Longrightarrow> d < h k"
    using Cons.prems(2) [of "Suc _"] by (fastforce simp: in_set_conv_nth)
  ultimately show ?case by fastforce
qed simp

lemma distinct_all_keys:
  assumes "cm_inv m"
  shows "distinct (concat (map (map fst) (shards m)))"
proof (rule distinct_concat_indexed [where h = "cm_index m" and d = 0])
  show "distinct (map (map fst) (shards m) ! i)" if "i < length (map (map fst) (shards m))" for i
    using assms that by (simp add: cm_inv_def wf_map_def)
  show "cm_index m k = i + 0"
    if "i < length (map (map fst) (shards m))" "k \<in> set (map (map fst) (shards m) ! i)" for i k
    using cm_inv_key [OF assms, of i k] that by simp
qed

lemma cm_Count_card:
  assumes "cm_inv m"
  shows "cm_Count m = int (card (dom (cm_abs m)))"
proof -
  have "card (dom (cm_abs m)) = length (concat (map (map fst) (shards m)))"
    using distinct_card [OF distinct_all_keys [OF assms]] dom_cm_abs [OF assms] by simp
  moreover have "nat (shardCount m) = length (shards m)" using assms by (auto simp: cm_inv_def)
  ultimately show ?thesis
    by (simp add: cm_Count_def count_shards_sum length_concat o_def)
qed

lemma finite_dom_cm_abs: "cm_inv m \<Longrightarrow> finite (dom (cm_abs m))"
  by (simp add: dom_cm_abs)

lemmas cm_op_defs = cm_Set_def cm_Upsert_def cm_SetIfAbsent_def cm_Get_def cm_Has_def cm_Remove_def
  cm_RemoveCb_def cm_Pop_def

lemma cm_exec_refines:
  assumes "cm_inv m"
  obtains r m' where "cm_exec c m = Ret (r, m')" "cm_inv m'" "map_exec c (cm_abs m) = (r, cm_abs m')"
proof (cases "cm_exec c m")
  case (Ret rm)
  then obtain r m' where e: "cm_exec c m = Ret (r, m')" by (cases rm) auto
  have "cm_inv m' \<and> map_exec c (cm_abs m) = (r, cm_abs m')"
    using e assms
    by (cases c) (auto simp: cm_op_defs GetShard_index [OF assms] set_shard_update [OF assms]
        set_shard_delete [OF assms] map_index_default cm_abs_shard cm_Count_card cm_IsEmpty_def
        finite_dom_cm_abs Let_def outcome_simps split: if_splits)
  then show thesis using e that by blast
qed (use assms in \<open>cases c; simp add: cm_op_defs GetShard_index [OF assms] Let_def\<close>)+

text \<open>A state that implements an abstract one call by call implements it over every sequence of
  calls, with the same replies.\<close>

locale call_refinement =
  fixes inv :: "'s \<Rightarrow> bool"
    and abs :: "'s \<Rightarrow> 'a"
    and exec :: "'c \<Rightarrow> 's \<Rightarrow> ('r \<times> 's) outcome"
    and spec :: "'c \<Rightarrow> 'a \<Rightarrow> 'r \<times> 'a"
    and run :: "'c list \<Rightarrow> 's \<Rightarrow> ('r list \<times> 's) outcome"
    and spec_run :: "'c list \<Rightarrow> 'a \<Rightarrow> 'r list \<times> 'a"
  assumes exec_refines: "inv s \<Longrightarrow> \<exists>r s'. exec c s = Ret (r, s') \<and> inv s' \<and> spec c (abs s) = (r, abs s')"
    and run_Nil: "run [] s = Ret ([], s)"
    and run_Cons: "run (c # cs) s = obind (exec c s) (\<lambda>(r, s1). obind (run cs s1) (\<lambda>(rs, s2). Ret (r # rs, s2)))"
    and spec_run_Nil: "spec_run [] a = ([], a)"
    and spec_run_Cons: "spec_run (c # cs) a = (let (r, a1) = spec c a; (rs, a2) = spec_run cs a1 in (r # rs, a2))"
begin

lemma run_refines:
  "inv s \<Longrightarrow> \<exists>rs s'. run cs s = Ret (rs, s') \<and> inv s' \<and> spec_run cs (abs s) = (rs, abs s')"
proof (induction cs arbitrary: s)
  case (Cons c cs)
  obtain r s1 where "exec c s = Ret (r, s1)" "inv s1" "spec c (abs s) = (r, abs s1)"
    using exec_refines [OF Cons.prems] by blast
  with Cons.IH [of s1] show ?case by (auto simp: run_Cons spec_run_Cons)
qed (simp add: run_Nil spec_run_Nil)

end

interpretation cm: call_refinement cm_inv cm_abs cm_exec map_exec cm_run map_run
proof unfold_locales
  show "\<exists>r s'. cm_exec c s = Ret (r, s') \<and> cm_inv s' \<and> map_exec c (cm_abs s) = (r, cm_abs s')"
    if "cm_inv s" for c s
    using cm_exec_refines [OF that] by metis
qed simp_all

lemma cm_New_inv:
  assumes "0 < n" "n \<le> max64"
  obtains m where "cm_New n = Ret m" "cm_inv m" "cm_abs m = Map.empty"
proof -
  let ?m = "\<lparr>shards = replicate (nat n) [], shardCount = n\<rparr>"
  have "cm_inv ?m" using assms by (simp add: cm_inv_def)
  moreover from this have "cm_abs ?m = Map.empty"
    using GetShard_index(2) [of ?m] by (simp add: cm_abs_def fun_eq_iff)
  ultimately show ?thesis using that assms by (simp add: cm_New_def)
qed

section \<open>Iteration delivers every item once, in any order\<close>

lemma concat_step:
  assumes "i < length chans" "chans ! i = t # ch"
  obtains xs ys where "concat chans = xs @ t # ch @ ys" "concat (chans[i := ch]) = xs @ ch @ ys"
proof
  have "chans = take i chans @ (t # ch) # drop (Suc i) chans"
    using assms by (metis id_take_nth_drop)
  then show "concat chans = concat (take i chans) @ t # ch @ concat (drop (Suc i) chans)"
    by (metis concat.simps(2) concat_append append_Cons)
  show "concat (chans[i := ch]) = concat (take i chans) @ ch @ concat (drop (Suc i) chans)"
    using assms(1) by (simp add: upd_conv_take_nth_drop)
qed

lemma fanIn_mset: "fanIn chans out \<Longrightarrow> mset out = mset (concat chans)"
proof (induction rule: fanIn.induct)
  case (fanIn_done chans)
  then show ?case by (induction chans) auto
next
  case (fanIn_step i chans t ch out)
  obtain xs ys where "concat chans = xs @ t # ch @ ys" "concat (chans[i := ch]) = xs @ ch @ ys"
    using concat_step fanIn_step(1,2) .
  then show ?case using fanIn_step.IH by simp
qed

text \<open>Some delivery always exists: the goroutines never wait for each other.\<close>

lemma fanIn_total: "\<exists>out. fanIn chans out"
proof (induction "length (concat chans)" arbitrary: chans rule: less_induct)
  case less
  show ?case
  proof (cases "\<forall>ch \<in> set chans. ch = []")
    case False
    then obtain i t ch where i: "i < length chans" "chans ! i = t # ch"
      by (metis in_set_conv_nth neq_Nil_conv)
    obtain xs ys where "concat chans = xs @ t # ch @ ys" "concat (chans[i := ch]) = xs @ ch @ ys"
      by (rule concat_step [OF i])
    then have "length (concat (chans[i := ch])) < length (concat chans)" by simp
    then obtain out where "fanIn (chans[i := ch]) out" using less by blast
    then have "fanIn chans (t # out)" by (rule fanIn.fanIn_step [OF i])
    then show ?thesis ..
  qed (blast intro: fanIn.fanIn_done)
qed

lemma cm_abs_item:
  assumes "cm_inv m"
  shows "cm_abs m k = Some v \<longleftrightarrow> (\<exists>s \<in> set (shards m). (k, v) \<in> set s)"
proof -
  have "s = shards m ! cm_index m k" if "(k, v) \<in> set s" "s \<in> set (shards m)" for s
    using that cm_inv_key [OF assms, of _ k] by (metis in_set_conv_nth fst_conv image_eqI)
  moreover have "shards m ! cm_index m k \<in> set (shards m)"
    using GetShard_index(2) [OF assms] by (rule nth_mem)
  ultimately show ?thesis
    using wf_map_of_Some_iff [OF cm_inv_shard [OF assms]] by (auto simp: cm_abs_def)
qed

lemma cm_IterBuffered_items:
  assumes "cm_inv m" "cm_IterBuffered m out"
  shows "wf_map out" "map_of out = cm_abs m"
proof -
  have "mset out = mset (concat (shards m))"
    using assms(2) fanIn_mset by (auto simp: cm_IterBuffered_def snapshot_def)
  note m = this
  have "mset (map fst out) = mset (concat (map (map fst) (shards m)))"
    using arg_cong [OF m, of "image_mset fst"] by (simp flip: mset_map map_concat)
  moreover have s: "set out = set (concat (shards m))" using m by (rule mset_eq_setD)
  ultimately have wf: "wf_map out"
    unfolding wf_map_def using distinct_all_keys [OF assms(1)] by (metis mset_eq_imp_distinct_iff)
  then show "wf_map out" .
  have "map_of out k = Some v \<longleftrightarrow> cm_abs m k = Some v" for k v
    using s wf_map_of_Some_iff [OF wf] cm_abs_item [OF assms(1)] by simp
  then show "map_of out = cm_abs m" by (rule map_eqI)
qed

section \<open>Properties\<close>

text \<open>(C7) The sharded map is a map. From a fresh map with any positive number of shards, every
  sequence of calls returns, with no panic on any key, and gives the replies of one
  mathematical map on which the same calls run; the shards keep their invariant.\<close>

theorem ConcurrentMap_refines_map:
  assumes "0 < n" "n \<le> max64"
  shows "\<exists>m rs m'. cm_New n = Ret m \<and> cm_run cs m = Ret (rs, m') \<and> cm_inv m' \<and>
    map_run cs Map.empty = (rs, cm_abs m')"
proof -
  obtain m where "cm_New n = Ret m" "cm_inv m" "cm_abs m = Map.empty"
    by (rule cm_New_inv [OF assms])
  then show ?thesis using cm.run_refines [of m cs] by auto
qed

theorem ConcurrentMap_refines_map_witness:
  "\<exists>m rs m'. cm_New 32 = Ret m \<and>
     cm_run [CSet 5 7, CPop 5, CCount, CGet (- 3)] m = Ret (rs, m') \<and> cm_inv m' \<and>
     rs = [RUnit, RVal 7 True, RInt 0, RVal 0 False]"
proof -
  have "map_run [CSet 5 7, CPop 5, CCount, CGet (- 3)] Map.empty =
      ([RUnit, RVal 7 True, RInt 0, RVal 0 False], Map.empty)"
    by (simp add: the_default_def)
  then show ?thesis
    using ConcurrentMap_refines_map [of 32 "[CSet 5 7, CPop 5, CCount, CGet (- 3)]"] by auto
qed

text \<open>(C21) The iterators. Some delivery of the merged channels exists, and whatever order the
  goroutines deliver in, \<^verbatim>\<open>Items\<close> rebuilds exactly the map, and the keys received are the keys of the
  map, each once.\<close>

theorem ConcurrentMap_iteration:
  assumes "cm_inv m"
  shows "(\<exists>out. cm_IterBuffered m out) \<and>
    (\<forall>out. cm_IterBuffered m out \<longrightarrow> wf_map (cm_Items out) \<and> map_of (cm_Items out) = cm_abs m) \<and>
    (\<forall>ks. cm_Keys m ks \<longrightarrow> distinct ks \<and> set ks = dom (cm_abs m) \<and> int (length ks) = cm_Count m)"
proof (intro conjI allI impI)
  show "\<exists>out. cm_IterBuffered m out" by (simp add: cm_IterBuffered_def fanIn_total)
  fix out assume "cm_IterBuffered m out"
  then show "wf_map (cm_Items out)" "map_of (cm_Items out) = cm_abs m"
    using cm_IterBuffered_items [OF assms] by (simp_all add: cm_Items_def map_of_map_assign)
next
  fix ks assume "cm_Keys m ks"
  then have ks: "mset ks = mset (concat (map (map fst) (shards m)))"
    unfolding cm_Keys_def by (rule fanIn_mset)
  then show d: "distinct ks" using distinct_all_keys [OF assms] by (metis mset_eq_imp_distinct_iff)
  have "set ks = set (concat (map (map fst) (shards m)))" using ks by (rule mset_eq_setD)
  then show s: "set ks = dom (cm_abs m)" by (simp add: dom_cm_abs [OF assms])
  show "int (length ks) = cm_Count m"
    using distinct_card [OF d] by (simp add: s cm_Count_card [OF assms])
qed

theorem ConcurrentMap_iteration_witness:
  "\<exists>m m'. cm_New 4 = Ret m \<and> cm_run [CSet 5 7, CSet 6 8] m = Ret ([RUnit, RUnit], m') \<and> cm_inv m' \<and>
     (\<forall>out. cm_IterBuffered m' out \<longrightarrow> map_of (cm_Items out) = [5 \<mapsto> 7, 6 \<mapsto> 8])"
proof -
  obtain m where m: "cm_New 4 = Ret m" "cm_inv m" "cm_abs m = Map.empty"
    by (rule cm_New_inv [of 4]) simp_all
  from cm.run_refines [OF m(2), of "[CSet 5 7, CSet 6 8]"] m(3) obtain m'
    where m': "cm_run [CSet 5 7, CSet 6 8] m = Ret ([RUnit, RUnit], m')" "cm_inv m'" "cm_abs m' = [5 \<mapsto> 7, 6 \<mapsto> 8]"
    by auto
  then show ?thesis using m(1) ConcurrentMap_iteration [OF m'(2)] by metis
qed

end
