(* ===== verification/GoStrings.thy ===== *)
theory GoStrings
  imports Props
begin

text \<open>
  The functions of \<^verbatim>\<open>strings\<close> and \<^verbatim>\<open>strconv\<close> that the sources use. Splitting is at one ASCII
  character; \<^verbatim>\<open>TrimSpace\<close> removes ASCII white space, which is what the inputs of the program hold.
\<close>

fun strings_Split :: "char \<Rightarrow> string \<Rightarrow> string list" where
  "strings_Split c [] = [[]]"
| "strings_Split c (x # xs) = (if x = c then [] # strings_Split c xs
     else case strings_Split c xs of y # ys \<Rightarrow> (x # y) # ys | [] \<Rightarrow> [[x]])"

fun strings_Join :: "string \<Rightarrow> string list \<Rightarrow> string" where
  "strings_Join sep [] = []"
| "strings_Join sep [s] = s"
| "strings_Join sep (s # t # ss) = s @ sep @ strings_Join sep (t # ss)"

definition is_space :: "char \<Rightarrow> bool" where
  "is_space c \<longleftrightarrow> of_char c \<in> {9, 10, 11, 12, 13, 32 :: nat}"

definition TrimSpace :: "string \<Rightarrow> string" where
  "TrimSpace s = rev (dropWhile is_space (rev (dropWhile is_space s)))"

definition HasPrefix :: "string \<Rightarrow> string \<Rightarrow> bool" where
  "HasPrefix s p \<longleftrightarrow> take (length p) s = p"

definition HasSuffix :: "string \<Rightarrow> string \<Rightarrow> bool" where
  "HasSuffix s p \<longleftrightarrow> length p \<le> length s \<and> drop (length s - length p) s = p"

definition lower_char :: "char \<Rightarrow> char" where
  "lower_char c = (if 65 \<le> (of_char c :: nat) \<and> (of_char c :: nat) \<le> 90 then char_of (of_char c + 32 :: nat) else c)"

definition upper_char :: "char \<Rightarrow> char" where
  "upper_char c = (if 97 \<le> (of_char c :: nat) \<and> (of_char c :: nat) \<le> 122 then char_of (of_char c - 32 :: nat) else c)"

definition ToLower :: "string \<Rightarrow> string" where
  "ToLower s = map lower_char s"

definition ToUpper :: "string \<Rightarrow> string" where
  "ToUpper s = map upper_char s"

text \<open>\<^verbatim>\<open>strconv.ParseInt(s, 10, 64)\<close>: the value is 0 on a syntax error and the nearest \<^verbatim>\<open>int64\<close> on
  overflow, and both come with an error.\<close>

definition parse_sign :: "string \<Rightarrow> bool \<times> string" where
  "parse_sign s = (case s of [] \<Rightarrow> (False, s)
     | c # r \<Rightarrow> if c = CHR ''-'' then (True, r) else if c = CHR ''+'' then (False, r) else (False, s))"

definition ParseInt :: "string \<Rightarrow> int \<times> goerror option" where
  "ParseInt s =
     (let (neg, ds) = parse_sign s; n = int (decimal_val ds); v = (if neg then - n else n)
      in if ds = [] \<or> \<not> list_all digit_char ds then
           (0, Some (''strconv.ParseInt: parsing '' @ CHR 0x22 # s @ CHR 0x22 # '': invalid syntax''))
         else if in64 v then (v, None)
         else (if neg then min64 else max64,
               Some (''strconv.ParseInt: parsing '' @ CHR 0x22 # s @ CHR 0x22 # '': value out of range'')))"

lemma strings_Split_nonempty [simp]: "strings_Split c s \<noteq> []"
  by (induction s) (auto split: list.splits)

lemma length_strings_Split: "length (strings_Split c s) = Suc (length (filter (\<lambda>x. x = c) s))"
proof (induction s)
  case (Cons x xs)
  then show ?case by (cases "strings_Split c xs") auto
qed simp

text \<open>Splitting undoes joining, as long as no part holds the separator.\<close>

lemma strings_Join_Split: "strings_Join [c] (strings_Split c s) = s"
proof (induction s)
  case (Cons x xs)
  show ?case
  proof (cases "strings_Split c xs")
    case (Cons y ys)
    then show ?thesis using \<open>strings_Join [c] (strings_Split c xs) = xs\<close> by (cases ys) auto
  qed simp
qed simp

lemma strings_Split_no_sep: "c \<notin> set s \<Longrightarrow> strings_Split c s = [s]"
  by (induction s) auto

lemma strings_Split_append: "c \<notin> set s \<Longrightarrow> strings_Split c (s @ c # t) = s # strings_Split c t"
  by (induction s) auto

lemma itoa_first_digit: "\<not> x < 0 \<Longrightarrow> parse_sign (itoa x) = (False, itoa x)"
proof -
  assume "\<not> x < 0"
  then have d: "\<forall>c \<in> set (itoa x). digit_char c" using decimal_digits by (auto simp: itoa_def)
  then show ?thesis
    by (cases "itoa x") (auto simp: parse_sign_def digit_char_def)
qed

lemma ParseInt_itoa: "in64 x \<Longrightarrow> ParseInt (itoa x) = (x, None)"
proof -
  assume "in64 x"
  moreover have "list_all digit_char (decimal n)" for n
    using decimal_digits by (auto simp: list_all_iff)
  ultimately show ?thesis
    using itoa_first_digit [of x]
    by (cases "x < 0") (simp_all add: ParseInt_def parse_sign_def [of "CHR ''-'' # _"] itoa_def)
qed

end
