(* ===== verification/Generators.thy ===== *)
theory Generators
  imports Hash GoStrings
begin

text \<open>
  The number generators of \<^verbatim>\<open>pkg/generator\<close>: constant, uniform, counter, sequential, hotspot,
  discrete, exponential, histogram, zipfian, scrambled zipfian and skewed latest. A generator is a
  record with the fields of its Go struct; the embedded \<^verbatim>\<open>Number\<close> is the record it extends.
  \<^verbatim>\<open>Next\<close> takes the random stream and gives the value, the new state and the rest of the stream.
  The functions \<^verbatim>\<open>math.Pow\<close> and \<^verbatim>\<open>math.Log\<close> come in through the record \<open>mathlib\<close>.

  A constructor that draws from a generator seeded with the clock takes that stream as an
  argument. The basis of \<^verbatim>\<open>SkewedLatest\<close> is a pointer to the insertion counter of the workload, so
  its \<^verbatim>\<open>Next\<close> takes the value that \<^verbatim>\<open>basis.Last()\<close> has when it is called.
\<close>

section \<open>Number, Constant, Uniform, Counter, Sequential\<close>

record Number =
  LastValue :: int

definition SetLastValue :: "int \<Rightarrow> 'a Number_scheme \<Rightarrow> 'a Number_scheme" where
  "SetLastValue value n = n\<lparr>LastValue := value\<rparr>"

definition Number_Last :: "'a Number_scheme \<Rightarrow> int" where
  "Number_Last n = LastValue n"

record Constant =
  constant_value :: int

definition NewConstant :: "int \<Rightarrow> Constant" where
  "NewConstant v = \<lparr>constant_value = v\<rparr>"

definition Constant_Next :: "Constant \<Rightarrow> rand \<Rightarrow> int \<times> Constant \<times> rand" where
  "Constant_Next c r = (constant_value c, c, r)"

definition Constant_Last :: "Constant \<Rightarrow> int" where
  "Constant_Last c = constant_value c"

record Uniform = Number +
  uniform_lb :: int
  uniform_ub :: int
  uniform_interval :: int

definition NewUniform :: "int \<Rightarrow> int \<Rightarrow> Uniform" where
  "NewUniform lb ub = \<lparr>LastValue = 0, uniform_lb = lb, uniform_ub = ub,
     uniform_interval = wrap64 (wrap64 (ub - lb) + 1)\<rparr>"

definition Uniform_Next :: "Uniform \<Rightarrow> rand \<Rightarrow> (int \<times> Uniform \<times> rand) outcome" where
  "Uniform_Next u r = obind (Int63n (uniform_interval u) r) (\<lambda>(k, r).
     let n = wrap64 (k + uniform_lb u) in Ret (n, SetLastValue n u, r))"

record Counter =
  counter :: int

definition NewCounter :: "int \<Rightarrow> Counter" where
  "NewCounter start = \<lparr>counter = start\<rparr>"

definition Counter_Next :: "Counter \<Rightarrow> int \<times> Counter" where
  "Counter_Next c = (let n = wrap64 (counter c + 1) in (wrap64 (n - 1), c\<lparr>counter := n\<rparr>))"

definition Counter_Last :: "Counter \<Rightarrow> int" where
  "Counter_Last c = wrap64 (counter c - 1)"

record Sequential =
  seq_counter :: int
  seq_interval :: int
  seq_start :: int

definition NewSequential :: "int \<Rightarrow> int \<Rightarrow> Sequential" where
  "NewSequential countStart countEnd = \<lparr>seq_counter = 0,
     seq_interval = wrap64 (wrap64 (countEnd - countStart) + 1), seq_start = countStart\<rparr>"

definition Sequential_Next :: "Sequential \<Rightarrow> (int \<times> Sequential) outcome" where
  "Sequential_Next s =
     (let c = wrap64 (seq_counter s + 1)
      in obind (i64_rem c (seq_interval s)) (\<lambda>k. Ret (wrap64 (seq_start s + k), s\<lparr>seq_counter := c\<rparr>)))"

definition Sequential_Last :: "Sequential \<Rightarrow> int" where
  "Sequential_Last s = wrap64 (seq_counter s + 1)"


section \<open>Hotspot, Discrete, Exponential\<close>

record Hotspot = Number +
  lowerBound :: int
  upperBound :: int
  hotInterval :: int
  coldInterval :: int
  hotsetFraction :: float64
  hotOpnFraction :: float64

definition NewHotspot :: "int \<Rightarrow> int \<Rightarrow> float64 \<Rightarrow> float64 \<Rightarrow> Hotspot" where
  "NewHotspot lower upper hotset hotOpn =
     (let hotset = (if f64_lt hotset (f64_lit 0) \<or> f64_lt (f64_lit 1) hotset then f64_lit 0 else hotset);
          hotOpn = (if f64_lt hotOpn (f64_lit 0) \<or> f64_lt (f64_lit 1) hotOpn then f64_lit 0 else hotOpn);
          (lower, upper) = (if lower > upper then (upper, lower) else (lower, upper));
          interval = wrap64 (wrap64 (upper - lower) + 1);
          hot = f64_to_int (f64_of_int interval * hotset)
      in \<lparr>LastValue = 0, lowerBound = lower, upperBound = upper, hotInterval = hot,
          coldInterval = wrap64 (interval - hot), hotsetFraction = hotset, hotOpnFraction = hotOpn\<rparr>)"

definition Hotspot_Next :: "Hotspot \<Rightarrow> rand \<Rightarrow> (int \<times> Hotspot \<times> rand) outcome" where
  "Hotspot_Next h r =
     (let (f, r) = rand_Float64 r
      in obind (if f64_lt f (hotOpnFraction h)
          then obind (Int63n (hotInterval h) r) (\<lambda>(k, r). Ret (wrap64 (lowerBound h + k), r))
          else obind (Int63n (coldInterval h) r) (\<lambda>(k, r).
                 Ret (wrap64 (wrap64 (lowerBound h + hotInterval h) + k), r)))
        (\<lambda>(value, r). Ret (value, SetLastValue value h, r)))"

record discretePair =
  Weight :: float64
  PairValue :: int

record Discrete = Number +
  discrete_values :: "discretePair list"

definition NewDiscrete :: Discrete where
  "NewDiscrete = \<lparr>LastValue = 0, discrete_values = []\<rparr>"

definition Discrete_Add :: "float64 \<Rightarrow> int \<Rightarrow> Discrete \<Rightarrow> Discrete" where
  "Discrete_Add weight value d =
     d\<lparr>discrete_values := discrete_values d @ [\<lparr>Weight = weight, PairValue = value\<rparr>]\<rparr>"

fun discrete_sum :: "float64 \<Rightarrow> discretePair list \<Rightarrow> float64" where
  "discrete_sum sm [] = sm"
| "discrete_sum sm (p # ps) = discrete_sum (sm + Weight p) ps"

fun discrete_pick :: "float64 \<Rightarrow> float64 \<Rightarrow> discretePair list \<Rightarrow> int option" where
  "discrete_pick sm val [] = None"
| "discrete_pick sm val (p # ps) =
     (let pw = Weight p / sm in if f64_lt val pw then Some (PairValue p) else discrete_pick sm (val - pw) ps)"

definition Discrete_Next :: "Discrete \<Rightarrow> rand \<Rightarrow> (int \<times> Discrete \<times> rand) outcome" where
  "Discrete_Next d r =
     (let sm = discrete_sum (f64_of_int 0) (discrete_values d); (val, r) = rand_Float64 r
      in case discrete_pick sm val (discrete_values d) of
           Some v \<Rightarrow> Ret (v, SetLastValue v d, r)
         | None \<Rightarrow> Panic ''oops, should not get here.'')"

record Exponential = Number +
  expo_gamma :: float64

definition NewExponentialWithMean :: "float64 \<Rightarrow> Exponential" where
  "NewExponentialWithMean mean = \<lparr>LastValue = 0, expo_gamma = f64_lit 1 / mean\<rparr>"

definition NewExponential :: "mathlib \<Rightarrow> float64 \<Rightarrow> float64 \<Rightarrow> Exponential" where
  "NewExponential M percentile rng =
     \<lparr>LastValue = 0, expo_gamma = - math_Log M (f64_lit 1 - percentile / f64_lit 100) / rng\<rparr>"

definition Exponential_Next :: "mathlib \<Rightarrow> Exponential \<Rightarrow> rand \<Rightarrow> int \<times> Exponential \<times> rand" where
  "Exponential_Next M e r =
     (let (f, r) = rand_Float64 r; v = f64_to_int (- math_Log M f / expo_gamma e)
      in (v, SetLastValue v e, r))"


section \<open>Histogram\<close>

record Histogram = Number +
  blockSize :: int
  buckets :: "int list"
  area :: int
  weightedArea :: int

fun histogram_area :: "nat \<Rightarrow> int \<Rightarrow> int \<Rightarrow> int list \<Rightarrow> int \<times> int" where
  "histogram_area i a w [] = (a, w)"
| "histogram_area i a w (b # bs) = histogram_area (Suc i) (wrap64 (a + b)) (wrap64 (w + wrap64 (int i * b))) bs"

definition NewHistogram :: "int list \<Rightarrow> int \<Rightarrow> Histogram" where
  "NewHistogram bs bsize =
     (let (a, w) = histogram_area 0 0 0 bs
      in \<lparr>LastValue = 0, blockSize = bsize, buckets = bs, area = a, weightedArea = w\<rparr>)"

text \<open>The loop over all buckets but the last; \<open>Inl\<close> is the early return.\<close>

fun histogram_loop :: "int \<Rightarrow> int list \<Rightarrow> int \<Rightarrow> int \<Rightarrow> int + int" where
  "histogram_loop bsize [] i n = Inr i"
| "histogram_loop bsize [b] i n = Inr i"
| "histogram_loop bsize (b # c # bs) i n =
     (let n = wrap64 (n - b) in if n \<le> 0 then Inl (wrap64 ((i + 1) * bsize)) else histogram_loop bsize (c # bs) (i + 1) n)"

definition Histogram_Next :: "Histogram \<Rightarrow> rand \<Rightarrow> (int \<times> Histogram \<times> rand) outcome" where
  "Histogram_Next h r = obind (Int63n (area h) r) (\<lambda>(n, r).
     case histogram_loop (blockSize h) (buckets h) 0 n of
       Inl v \<Rightarrow> Ret (v, h, r)
     | Inr i \<Rightarrow> let v = wrap64 (i * blockSize h) in Ret (v, SetLastValue v h, r))"

record bucketInfo =
  location :: int
  bucket_value :: int

fun histogram_lines :: "string list \<Rightarrow> int \<Rightarrow> bucketInfo list \<Rightarrow> (int \<times> bucketInfo list) outcome" where
  "histogram_lines [] maxLocation ay = Ret (maxLocation, ay)"
| "histogram_lines (s # ss) maxLocation ay =
     (let s = TrimSpace s
      in if length s = 0 then Ret (maxLocation, ay)
         else let line = strings_Split (CHR 0x09) s; loc = fst (ParseInt (line ! 0));
                  maxLocation = (if maxLocation < loc then loc else maxLocation)
              in if length line < 2 then Panic ''index out of range''
                 else histogram_lines ss maxLocation
                   (ay @ [\<lparr>location = loc, bucket_value = fst (ParseInt (line ! 1))\<rparr>]))"

fun histogram_fill :: "bucketInfo list \<Rightarrow> int list \<Rightarrow> int list outcome" where
  "histogram_fill [] bs = Ret bs"
| "histogram_fill (b # ay) bs =
     (if location b < 0 \<or> int (length bs) \<le> location b then Panic ''index out of range''
      else histogram_fill ay (bs[nat (location b) := bucket_value b]))"

text \<open>The file is what \<^verbatim>\<open>ioutil.ReadFile\<close> returned for \<open>name\<close>.\<close>

definition NewHistogramFromFile :: "string \<Rightarrow> goerror + bytes \<Rightarrow> Histogram outcome" where
  "NewHistogramFromFile name file = (case file of
       Inl err \<Rightarrow> Exit (''load histogram file '' @ name @ '' failed '' @ err)
     | Inr data \<Rightarrow>
         let lines = strings_Split (CHR 0x0A) (TrimSpace (of_bytes data));
             line = strings_Split (CHR 0x09) (TrimSpace (lines ! 0))
         in if line ! 0 \<noteq> ''BlockSize'' then
              Exit (''First line of histogram is not the BlockSize but ['' @ strings_Join '' '' line @ '']'')
            else if length line < 2 then Panic ''index out of range''
            else case ParseInt (line ! 1) of
                (bsize, Some err) \<Rightarrow> Exit (''parse BlockSize failed '' @ err)
              | (bsize, None) \<Rightarrow>
                  obind (histogram_lines (drop 1 lines) 0 []) (\<lambda>(maxLocation, ay).
                    if maxLocation = max64 then Panic ''makeslice: len out of range''
                    else obind (histogram_fill ay (replicate (nat (maxLocation + 1)) 0))
                      (\<lambda>bs. Ret (NewHistogram bs bsize))))"

section \<open>Zipfian\<close>

text \<open>The spin lock of the struct guards the recomputation below; a call runs it to its end before
  the next one enters, so the record leaves the lock out.\<close>

record Zipfian = Number +
  items :: int
  base :: int
  zipfianConstant :: float64
  alpha :: float64
  zetan :: float64
  theta :: float64
  eta :: float64
  zeta2Theta :: float64
  countForZeta :: int
  allowItemCountDecrease :: bool

abbreviation ZipfianConstant :: float64 where "ZipfianConstant \<equiv> f64_lit (99 / 100)"

function zetaStatic :: "mathlib \<Rightarrow> int \<Rightarrow> int \<Rightarrow> float64 \<Rightarrow> float64 \<Rightarrow> float64" where
  "zetaStatic M i n th s = (if i < n
     then zetaStatic M (i + 1) n th (s + f64_lit 1 / math_Pow M (f64_of_int (i + 1)) th) else s)"
  by pat_completeness auto
termination by (relation "measure (\<lambda>(M, i, n, th, s). nat (n - i))") auto

declare zetaStatic.simps [simp del]

definition zeta :: "mathlib \<Rightarrow> int \<Rightarrow> int \<Rightarrow> float64 \<Rightarrow> float64 \<Rightarrow> Zipfian \<Rightarrow> float64 \<times> Zipfian" where
  "zeta M st n thetaVal initialSum z = (zetaStatic M st n thetaVal initialSum, z\<lparr>countForZeta := n\<rparr>)"

definition zipfian_eta :: "mathlib \<Rightarrow> int \<Rightarrow> float64 \<Rightarrow> float64 \<Rightarrow> float64 \<Rightarrow> float64" where
  "zipfian_eta M n th zeta2 zn =
     (f64_lit 1 - math_Pow M (f64_lit 2 / f64_of_int n) (f64_lit 1 - th)) / (f64_lit 1 - zeta2 / zn)"

text \<open>The part of \<^verbatim>\<open>next\<close> under the lock, and the draw after it.\<close>

definition zipfian_resize :: "mathlib \<Rightarrow> int \<Rightarrow> Zipfian \<Rightarrow> Zipfian" where
  "zipfian_resize M itemCount z =
     (if itemCount \<noteq> countForZeta z then
        (if itemCount > countForZeta z then
           let (zn, z) = zeta M (countForZeta z) itemCount (theta z) (zetan z) z; z = z\<lparr>zetan := zn\<rparr>
           in z\<lparr>eta := zipfian_eta M (items z) (theta z) (zeta2Theta z) (zetan z)\<rparr>
         else if itemCount < countForZeta z \<and> allowItemCountDecrease z then
           let (zn, z) = zeta M 0 itemCount (theta z) (f64_lit 0) z; z = z\<lparr>zetan := zn\<rparr>
           in z\<lparr>eta := zipfian_eta M (items z) (theta z) (zeta2Theta z) (zetan z)\<rparr>
         else z)
      else z)"

definition zipfian_next :: "mathlib \<Rightarrow> Zipfian \<Rightarrow> rand \<Rightarrow> int \<Rightarrow> int \<times> Zipfian \<times> rand" where
  "zipfian_next M z r itemCount =
     (let z = zipfian_resize M itemCount z; (u, r) = rand_Float64 r; uz = u * zetan z
      in if f64_lt uz (f64_lit 1) then (base z, z, r)
         else if f64_lt uz (f64_lit 1 + math_Pow M (f64_lit (5 / 10)) (theta z)) then (wrap64 (base z + 1), z, r)
         else let ret = wrap64 (base z +
                f64_to_int (f64_of_int itemCount * math_Pow M (eta z * u - eta z + f64_lit 1) (alpha z)))
              in (ret, SetLastValue ret z, r))"

definition Zipfian_Next :: "mathlib \<Rightarrow> Zipfian \<Rightarrow> rand \<Rightarrow> int \<times> Zipfian \<times> rand" where
  "Zipfian_Next M z r = zipfian_next M z r (items z)"

definition NewZipfian :: "mathlib \<Rightarrow> int \<Rightarrow> int \<Rightarrow> float64 \<Rightarrow> float64 \<Rightarrow> rand \<Rightarrow> Zipfian" where
  "NewZipfian M mn mx constant zn clock =
     (let n = wrap64 (wrap64 (mx - mn) + 1); th = constant; zeta2 = zetaStatic M 0 2 th (f64_lit 0);
          z = \<lparr>LastValue = 0, items = n, base = mn, zipfianConstant = constant,
            alpha = f64_lit 1 / (f64_lit 1 - th), zetan = zn, theta = th,
            eta = zipfian_eta M n th zeta2 zn, zeta2Theta = zeta2, countForZeta = n,
            allowItemCountDecrease = False\<rparr>
      in fst (snd (Zipfian_Next M z clock)))"

definition NewZipfianWithRange :: "mathlib \<Rightarrow> int \<Rightarrow> int \<Rightarrow> float64 \<Rightarrow> rand \<Rightarrow> Zipfian" where
  "NewZipfianWithRange M mn mx constant clock =
     NewZipfian M mn mx constant (zetaStatic M 0 (wrap64 (wrap64 (mx - mn) + 1)) constant (f64_lit 0)) clock"

definition NewZipfianWithItems :: "mathlib \<Rightarrow> int \<Rightarrow> float64 \<Rightarrow> rand \<Rightarrow> Zipfian" where
  "NewZipfianWithItems M n constant clock = NewZipfianWithRange M 0 (wrap64 (n - 1)) constant clock"

record ScrambledZipfian = Number +
  scrambled_gen :: Zipfian
  scrambled_min :: int
  scrambled_max :: int
  scrambled_itemCount :: int

definition NewScrambledZipfian :: "mathlib \<Rightarrow> int \<Rightarrow> int \<Rightarrow> float64 \<Rightarrow> rand \<Rightarrow> ScrambledZipfian" where
  "NewScrambledZipfian M mn mx constant clock =
     \<lparr>LastValue = 0,
      scrambled_gen = (if f64_eq constant (f64_lit (99 / 100))
        then NewZipfian M 0 10000000000 constant (f64_lit (2646902820178302 / 100000000000000)) clock
        else NewZipfianWithRange M 0 10000000000 constant clock),
      scrambled_min = mn, scrambled_max = mx, scrambled_itemCount = wrap64 (wrap64 (mx - mn) + 1)\<rparr>"

definition ScrambledZipfian_Next ::
  "mathlib \<Rightarrow> ScrambledZipfian \<Rightarrow> rand \<Rightarrow> (int \<times> ScrambledZipfian \<times> rand) outcome" where
  "ScrambledZipfian_Next M s r =
     (let (n, g, r) = Zipfian_Next M (scrambled_gen s) r; s = s\<lparr>scrambled_gen := g\<rparr>
      in obind (i64_rem (Hash64 n) (scrambled_itemCount s)) (\<lambda>k.
           let n = wrap64 (scrambled_min s + k) in Ret (n, SetLastValue n s, r)))"

record SkewedLatest = Number +
  latest_zipfian :: Zipfian

definition SkewedLatest_Next :: "mathlib \<Rightarrow> int \<Rightarrow> SkewedLatest \<Rightarrow> rand \<Rightarrow> int \<times> SkewedLatest \<times> rand" where
  "SkewedLatest_Next M basis_Last s r =
     (let mx = basis_Last; (k, z, r) = zipfian_next M (latest_zipfian s) r mx; next = wrap64 (mx - k)
      in (next, SetLastValue next (s\<lparr>latest_zipfian := z\<rparr>), r))"

definition NewSkewedLatest :: "mathlib \<Rightarrow> int \<Rightarrow> rand \<Rightarrow> rand \<Rightarrow> SkewedLatest" where
  "NewSkewedLatest M basis_Last clock clock' =
     (let z = NewZipfianWithItems M basis_Last ZipfianConstant clock;
          s = \<lparr>LastValue = 0, latest_zipfian = z\<rparr>
      in fst (snd (SkewedLatest_Next M basis_Last s clock')))"

section \<open>The Generator interface\<close>

text \<open>The implementations of \<^verbatim>\<open>ycsb.Generator\<close> that the workload stores in a field of that type.\<close>

datatype generator =
    GConstant Constant
  | GUniform Uniform
  | GSequential Sequential
  | GHotspot Hotspot
  | GExponential Exponential
  | GHistogram Histogram
  | GZipfian Zipfian
  | GScrambled ScrambledZipfian
  | GLatest SkewedLatest

primrec gen_Next :: "mathlib \<Rightarrow> int \<Rightarrow> generator \<Rightarrow> rand \<Rightarrow> (int \<times> generator \<times> rand) outcome" where
  "gen_Next M basis_Last (GConstant g) r = (case Constant_Next g r of (v, g, r) \<Rightarrow> Ret (v, GConstant g, r))"
| "gen_Next M basis_Last (GUniform g) r = obind (Uniform_Next g r) (\<lambda>(v, g, r). Ret (v, GUniform g, r))"
| "gen_Next M basis_Last (GSequential g) r = obind (Sequential_Next g) (\<lambda>(v, g). Ret (v, GSequential g, r))"
| "gen_Next M basis_Last (GHotspot g) r = obind (Hotspot_Next g r) (\<lambda>(v, g, r). Ret (v, GHotspot g, r))"
| "gen_Next M basis_Last (GExponential g) r = (case Exponential_Next M g r of (v, g, r) \<Rightarrow> Ret (v, GExponential g, r))"
| "gen_Next M basis_Last (GHistogram g) r = obind (Histogram_Next g r) (\<lambda>(v, g, r). Ret (v, GHistogram g, r))"
| "gen_Next M basis_Last (GZipfian g) r = (case Zipfian_Next M g r of (v, g, r) \<Rightarrow> Ret (v, GZipfian g, r))"
| "gen_Next M basis_Last (GScrambled g) r =
     obind (ScrambledZipfian_Next M g r) (\<lambda>(v, g, r). Ret (v, GScrambled g, r))"
| "gen_Next M basis_Last (GLatest g) r =
     (case SkewedLatest_Next M basis_Last g r of (v, g, r) \<Rightarrow> Ret (v, GLatest g, r))"

primrec gen_Last :: "generator \<Rightarrow> int" where
  "gen_Last (GConstant g) = Constant_Last g"
| "gen_Last (GUniform g) = Number_Last g"
| "gen_Last (GSequential g) = Sequential_Last g"
| "gen_Last (GHotspot g) = Number_Last g"
| "gen_Last (GExponential g) = Number_Last g"
| "gen_Last (GHistogram g) = Number_Last g"
| "gen_Last (GZipfian g) = Number_Last g"
| "gen_Last (GScrambled g) = Number_Last g"
| "gen_Last (GLatest g) = Number_Last g"

text \<open>\<open>n\<close> calls of \<^verbatim>\<open>Next\<close> in a row.\<close>

fun draws :: "('g \<Rightarrow> rand \<Rightarrow> (int \<times> 'g \<times> rand) outcome) \<Rightarrow> nat \<Rightarrow> 'g \<Rightarrow> rand \<Rightarrow> (int list \<times> 'g \<times> rand) outcome" where
  "draws nxt 0 g r = Ret ([], g, r)"
| "draws nxt (Suc n) g r = obind (nxt g r) (\<lambda>(v, g, r).
     obind (draws nxt n g r) (\<lambda>(vs, g, r). Ret (v # vs, g, r)))"


section \<open>Generators of a fixed range\<close>

text \<open>What a key chooser relies on: \<^verbatim>\<open>Next\<close> returns, its value lies between two bounds, and the
  bounds do not change.\<close>

locale bounded_generator =
  fixes gen_ok :: "'g \<Rightarrow> bool"
    and lo hi :: "'g \<Rightarrow> int"
    and nxt :: "'g \<Rightarrow> rand \<Rightarrow> (int \<times> 'g \<times> rand) outcome"
  assumes next_ok: "gen_ok g \<Longrightarrow> \<exists>v g' r'. nxt g r = Ret (v, g', r') \<and> lo g \<le> v \<and> v \<le> hi g \<and>
    gen_ok g' \<and> lo g' = lo g \<and> hi g' = hi g"
begin

lemma next_obtain:
  assumes "gen_ok g"
  obtains v g' r' where "nxt g r = Ret (v, g', r')" "lo g \<le> v" "v \<le> hi g" "gen_ok g'" "lo g' = lo g" "hi g' = hi g"
  using next_ok [OF assms] by blast

lemma draws_range:
  "gen_ok g \<Longrightarrow> \<exists>vs g' r'. draws nxt n g r = Ret (vs, g', r') \<and> length vs = n \<and>
     (\<forall>v \<in> set vs. lo g \<le> v \<and> v \<le> hi g) \<and> gen_ok g' \<and> lo g' = lo g \<and> hi g' = hi g"
proof (induction n arbitrary: g r)
  case (Suc n)
  obtain v g1 r1 where "nxt g r = Ret (v, g1, r1)" "lo g \<le> v" "v \<le> hi g" "gen_ok g1" "lo g1 = lo g" "hi g1 = hi g"
    by (rule next_obtain [OF Suc.prems])
  with Suc.IH [of g1 r1] show ?case by auto
qed simp

lemma range_nonempty: "gen_ok g \<Longrightarrow> lo g \<le> hi g"
  using next_ok [of g] by fastforce

end

definition uniform_ok :: "Uniform \<Rightarrow> bool" where
  "uniform_ok u \<longleftrightarrow> in64 (uniform_lb u) \<and> in64 (uniform_ub u) \<and> uniform_lb u \<le> uniform_ub u \<and>
     uniform_interval u = uniform_ub u - uniform_lb u + 1 \<and> uniform_interval u \<le> max64"

lemma NewUniform_ok:
  assumes "in64 lb" "in64 ub" "lb \<le> ub" "ub - lb + 1 \<le> max64"
  shows "uniform_ok (NewUniform lb ub)"
  using assms by (simp add: uniform_ok_def NewUniform_def wrap64_id in64_def)

interpretation uni: bounded_generator uniform_ok uniform_lb uniform_ub Uniform_Next
proof
  fix g and r :: rand assume g: "uniform_ok g"
  define k where "k = int (r 0) mod uniform_interval g"
  have pos: "0 < uniform_interval g" using g by (simp add: uniform_ok_def)
  then have k: "0 \<le> k" "k < uniform_interval g" by (simp_all add: k_def)
  then have "wrap64 (k + uniform_lb g) = k + uniform_lb g"
    using g by (intro wrap64_id) (auto simp: uniform_ok_def in64_def)
  then have "Uniform_Next g r = Ret (k + uniform_lb g, SetLastValue (k + uniform_lb g) g, rand_rest r)"
    by (simp add: Uniform_Next_def Int63n_Ret [OF pos] k_def [symmetric] Let_def)
  then show "\<exists>v g' r'. Uniform_Next g r = Ret (v, g', r') \<and> uniform_lb g \<le> v \<and> v \<le> uniform_ub g \<and>
      uniform_ok g' \<and> uniform_lb g' = uniform_lb g \<and> uniform_ub g' = uniform_ub g"
    using g k by (auto simp: uniform_ok_def SetLastValue_def)
qed

definition hotspot_ok :: "Hotspot \<Rightarrow> bool" where
  "hotspot_ok h \<longleftrightarrow> in64 (lowerBound h) \<and> in64 (upperBound h) \<and> 0 < hotInterval h \<and> 0 < coldInterval h \<and>
     hotInterval h + coldInterval h = upperBound h - lowerBound h + 1"

interpretation hot: bounded_generator hotspot_ok lowerBound upperBound Hotspot_Next
proof
  fix g and r :: rand assume g: "hotspot_ok g"
  have w: "wrap64 (lowerBound g + k) = lowerBound g + k"
    if "0 \<le> k" "k < hotInterval g + coldInterval g" for k
    using g that by (intro wrap64_id) (auto simp: hotspot_ok_def in64_def)
  define a b where "a = int (r (Suc 0)) mod hotInterval g" and "b = int (r (Suc 0)) mod coldInterval g"
  have pos: "0 < hotInterval g" "0 < coldInterval g" using g by (simp_all add: hotspot_ok_def)
  then have ab: "0 \<le> a" "a < hotInterval g" "0 \<le> b" "b < coldInterval g" by (simp_all add: a_def b_def)
  obtain f where f: "rand_Float64 r = (f, rand_rest r)" by (metis snd_rand_Float64 surj_pair snd_conv)
  have v: "wrap64 (lowerBound g + a) = lowerBound g + a"
    "wrap64 (wrap64 (lowerBound g + hotInterval g) + b) = lowerBound g + hotInterval g + b"
    using w [of a] w [of "hotInterval g"] w [of "hotInterval g + b"] ab pos by (simp_all add: add.assoc)
  show "\<exists>v g' r'. Hotspot_Next g r = Ret (v, g', r') \<and> lowerBound g \<le> v \<and> v \<le> upperBound g \<and>
      hotspot_ok g' \<and> lowerBound g' = lowerBound g \<and> upperBound g' = upperBound g"
    using g ab pos v
    by (cases "f64_lt f (hotOpnFraction g)")
      (auto simp: Hotspot_Next_def f Int63n_Ret hotspot_ok_def SetLastValue_def a_def [symmetric] b_def [symmetric])
qed

text \<open>The constructor of a hotspot: with a proper fraction and an interval of at most \<open>2 ^ 53\<close> keys the
  hot set lies inside the interval.\<close>

definition in_unit :: "float64 \<Rightarrow> bool" where
  "in_unit f \<longleftrightarrow> \<not> f64_lt f (f64_lit 0) \<and> \<not> f64_lt (f64_lit 1) f"

lemma f64_lit_0 [simp]: "f64_lit 0 = Num False 0"
  by (simp add: f64_lit_def mk_num_def round_mag_def)

lemma f64_lit_1 [simp]: "f64_lit 1 = Num False 1"
  using f64_of_int_exact [of 1] by (simp add: f64_lit_def f64_of_int_def)

lemma in_unit_Num: "wf_f64 f \<Longrightarrow> in_unit f \<Longrightarrow> f \<noteq> NaN \<Longrightarrow> \<exists>q. 0 \<le> q \<and> q \<le> 1 \<and> (f = Num False q \<or> f = Num True 0 \<and> q = 0)"
proof (cases f)
  case (Num s m)
  moreover assume "wf_f64 f" "in_unit f"
  ultimately show ?thesis by (cases s) (auto simp: in_unit_def signed_def)
qed (simp_all add: in_unit_def)

lemma NewHotspot_fields:
  assumes "wf_f64 hotset" "hotset \<noteq> NaN" "in64 lo" "in64 hi" "lo \<le> hi" "hi - lo < 9007199254740992"
    and "h = NewHotspot lo hi hotset hotOpn"
  shows "lowerBound h = lo" "upperBound h = hi" "0 \<le> hotInterval h" "0 \<le> coldInterval h"
    "hotInterval h + coldInterval h = hi - lo + 1"
proof -
  define n where "n = hi - lo + 1"
  have n: "0 \<le> n" "n \<le> 9007199254740992" using assms by (simp_all add: n_def)
  have iv: "wrap64 (wrap64 (hi - lo) + 1) = n" using n by (simp add: n_def wrap64_id in64_def)
  define f where "f = (if f64_lt hotset (f64_lit 0) \<or> f64_lt (f64_lit 1) hotset then f64_lit 0 else hotset)"
  have "in_unit f" "wf_f64 f" "f \<noteq> NaN"
    using assms(1,2) by (auto simp: f_def in_unit_def signed_def round_mag_def)
  then obtain q where q: "0 \<le> q" "q \<le> 1" "f = Num False q \<or> f = Num True 0 \<and> q = 0"
    using in_unit_Num by blast
  have hot: "0 \<le> f64_to_int (f64_of_int n * f)" "f64_to_int (f64_of_int n * f) \<le> n"
  proof -
    have "f64_to_int (f64_of_int n * Num True 0) = 0"
      using n by (simp add: f64_of_int_exact f64_ops mk_num_def round_mag_def in64_def)
    then show "0 \<le> f64_to_int (f64_of_int n * f)" "f64_to_int (f64_of_int n * f) \<le> n"
      using q n f64_fraction_of_int [of n q] by auto
  qed
  have "wrap64 (n - f64_to_int (f64_of_int n * f)) = n - f64_to_int (f64_of_int n * f)"
    using hot n by (intro wrap64_id) (auto simp: in64_def)
  then show "lowerBound h = lo" "upperBound h = hi" "0 \<le> hotInterval h" "0 \<le> coldInterval h"
    "hotInterval h + coldInterval h = hi - lo + 1"
    using hot assms(5) by (simp_all add: assms(7) NewHotspot_def Let_def iv f_def [symmetric] n_def [symmetric] del: f64_lit_0 f64_lit_1)
qed

section \<open>Sequential, Discrete, Histogram\<close>

text \<open>The \<open>k\<close>th call of a fresh sequential generator gives \<open>start + k mod interval\<close>.\<close>

fun sequential_run :: "nat \<Rightarrow> Sequential \<Rightarrow> (int list \<times> Sequential) outcome" where
  "sequential_run 0 s = Ret ([], s)"
| "sequential_run (Suc n) s = obind (Sequential_Next s) (\<lambda>(v, s).
     obind (sequential_run n s) (\<lambda>(vs, s). Ret (v # vs, s)))"

definition sequential_ok :: "Sequential \<Rightarrow> bool" where
  "sequential_ok s \<longleftrightarrow> in64 (seq_start s) \<and> 0 < seq_interval s \<and>
     seq_start s + seq_interval s - 1 \<le> max64 \<and> 0 \<le> seq_counter s"

lemma Sequential_Next_eq:
  assumes "sequential_ok s" "seq_counter s < max64"
  shows "Sequential_Next s = Ret (seq_start s + (seq_counter s + 1) mod seq_interval s,
    s\<lparr>seq_counter := seq_counter s + 1\<rparr>)"
proof -
  have s: "0 < seq_interval s" "0 \<le> seq_counter s" using assms by (simp_all add: sequential_ok_def)
  define k where "k = (seq_counter s + 1) mod seq_interval s"
  have "0 \<le> k" "k < seq_interval s" using s by (simp_all add: k_def)
  then have "wrap64 (seq_start s + k) = seq_start s + k"
    using assms by (intro wrap64_id) (auto simp: sequential_ok_def in64_def)
  moreover have "wrap64 (seq_counter s + 1) = seq_counter s + 1"
    using assms s by (intro wrap64_id) (simp add: in64_def)
  ultimately show ?thesis using s by (simp add: Sequential_Next_def i64_rem_nonneg k_def Let_def)
qed

lemma sequential_run_eq:
  "sequential_ok s \<Longrightarrow> seq_counter s + int n \<le> max64 \<Longrightarrow>
     sequential_run n s = Ret (map (\<lambda>k. seq_start s + (seq_counter s + int k + 1) mod seq_interval s) [0..<n],
       s\<lparr>seq_counter := seq_counter s + int n\<rparr>)"
proof (induction n arbitrary: s)
  case (Suc n)
  let ?s = "s\<lparr>seq_counter := seq_counter s + 1\<rparr>"
  have "sequential_ok ?s" using Suc.prems by (simp add: sequential_ok_def)
  then have "sequential_run n ?s = Ret (map (\<lambda>k. seq_start s + (seq_counter s + 1 + int k + 1) mod seq_interval s) [0..<n],
      s\<lparr>seq_counter := seq_counter s + 1 + int n\<rparr>)"
    using Suc.IH [of ?s] Suc.prems by simp
  moreover have "map (\<lambda>k. seq_start s + (seq_counter s + int k + 1) mod seq_interval s) [0..<Suc n] =
      (seq_start s + (seq_counter s + 1) mod seq_interval s) #
      map (\<lambda>k. seq_start s + (seq_counter s + 1 + int k + 1) mod seq_interval s) [0..<n]"
    by (subst upt_conv_Cons) (simp_all add: map_Suc_upt [symmetric] o_def algebra_simps del: upt_Suc)
  ultimately show ?case using Sequential_Next_eq [OF Suc.prems(1)] Suc.prems(2)
    by (simp add: algebra_simps del: upt_Suc)
qed simp

lemma mod_window:
  assumes "0 < (n::int)"
  shows "distinct (map (\<lambda>k. (c + int k + 1) mod n) [0..<nat n])"
    and "set (map (\<lambda>k. (c + int k + 1) mod n) [0..<nat n]) = {0..<n}"
proof -
  have inj: "inj_on (\<lambda>k. (c + int k + 1) mod n) {0..<nat n}"
  proof (rule inj_onI)
    fix i j assume ij: "i \<in> {0..<nat n}" "j \<in> {0..<nat n}" "(c + int i + 1) mod n = (c + int j + 1) mod n"
    then have "n dvd (c + int i + 1) - (c + int j + 1)" by (simp add: mod_eq_dvd_iff)
    then have "n dvd int i - int j" by simp
    moreover have "\<bar>int i - int j\<bar> < n" using ij by auto
    ultimately show "i = j" using zdvd_imp_le [of n "\<bar>int i - int j\<bar>"] by (cases "i = j") auto
  qed
  then show "distinct (map (\<lambda>k. (c + int k + 1) mod n) [0..<nat n])" by (simp add: distinct_map)
  have "(\<lambda>k. (c + int k + 1) mod n) ` {0..<nat n} = {0..<n}"
    using assms card_image [OF inj] by (intro card_subset_eq) auto
  then show "set (map (\<lambda>k. (c + int k + 1) mod n) [0..<nat n]) = {0..<n}" by simp
qed

lemma discrete_pick_member:
  "discrete_pick sm val ps = Some v \<Longrightarrow> v \<in> PairValue ` set ps"
  by (induction ps arbitrary: val) (auto simp: Let_def split: if_splits)

text \<open>Adding a zero, dividing zero, and dividing a number by itself are exact.\<close>

lemma mk_num_wf: "wf_f64 (Num s m) \<Longrightarrow> mk_num s m = Num s m"
  by (auto simp: mk_num_def Let_def)

lemma f64_add_zero:
  "wf_f64 (Num False m) \<Longrightarrow> Num False 0 + Num False m = Num False m"
  "wf_f64 (Num False m) \<Longrightarrow> Num False m + Num False 0 = Num False m"
  by (auto simp: f64_ops signed_def Let_def mk_num_wf)

lemma f64_zero_div: "0 < w \<Longrightarrow> Num False 0 / Num False w = Num False 0"
  by (simp add: f64_ops mk_num_def round_mag_def)

lemma f64_div_self: "0 < w \<Longrightarrow> Num False w / Num False w = Num False 1"
  using f64_lit_1 by (simp add: f64_ops f64_lit_def)

lemma f64_sub_zero: "wf_f64 (Num False m) \<Longrightarrow> Num False m - Num False 0 = Num False m"
  by (auto simp: f64_ops f64_sub_def signed_def Let_def mk_num_wf)

definition only_weight :: "rat \<Rightarrow> int \<Rightarrow> discretePair list \<Rightarrow> bool" where
  "only_weight w v ps \<longleftrightarrow> (\<exists>xs ys. ps = xs @ \<lparr>Weight = Num False w, PairValue = v\<rparr> # ys \<and>
     (\<forall>p \<in> set xs \<union> set ys. Weight p = Num False 0))"

lemma discrete_sum_zeros:
  "\<forall>p \<in> set ps. Weight p = Num False 0 \<Longrightarrow> wf_f64 (Num False m) \<Longrightarrow> discrete_sum (Num False m) ps = Num False m"
  by (induction ps) (simp_all add: f64_add_zero)

lemma discrete_sum_append: "discrete_sum s (ps @ qs) = discrete_sum (discrete_sum s ps) qs"
  by (induction ps arbitrary: s) simp_all

lemma discrete_pick_zeros:
  assumes "\<forall>p \<in> set xs. Weight p = Num False 0" "0 < w" "wf_f64 (Num False q)" "q < 1"
  shows "discrete_pick (Num False w) (Num False q) (xs @ \<lparr>Weight = Num False w, PairValue = v\<rparr> # ys) = Some v"
  using assms(1)
proof (induction xs)
  case Nil
  then show ?case using assms f64_div_self by (simp add: signed_def Let_def)
next
  case (Cons p xs)
  then show ?case using assms f64_zero_div f64_sub_zero by (simp add: signed_def Let_def)
qed

lemma Discrete_Next_only:
  assumes "only_weight w v (discrete_values d)" "0 < w" "wf_f64 (Num False w)"
  shows "Discrete_Next d r = Ret (v, SetLastValue v d, rand_rest r)"
proof -
  obtain xs ys where d: "discrete_values d = xs @ \<lparr>Weight = Num False w, PairValue = v\<rparr> # ys"
    "\<forall>p \<in> set xs. Weight p = Num False 0" "\<forall>p \<in> set ys. Weight p = Num False 0"
    using assms(1) by (auto simp: only_weight_def)
  have z: "f64_of_int 0 = Num False 0" by (simp add: f64_of_int_exact)
  have "wf_f64 (Num False 0)" by (simp add: round_mag_def)
  then have "discrete_sum (f64_of_int 0) (discrete_values d) = Num False w"
    using d assms(3) by (simp add: z discrete_sum_append discrete_sum_zeros f64_add_zero)
  moreover obtain q where "rand_Float64 r = (Num False q, rand_rest r)" "q < 1" "wf_f64 (Num False q)"
    by (rule wf_rand_Float64)
  ultimately show ?thesis using d assms(2) by (simp add: Discrete_Next_def discrete_pick_zeros)
qed

text \<open>The bucket a draw \<open>n\<close> falls into: the first whose running total reaches \<open>n\<close>, where the last two
  buckets share a value.\<close>

lemma histogram_area_eq:
  assumes "\<forall>b \<in> set bs. 0 \<le> b" "0 \<le> a" "a + sum_list bs \<le> max64"
  shows "fst (histogram_area i a w bs) = a + sum_list bs"
  using assms
proof (induction bs arbitrary: i a w)
  case (Cons b bs)
  then have "wrap64 (a + b) = a + b"
    using sum_list_nonneg [of bs] by (intro wrap64_id) (auto simp: in64_def)
  then show ?case using Cons by (simp add: add.assoc)
qed simp

definition bucket_of :: "int list \<Rightarrow> int \<Rightarrow> nat \<Rightarrow> bool" where
  "bucket_of bs n k \<longleftrightarrow> 1 \<le> k \<and> k < length bs \<and> (\<forall>j. 1 \<le> j \<and> j < k \<longrightarrow> sum_list (take j bs) < n) \<and>
     (n \<le> sum_list (take k bs) \<or> k = length bs - 1)"

definition loop_value :: "int \<Rightarrow> int + int \<Rightarrow> int" where
  "loop_value bsz x = (case x of Inl v \<Rightarrow> v | Inr i \<Rightarrow> wrap64 (i * bsz))"

lemma bucket_of_Cons:
  "b < n \<Longrightarrow> bucket_of (c # bs) (n - b) k \<Longrightarrow> bucket_of (b # c # bs) n (Suc k)"
proof -
  assume b: "b < n" and k: "bucket_of (c # bs) (n - b) k"
  have "sum_list (take j (b # c # bs)) < n" if j: "1 \<le> j" "j < Suc k" for j
  proof (cases "j = 1")
    case False
    then obtain i where "j = Suc i" "1 \<le> i" "i < k" using j by (cases j) auto
    then show ?thesis using k by (auto simp: bucket_of_def)
  qed (use b in simp)
  then show ?thesis using k by (auto simp: bucket_of_def)
qed

lemma histogram_loop_bucket:
  assumes "2 \<le> length bs" "\<forall>b \<in> set bs. 0 \<le> b \<and> b \<le> max64" "0 \<le> n" "n \<le> max64"
  shows "\<exists>k. bucket_of bs n k \<and> loop_value bsz (histogram_loop bsz bs i n) = wrap64 ((i + int k) * bsz)"
  using assms
proof (induction bsz bs i n rule: histogram_loop.induct)
  case (3 bsz b c bs i n)
  have w: "wrap64 (n - b) = n - b" using 3(3-5) by (intro wrap64_id) (auto simp: in64_def)
  show ?case
  proof (cases "n - b \<le> 0 \<or> bs = []")
    case True
    then have "bucket_of (b # c # bs) n 1" by (auto simp: bucket_of_def)
    moreover have "loop_value bsz (histogram_loop bsz (b # c # bs) i n) = wrap64 ((i + int 1) * bsz)"
      using True by (auto simp: w loop_value_def Let_def)
    ultimately show ?thesis by blast
  next
    case False
    then obtain k where k: "bucket_of (c # bs) (n - b) k"
      "loop_value bsz (histogram_loop bsz (c # bs) (i + 1) (n - b)) = wrap64 ((i + 1 + int k) * bsz)"
      using 3(1) [OF refl] 3(3-5) w by (cases bs) auto
    then show ?thesis using False bucket_of_Cons [of b n c bs k]
      by (intro exI [of _ "Suc k"]) (simp add: w add.assoc)
  qed
qed auto

section \<open>Zipfian\<close>

text \<open>Adding the terms of a longer range to a sum gives, rounding included, the sum from scratch.\<close>

lemma zetaStatic_split:
  "a \<le> b \<Longrightarrow> b \<le> c \<Longrightarrow> zetaStatic M a c th s = zetaStatic M b c th (zetaStatic M a b th s)"
proof (induction M a b th s rule: zetaStatic.induct)
  case (1 M a b th s)
  show ?case
  proof (cases "a < b")
    case True
    then show ?thesis using 1 by (simp add: zetaStatic.simps [of M a])
  next
    case False
    then show ?thesis using 1(2) zetaStatic.simps [of M b b th s] by simp
  qed
qed

definition zeta_inv :: "mathlib \<Rightarrow> Zipfian \<Rightarrow> bool" where
  "zeta_inv M z \<longleftrightarrow> 0 \<le> countForZeta z \<and> zetan z = zetaStatic M 0 (countForZeta z) (theta z) (f64_lit 0)"

lemma zipfian_resize_count:
  "countForZeta (zipfian_resize M n z) =
     (if countForZeta z < n \<or> allowItemCountDecrease z then n else countForZeta z)"
  by (auto simp: zipfian_resize_def zeta_def Let_def)

lemma zipfian_resize_inv:
  assumes "zeta_inv M z" "0 \<le> n"
  shows "zeta_inv M (zipfian_resize M n z)"
  using assms zetaStatic_split [of 0 "countForZeta z" n M]
  by (auto simp: zeta_inv_def zipfian_resize_def zeta_def Let_def)

lemma zipfian_resize_same [simp]:
  "base (zipfian_resize M n z) = base z" "items (zipfian_resize M n z) = items z"
  "theta (zipfian_resize M n z) = theta z"
  by (auto simp: zipfian_resize_def zeta_def Let_def)

lemma SetLastValue_self [simp]: "SetLastValue (LastValue z) z = z"
  by (simp add: SetLastValue_def)

lemma latest_zipfian_SetLastValue [simp]: "latest_zipfian (SetLastValue v s) = latest_zipfian s"
  by (cases s) (simp add: SetLastValue_def)

lemma zipfian_next_state: "\<exists>v. fst (snd (zipfian_next M z r n)) = SetLastValue v (zipfian_resize M n z)"
proof -
  have "\<exists>v. z = SetLastValue v z" for z :: Zipfian using SetLastValue_self [of z] by metis
  then show ?thesis by (auto simp: zipfian_next_def Let_def split: prod.splits)
qed

lemma zeta_inv_SetLastValue [simp]: "zeta_inv M (SetLastValue v z) = zeta_inv M z"
  by (simp add: zeta_inv_def SetLastValue_def)

lemma zipfian_next_inv:
  assumes "zeta_inv M z" "0 \<le> n"
  shows "zeta_inv M (fst (snd (zipfian_next M z r n)))"
    and "countForZeta (fst (snd (zipfian_next M z r n))) =
      (if countForZeta z < n \<or> allowItemCountDecrease z then n else countForZeta z)"
    and "allowItemCountDecrease (fst (snd (zipfian_next M z r n))) = allowItemCountDecrease z"
proof -
  have "allowItemCountDecrease (zipfian_resize M n z) = allowItemCountDecrease z"
    by (auto simp: zipfian_resize_def zeta_def Let_def)
  moreover obtain v where "fst (snd (zipfian_next M z r n)) = SetLastValue v (zipfian_resize M n z)"
    using zipfian_next_state by blast
  ultimately show "zeta_inv M (fst (snd (zipfian_next M z r n)))"
    "countForZeta (fst (snd (zipfian_next M z r n))) =
      (if countForZeta z < n \<or> allowItemCountDecrease z then n else countForZeta z)"
    "allowItemCountDecrease (fst (snd (zipfian_next M z r n))) = allowItemCountDecrease z"
    using zipfian_resize_inv [OF assms] zipfian_resize_count [of M n z]
    by (simp_all add: SetLastValue_def zeta_inv_def)
qed

lemma zipfian_fold_inv:
  assumes "zeta_inv M z" "\<forall>n \<in> set ns. 0 \<le> n"
  shows "zeta_inv M (fold (\<lambda>n z. fst (snd (zipfian_next M z (rs n) n))) ns z) \<and>
    (\<not> allowItemCountDecrease z \<longrightarrow>
      countForZeta (fold (\<lambda>n z. fst (snd (zipfian_next M z (rs n) n))) ns z) = fold max ns (countForZeta z))"
  using assms
proof (induction ns arbitrary: z)
  case (Cons n ns)
  have n: "0 \<le> n" using Cons.prems by simp
  note step = zipfian_next_inv [OF Cons.prems(1) n, of "rs n"]
  have "max n (countForZeta z) = (if countForZeta z < n then n else countForZeta z)" by (simp add: max_def)
  then show ?case using Cons.IH [OF step(1)] Cons.prems(2) step(2,3) by simp
qed simp

lemma NewZipfianWithRange_inv:
  assumes "0 \<le> wrap64 (wrap64 (mx - mn) + 1)"
  shows "zeta_inv M (NewZipfianWithRange M mn mx constant clock)"
proof -
  have "\<exists>z. NewZipfianWithRange M mn mx constant clock = fst (snd (zipfian_next M z clock (items z))) \<and>
      zeta_inv M z \<and> 0 \<le> items z"
    unfolding NewZipfianWithRange_def NewZipfian_def Zipfian_Next_def Let_def
    by (rule exI, rule conjI, rule refl) (use assms in \<open>simp add: zeta_inv_def\<close>)
  then show ?thesis using zipfian_next_inv(1) by metis
qed

text \<open>The power that the draw scales by is taken of a number between 0 and 1 with a positive
  exponent; then \<^verbatim>\<open>math.Pow\<close> is between 0 and 1 too.\<close>

definition pow_unit :: "mathlib \<Rightarrow> Zipfian \<Rightarrow> bool" where
  "pow_unit M z \<longleftrightarrow> (\<forall>u. 0 \<le> u \<and> u < 1 \<longrightarrow>
     (\<exists>q. math_Pow M (eta z * Num False u - eta z + f64_lit 1) (alpha z) = Num False q \<and> 0 \<le> q \<and> q \<le> 1))"

lemma zipfian_next_range:
  assumes "0 \<le> n" "n \<le> 9007199254740992" "in64 (base z)" "base z + max n 1 \<le> max64"
    and "pow_unit M (zipfian_resize M n z)"
  shows "base z \<le> fst (zipfian_next M z r n)" "fst (zipfian_next M z r n) \<le> base z + max n 1"
proof -
  let ?z = "zipfian_resize M n z"
  obtain u where u: "rand_Float64 r = (Num False u, rand_rest r)" "0 \<le> u" "u < 1" by (rule wf_rand_Float64)
  then obtain q where q: "math_Pow M (eta ?z * Num False u - eta ?z + f64_lit 1) (alpha ?z) = Num False q" "0 \<le> q" "q \<le> 1"
    using assms(5) by (auto simp: pow_unit_def)
  define t where "t = f64_to_int (f64_of_int n * Num False q)"
  have t: "0 \<le> t" "t \<le> n" using f64_fraction_of_int [OF assms(1,2) q(2,3)] by (simp_all add: t_def)
  have "wrap64 (base z + t) = base z + t" "wrap64 (base z + 1) = base z + 1"
    using t assms by (auto intro!: wrap64_id simp: in64_def max_def split: if_splits)
  then have "fst (zipfian_next M z r n) \<in> {base z, base z + 1, base z + t}"
    unfolding zipfian_next_def Let_def u prod.case q(1) t_def [symmetric] by simp
  then show "base z \<le> fst (zipfian_next M z r n)" "fst (zipfian_next M z r n) \<le> base z + max n 1"
    using t by auto
qed

section \<open>Properties\<close>

text \<open>(C22) The uniform generator. Any number of draws returns, every value lies between the bounds,
  both included, and every value between them is drawn by some stream.\<close>

theorem Uniform_range:
  assumes "in64 lb" "in64 ub" "lb \<le> ub" "ub - lb + 1 \<le> max64"
  shows "(\<forall>n r. \<exists>vs g r'. draws Uniform_Next n (NewUniform lb ub) r = Ret (vs, g, r') \<and>
      length vs = n \<and> set vs \<subseteq> {lb..ub}) \<and>
    (\<forall>v \<in> {lb..ub}. \<exists>r g r'. Uniform_Next (NewUniform lb ub) r = Ret (v, g, r'))"
proof (intro conjI allI ballI)
  have ok: "uniform_ok (NewUniform lb ub)" using assms by (rule NewUniform_ok)
  show "\<exists>vs g r'. draws Uniform_Next n (NewUniform lb ub) r = Ret (vs, g, r') \<and> length vs = n \<and> set vs \<subseteq> {lb..ub}" for n r
    using uni.draws_range [OF ok, of n r] by (fastforce simp: NewUniform_def)
  fix v assume v: "v \<in> {lb..ub}"
  then obtain r where "Int63n (ub - lb + 1) r = Ret (v - lb, r)" using Int63n_onto [of "v - lb" "ub - lb + 1"] by auto
  moreover have "wrap64 (wrap64 (ub - lb) + 1) = ub - lb + 1" "wrap64 v = v"
    using assms v by (simp_all add: wrap64_id in64_def)
  ultimately show "\<exists>r g r'. Uniform_Next (NewUniform lb ub) r = Ret (v, g, r')"
    by (intro exI [of _ r]) (simp add: Uniform_Next_def NewUniform_def Let_def)
qed

theorem Uniform_range_witness:
  "\<exists>vs g r'. draws Uniform_Next 3 (NewUniform 10 19) (\<lambda>i. i * 7) = Ret (vs, g, r') \<and>
     length vs = 3 \<and> set vs \<subseteq> {10..19}"
  using Uniform_range [of 10 19] by (simp add: in64_def)

text \<open>(C23) The sequential generator visits every key of its range once in each round: any \<open>interval\<close>
  consecutive calls, wherever the round starts, give the keys from \<^verbatim>\<open>countStart\<close> to \<^verbatim>\<open>countEnd\<close> with no
  repetition. The first call of all gives \<open>countStart + 1\<close>, not \<open>countStart\<close>.\<close>

theorem Sequential_cycle:
  assumes "in64 lo" "in64 hi" "lo \<le> hi" "hi - lo + 1 \<le> max64" "0 \<le> c" "c + (hi - lo + 1) \<le> max64"
  shows "(\<exists>vs s. sequential_run (nat (hi - lo + 1)) ((NewSequential lo hi)\<lparr>seq_counter := c\<rparr>) = Ret (vs, s) \<and>
      distinct vs \<and> set vs = {lo..hi} \<and> seq_counter s = c + (hi - lo + 1)) \<and>
    (lo < hi \<longrightarrow> (\<exists>s. Sequential_Next (NewSequential lo hi) = Ret (lo + 1, s)))"
proof (intro conjI impI)
  let ?s = "(NewSequential lo hi)\<lparr>seq_counter := c\<rparr>" and ?n = "hi - lo + 1"
  have iv: "wrap64 (wrap64 (hi - lo) + 1) = ?n" using assms by (simp add: wrap64_id in64_def)
  then have "sequential_ok ?s" using assms by (auto simp: sequential_ok_def NewSequential_def in64_def)
  then have run: "sequential_run (nat ?n) ?s = Ret (map (\<lambda>k. lo + (c + int k + 1) mod ?n) [0..<nat ?n], ?s\<lparr>seq_counter := c + ?n\<rparr>)"
    using sequential_run_eq [of ?s "nat ?n"] assms iv by (simp add: NewSequential_def)
  have "map (\<lambda>k. lo + (c + int k + 1) mod ?n) [0..<nat ?n] = map ((+) lo) (map (\<lambda>k. (c + int k + 1) mod ?n) [0..<nat ?n])"
    by simp
  moreover have "(+) lo ` {0..<?n} = {lo..hi}" by (auto simp: image_iff intro: bexI [of _ "_ - lo"])
  ultimately show "\<exists>vs s. sequential_run (nat ?n) ?s = Ret (vs, s) \<and> distinct vs \<and> set vs = {lo..hi} \<and>
      seq_counter s = c + ?n"
    using run mod_window [of ?n c] assms(3) by (simp add: distinct_map del: map_map)
  show "\<exists>s. Sequential_Next (NewSequential lo hi) = Ret (lo + 1, s)" if "lo < hi"
    using Sequential_Next_eq [of "NewSequential lo hi"] iv assms that
    by (simp add: sequential_ok_def NewSequential_def in64_def mod_pos_pos_trivial)
qed

theorem Sequential_cycle_witness:
  "\<exists>vs s. sequential_run 4 ((NewSequential 5 8)\<lparr>seq_counter := 2\<rparr>) = Ret (vs, s) \<and> distinct vs \<and> set vs = {5..8}"
proof -
  have "nat (8 - 5 + 1 :: int) = 4" by simp
  then show ?thesis using Sequential_cycle [of 5 8 2] by (auto simp: in64_def)
qed

text \<open>(C24) The hotspot generator. The hot and the cold set split the interval, for every fraction a
  property file can give that is a number; a fraction out of range counts as 0. When neither set is
  empty every draw returns a key between the bounds; a draw from an empty set panics.\<close>

theorem Hotspot_range:
  assumes "wf_f64 hotset" "hotset \<noteq> NaN" "in64 lo" "in64 hi" "lo \<le> hi" "hi - lo < 9007199254740992"
    and "h = NewHotspot lo hi hotset hotOpn"
  shows "0 \<le> hotInterval h \<and> 0 \<le> coldInterval h \<and> hotInterval h + coldInterval h = hi - lo + 1 \<and>
    (0 < hotInterval h \<and> 0 < coldInterval h \<longrightarrow> (\<forall>n r. \<exists>vs g r'. draws Hotspot_Next n h r = Ret (vs, g, r') \<and>
       length vs = n \<and> set vs \<subseteq> {lo..hi})) \<and>
    (hotInterval h = 0 \<and> f64_lt (fst (rand_Float64 r)) (hotOpnFraction h) \<longrightarrow>
       Hotspot_Next h r = Panic ''invalid argument to Int63n'')"
proof (intro conjI impI allI)
  note f = NewHotspot_fields [OF assms]
  show "0 \<le> hotInterval h" "0 \<le> coldInterval h" "hotInterval h + coldInterval h = hi - lo + 1" by (rule f)+
  assume "0 < hotInterval h \<and> 0 < coldInterval h"
  then have "hotspot_ok h" using f assms(3,4) by (simp add: hotspot_ok_def)
  then show "\<exists>vs g r'. draws Hotspot_Next n h r = Ret (vs, g, r') \<and> length vs = n \<and> set vs \<subseteq> {lo..hi}" for n r
    using hot.draws_range [of h n r] f(1,2) by fastforce
next
  assume "hotInterval h = 0 \<and> f64_lt (fst (rand_Float64 r)) (hotOpnFraction h)"
  then show "Hotspot_Next h r = Panic ''invalid argument to Int63n''"
    by (cases "rand_Float64 r") (simp add: Hotspot_Next_def Int63n_def)
qed

theorem Hotspot_range_witness:
  "hotInterval (NewHotspot 100 103 (Num False (1 / 2)) (f64_lit (8 / 10))) = 2 \<and>
   (\<exists>vs g r'. draws Hotspot_Next 5 (NewHotspot 100 103 (Num False (1 / 2)) (f64_lit (8 / 10))) (\<lambda>i. i) = Ret (vs, g, r') \<and>
      length vs = 5 \<and> set vs \<subseteq> {100..103})"
proof -
  let ?h = "NewHotspot 100 103 (Num False (1 / 2)) (f64_lit (8 / 10))"
  have "mk_num False 2 = Num False 2" using f64_of_int_exact [of 2] by (simp add: f64_of_int_def)
  then have e: "hotInterval ?h = 2" "coldInterval ?h = 2"
    by (simp_all add: NewHotspot_def Let_def signed_def wrap64_def f64_of_int_exact f64_ops in64_def)
  have w: "wf_f64 (Num False (1 / 2))" by code_simp
  show ?thesis using Hotspot_range [OF w, of 100 103 ?h] e by (auto simp: in64_def)
qed

text \<open>(C25) The discrete generator chooses only among the values added to it, or panics; when one
  weight is positive and every other is zero, as in a workload of a single operation, it always
  returns that value.\<close>

theorem Discrete_choice:
  "(Discrete_Next d r = Ret (v, d', r') \<longrightarrow> v \<in> PairValue ` set (discrete_values d) \<and>
      Number_Last d' = v \<and> discrete_values d' = discrete_values d) \<and>
   (only_weight w x (discrete_values d) \<and> 0 < w \<and> wf_f64 (Num False w) \<longrightarrow>
      Discrete_Next d r = Ret (x, SetLastValue x d, rand_rest r))"
  using Discrete_Next_only [of w x d r]
  by (auto simp: Discrete_Next_def Let_def SetLastValue_def Number_Last_def discrete_pick_member
      split: prod.splits option.splits)

theorem Discrete_choice_witness:
  "only_weight (1 / 2) 2 (discrete_values (Discrete_Add (Num False (1 / 2)) 2 (Discrete_Add (Num False 0) 1 NewDiscrete))) \<and>
   wf_f64 (Num False (1 / 2)) \<and>
   (\<exists>d' r'. Discrete_Next (Discrete_Add (Num False (1 / 2)) 2 (Discrete_Add (Num False 0) 1 NewDiscrete)) (\<lambda>i. 12345) = Ret (2, d', r'))"
proof -
  let ?d = "Discrete_Add (Num False (1 / 2)) 2 (Discrete_Add (Num False 0) 1 NewDiscrete)"
  have "only_weight (1 / 2) 2 (discrete_values ?d)"
    unfolding only_weight_def by (intro exI [of _ "[\<lparr>Weight = Num False 0, PairValue = 1\<rparr>]"] exI [of _ "[]"])
      (simp add: Discrete_Add_def NewDiscrete_def)
  moreover have "wf_f64 (Num False (1 / 2))" by code_simp
  ultimately show ?thesis using Discrete_choice [of ?d "\<lambda>i. 12345" _ _ _ "1 / 2" 2] by auto
qed

text \<open>(C26) The histogram generator returns, for a draw \<open>n\<close> below the area, the block of the first
  bucket whose running total reaches \<open>n\<close>; the value is between one and \<open>length - 1\<close> blocks.\<close>

theorem Histogram_bucket:
  assumes "2 \<le> length bs" "\<forall>b \<in> set bs. 0 \<le> b" "0 < sum_list bs" "sum_list bs \<le> max64"
    and "0 \<le> bsz" "int (length bs) * bsz \<le> max64"
  shows "\<exists>k h' r'. bucket_of bs (int (r 0) mod sum_list bs) k \<and>
    Histogram_Next (NewHistogram bs bsz) r = Ret (int k * bsz, h', r')"
proof -
  define n where "n = int (r 0) mod sum_list bs"
  have "0 \<le> n" "n < sum_list bs" using assms(3) by (simp_all add: n_def)
  then have n: "0 \<le> n" "n \<le> max64" using assms(4) by linarith+
  have b: "\<forall>b \<in> set bs. 0 \<le> b \<and> b \<le> max64"
    using assms(2,4) member_le_sum_list [of _ bs] by fastforce
  obtain k where k: "bucket_of bs n k" "loop_value bsz (histogram_loop bsz bs 0 n) = wrap64 (int k * bsz)"
    using histogram_loop_bucket [OF assms(1) b n, of bsz 0] by auto
  have "int k * bsz \<le> int (length bs) * bsz"
    using k(1) assms(5) by (intro mult_right_mono) (auto simp: bucket_of_def)
  then have "wrap64 (int k * bsz) = int k * bsz"
    using assms(5,6) mult_nonneg_nonneg [of "int k" bsz] by (intro wrap64_id) (unfold in64_def, linarith)
  moreover have "area (NewHistogram bs bsz) = sum_list bs" "buckets (NewHistogram bs bsz) = bs" "blockSize (NewHistogram bs bsz) = bsz"
    using histogram_area_eq [of bs 0 0 0] assms(2,4) by (simp_all add: NewHistogram_def case_prod_unfold)
  ultimately have "\<exists>h' r'. Histogram_Next (NewHistogram bs bsz) r = Ret (int k * bsz, h', r')"
    using k(2) assms(3)
    by (auto simp: Histogram_Next_def Int63n_Ret n_def [symmetric] loop_value_def Let_def split: sum.splits)
  then show ?thesis using k(1) by (auto simp: n_def)
qed

theorem Histogram_bucket_witness:
  "\<exists>k h' r'. bucket_of [3, 0, 4, 1] 6 k \<and> Histogram_Next (NewHistogram [3, 0, 4, 1] 10) (\<lambda>_. 14) = Ret (int k * 10, h', r')"
  using Histogram_bucket [of "[3, 0, 4, 1]" 10 "\<lambda>_. 14"] by simp

text \<open>(C27) When items are added, \<^verbatim>\<open>next\<close> extends the zeta sum instead of recomputing it. The extended
  sum is the sum from scratch, bit for bit in floating point, and stays so over every sequence of
  item counts; without the flag that allows a decrease the count never shrinks.\<close>

theorem Zipfian_incremental_zeta:
  assumes "z = NewZipfianWithRange M mn mx zc clock" "0 \<le> wrap64 (wrap64 (mx - mn) + 1)"
    and "\<forall>n \<in> set ns. 0 \<le> n"
  shows "let z' = fold (\<lambda>n z. fst (snd (zipfian_next M z (rs n) n))) ns z
    in zetan z' = zetaStatic M 0 (countForZeta z') (theta z') (f64_lit 0) \<and>
       (\<not> allowItemCountDecrease z \<longrightarrow> countForZeta z' = fold max ns (countForZeta z))"
  using zipfian_fold_inv [OF NewZipfianWithRange_inv [OF assms(2)] assms(3)]
  by (simp add: assms(1) zeta_inv_def Let_def)

theorem Zipfian_incremental_zeta_witness:
  "let M = \<lparr>math_Pow = (\<lambda>x y. x), math_Log = (\<lambda>x. x)\<rparr>;
       z = NewZipfianWithRange M 0 3 ZipfianConstant (\<lambda>i. i);
       z' = fold (\<lambda>n z. fst (snd (zipfian_next M z (\<lambda>i. i) n))) [6, 5, 9] z
   in zetan z' = zetaStatic M 0 (countForZeta z') (theta z') (f64_lit 0)"
proof -
  have "0 \<le> wrap64 (wrap64 (3 - 0) + 1)" by (simp add: wrap64_def)
  then show ?thesis
    using Zipfian_incremental_zeta [OF refl, where mx = 3 and mn = 0 and ns = "[6, 5, 9]"
        and M = "\<lparr>math_Pow = (\<lambda>x y. x), math_Log = (\<lambda>x. x)\<rparr>" and zc = ZipfianConstant
        and clock = "\<lambda>i. i" and rs = "\<lambda>_ i. i"]
    by (simp add: Let_def)
qed



text \<open>(C29) The scrambled zipfian generator maps a zipfian draw through the hash. The result is
  between the bounds for every hash other than the least integer, the one value whose sign the
  negation in \<^verbatim>\<open>Hash64\<close> would not change.\<close>

theorem ScrambledZipfian_range:
  assumes "in64 mn" "in64 mx" "mn \<le> mx" "mx - mn + 1 \<le> max64"
    and "s = NewScrambledZipfian M mn mx constant clock"
    and "n = fst (Zipfian_Next M (scrambled_gen s) r)"
  shows "\<exists>v s' r'. ScrambledZipfian_Next M s r = Ret (v, s', r') \<and> Number_Last s' = v \<and> in64 v \<and>
    (Hash64 n \<noteq> min64 \<longrightarrow> v = mn + Hash64 n mod (mx - mn + 1) \<and> mn \<le> v \<and> v \<le> mx)"
proof -
  obtain g r' where n: "Zipfian_Next M (scrambled_gen s) r = (n, g, r')" by (metis assms(6) surj_pair fst_conv)
  have iv: "scrambled_itemCount s = mx - mn + 1" "scrambled_min s = mn"
    using assms by (simp_all add: NewScrambledZipfian_def wrap64_id in64_def)
  define k where "k = Hash64 n smod (mx - mn + 1)"
  have "Hash64 n \<noteq> min64 \<Longrightarrow> k = Hash64 n mod (mx - mn + 1)"
    using Hash64_nonneg [of n] assms(3) by (simp add: k_def smod_nonneg)
  moreover have "0 \<le> Hash64 n mod (mx - mn + 1)" "Hash64 n mod (mx - mn + 1) < mx - mn + 1"
    using assms(3) pos_mod_sign [of "mx - mn + 1" "Hash64 n"] pos_mod_bound [of "mx - mn + 1" "Hash64 n"]
    by linarith+
  moreover have "in64 (mn + Hash64 n mod (mx - mn + 1))"
    using calculation(2,3) assms(1,2) unfolding in64_def by linarith
  ultimately have "Hash64 n \<noteq> min64 \<Longrightarrow> wrap64 (mn + k) = mn + Hash64 n mod (mx - mn + 1)"
    by (simp add: wrap64_id)
  moreover have "ScrambledZipfian_Next M s r = Ret (wrap64 (mn + k), SetLastValue (wrap64 (mn + k)) (s\<lparr>scrambled_gen := g\<rparr>), r')"
    using assms(3) by (simp add: ScrambledZipfian_Next_def n iv i64_rem_def k_def Let_def)
  ultimately show ?thesis
    using pos_mod_bound [of "mx - mn + 1" "Hash64 n"] assms(3) by (simp add: Number_Last_def SetLastValue_def)
qed

theorem ScrambledZipfian_range_witness:
  "let M = \<lparr>math_Pow = (\<lambda>x y. Num False (1 / 2)), math_Log = (\<lambda>x. x)\<rparr>;
       s = NewScrambledZipfian M 100 199 ZipfianConstant (\<lambda>i. i)
   in \<exists>v s' r'. ScrambledZipfian_Next M s (\<lambda>i. i) = Ret (v, s', r') \<and> Number_Last s' = v \<and> in64 v"
  using ScrambledZipfian_range [OF _ _ _ _ refl refl, of 100 199 "\<lparr>math_Pow = (\<lambda>x y. Num False (1 / 2)), math_Log = (\<lambda>x. x)\<rparr>"
      ZipfianConstant "\<lambda>i. i" "\<lambda>i. i"]
  by (auto simp: in64_def Let_def)

end
