(* ===== verification/AckCounter.thy ===== *)
theory AckCounter
  imports Generators
begin

text \<open>
  The spin lock (\<^verbatim>\<open>pkg/util/spinlock.go\<close>) and the acknowledged counter
  (\<^verbatim>\<open>pkg/generator/acknowledged_counter.go\<close>) run by one goroutine. The window is the array of
  \<^verbatim>\<open>WindowSize\<close> booleans, as a function on its slots. The theorems relate \<^verbatim>\<open>Acknowledge\<close> to an
  abstract counter, which is the set of acknowledged numbers: \<^verbatim>\<open>Last\<close> is the end of its longest
  prefix. Theory \<open>AckCounter_Conc\<close> interleaves goroutines.
\<close>

section \<open>The spin lock\<close>

record SpinLock =
  lock_f :: nat

definition TryLock :: "SpinLock \<Rightarrow> bool \<times> SpinLock" where
  "TryLock sl = (if lock_f sl = 0 then (True, sl\<lparr>lock_f := 1\<rparr>) else (False, sl))"

definition Unlock :: "SpinLock \<Rightarrow> SpinLock" where
  "Unlock sl = sl\<lparr>lock_f := 0\<rparr>"

text \<open>With no other goroutine to release it, a held lock is waited for forever.\<close>

definition Lock :: "SpinLock \<Rightarrow> SpinLock outcome" where
  "Lock sl = (let (ok, sl) = TryLock sl in if ok then Ret sl else Diverge)"

definition SpinLock_String :: "SpinLock \<Rightarrow> string" where
  "SpinLock_String sl = (if lock_f sl = 1 then ''Locked'' else ''Unlocked'')"


section \<open>The counter\<close>

abbreviation WindowSize :: int where "WindowSize \<equiv> 1048576"

abbreviation WindowMask :: int where "WindowMask \<equiv> 1048575"

record AcknowledgedCounter =
  ack_c :: Counter
  ack_lock :: SpinLock
  window :: "int \<Rightarrow> bool"
  limit :: int

definition NewAcknowledgedCounter :: "int \<Rightarrow> AcknowledgedCounter" where
  "NewAcknowledgedCounter start = \<lparr>ack_c = \<lparr>counter = start\<rparr>, ack_lock = \<lparr>lock_f = 0\<rparr>,
     window = (\<lambda>_. False), limit = wrap64 (start - 1)\<rparr>"

definition Ack_Next :: "AcknowledgedCounter \<Rightarrow> int \<times> AcknowledgedCounter" where
  "Ack_Next a = (let (v, c) = Counter_Next (ack_c a) in (v, a\<lparr>ack_c := c\<rparr>))"

definition Ack_Last :: "AcknowledgedCounter \<Rightarrow> int" where
  "Ack_Last a = limit a"

text \<open>\<^verbatim>\<open>x & WindowMask\<close> on a two's complement number.\<close>

definition slot_of :: "int \<Rightarrow> int" where
  "slot_of x = and x WindowMask"

lemma slot_of_mod: "slot_of x = x mod WindowSize"
  using take_bit_eq_mask [of 20 x] by (simp add: slot_of_def mask_eq_exp_minus_1 take_bit_eq_mod)

lemma slot_of_range: "0 \<le> slot_of x" "slot_of x < WindowSize"
  by (simp_all add: slot_of_mod)

definition set_slots :: "(int \<Rightarrow> bool) \<Rightarrow> int set" where
  "set_slots w = {s. 0 \<le> s \<and> s < WindowSize \<and> w s}"

lemma slots_finite_card:
  assumes "0 \<le> (n :: int)"
  shows "finite {s. 0 \<le> s \<and> s < n \<and> w s}" "card {s. 0 \<le> s \<and> s < n \<and> w s} \<le> nat n"
proof -
  have sub: "{s. 0 \<le> s \<and> s < n \<and> w s} \<subseteq> {0..<n}" by auto
  then show "finite {s. 0 \<le> s \<and> s < n \<and> w s}" using finite_subset by blast
  show "card {s. 0 \<le> s \<and> s < n \<and> w s} \<le> nat n" using card_mono [OF _ sub] by simp
qed

lemma set_slots_clear:
  assumes "w (slot_of i)"
  shows "card (set_slots (w(slot_of i := False))) < card (set_slots w)"
proof (rule psubset_card_mono)
  show "finite (set_slots w)" unfolding set_slots_def by (rule slots_finite_card) simp
  have "slot_of i \<in> set_slots w" using assms slot_of_range by (simp add: set_slots_def)
  moreover have "slot_of i \<notin> set_slots (w(slot_of i := False))" by (simp add: set_slots_def)
  moreover have "set_slots (w(slot_of i := False)) \<subseteq> set_slots w" by (simp add: set_slots_def subset_iff)
  ultimately show "set_slots (w(slot_of i := False)) \<subset> set_slots w" by blast
qed

text \<open>The loop moves a contiguous sequence from the window; it ends because it clears each slot it
  passes.\<close>

function ack_loop :: "int \<Rightarrow> (int \<Rightarrow> bool) \<Rightarrow> int \<Rightarrow> (int \<Rightarrow> bool) \<times> int" where
  "ack_loop beforeFirstSlot w index =
     (if index = beforeFirstSlot then (w, index)
      else if \<not> w (slot_of index) then (w, index)
      else ack_loop beforeFirstSlot (w(slot_of index := False)) (wrap64 (index + 1)))"
  by pat_completeness auto
termination
  by (relation "measure (\<lambda>(b, w, i). card (set_slots w))") (simp_all add: set_slots_clear)

declare ack_loop.simps [simp del]

definition Acknowledge :: "int \<Rightarrow> AcknowledgedCounter \<Rightarrow> AcknowledgedCounter outcome" where
  "Acknowledge value a =
     (let currentSlot = slot_of value
      in if window a currentSlot then Panic ''Too many unacknowledged insertion keys.''
         else let a = a\<lparr>window := (window a)(currentSlot := True)\<rparr>; (ok, sl) = TryLock (ack_lock a)
              in if \<not> ok then Ret a
                 else let a = a\<lparr>ack_lock := sl\<rparr>;
                          (w, index) = ack_loop (slot_of (limit a)) (window a) (wrap64 (limit a + 1))
                      in Ret (a\<lparr>window := w, limit := wrap64 (index - 1), ack_lock := Unlock sl\<rparr>))"


section \<open>What the loop computes\<close>

lemma slot_of_eq_iff: "slot_of i = slot_of j \<longleftrightarrow> WindowSize dvd i - j"
  by (simp add: slot_of_mod mod_eq_dvd_iff)

lemma slot_of_near:
  assumes "slot_of i = slot_of j" "i \<le> j" "j < i + WindowSize"
  shows "i = j"
proof -
  have "WindowSize dvd j - i" using assms(1) by (simp add: slot_of_eq_iff dvd_diff_commute)
  then show ?thesis using assms(2,3) zdvd_imp_le [of WindowSize "j - i"] by (cases "i = j") auto
qed

text \<open>The loop stops at \<open>j\<close>: every slot from \<open>i\<close> up to \<open>j\<close> was set and is now clear, no other
  slot changed, and the slot of \<open>j\<close> is clear unless the guard stopped the loop.\<close>

lemma ack_loop_spec:
  assumes "i + int (card (set_slots w)) \<le> max64" "min64 \<le> i"
  shows "\<exists>w' j. ack_loop b w i = (w', j) \<and> i \<le> j \<and> j \<le> i + int (card (set_slots w)) \<and>
    (\<forall>k. i \<le> k \<and> k < j \<longrightarrow> w (slot_of k)) \<and>
    w' = (\<lambda>s. w s \<and> s \<notin> slot_of ` {i..<j}) \<and> (j = b \<or> \<not> w' (slot_of j))"
  using assms
proof (induction b w i rule: ack_loop.induct)
  case (1 b w i)
  show ?case
  proof (cases "i = b \<or> \<not> w (slot_of i)")
    case True
    then show ?thesis by (subst ack_loop.simps) auto
  next
    case False
    let ?w = "w(slot_of i := False)"
    have c: "card (set_slots ?w) < card (set_slots w)" using False by (simp add: set_slots_clear)
    then have i: "wrap64 (i + 1) = i + 1" using 1(2,3) by (intro wrap64_id) (simp add: in64_def)
    obtain w' j where IH: "ack_loop b ?w (i + 1) = (w', j)" "i + 1 \<le> j"
      "j \<le> i + 1 + int (card (set_slots ?w))" "\<forall>k. i + 1 \<le> k \<and> k < j \<longrightarrow> ?w (slot_of k)"
      "w' = (\<lambda>s. ?w s \<and> s \<notin> slot_of ` {i + 1..<j})" "j = b \<or> \<not> w' (slot_of j)"
      using 1(1) False 1(2,3) c i by fastforce
    have "{i..<j} = insert i {i + 1..<j}" using IH(2) by auto
    then have "w' = (\<lambda>s. w s \<and> s \<notin> slot_of ` {i..<j})" using IH(5) by (auto simp: fun_eq_iff)
    moreover have "\<forall>k. i \<le> k \<and> k < j \<longrightarrow> w (slot_of k)"
      using IH(4) False by (metis fun_upd_apply order_le_less zless_imp_add1_zle)
    moreover have "ack_loop b w i = (w', j)" using False i IH(1) by (subst ack_loop.simps) simp
    ultimately show ?thesis using IH(2,3,6) c by (intro exI [of _ w'] exI [of _ j]) auto
  qed
qed

lemma card_set_slots: "card (set_slots w) \<le> nat WindowSize"
  unfolding set_slots_def by (rule slots_finite_card) simp

section \<open>The abstract counter\<close>

text \<open>\<open>ack_weak start A a\<close>: the state \<open>a\<close> of a counter started at \<open>start\<close> stands for the set \<open>A\<close> of
  numbers acknowledged so far. Everything up to \<open>limit\<close> is in \<open>A\<close>, the numbers of \<open>A\<close> above it are
  less than a window away, and the slots that are set are exactly theirs. In \<open>ack_abs\<close> the limit
  has moreover caught up with the window.\<close>

definition ack_weak :: "int \<Rightarrow> int set \<Rightarrow> AcknowledgedCounter \<Rightarrow> bool" where
  "ack_weak start A a \<longleftrightarrow> lock_f (ack_lock a) = 0 \<and> start - 1 \<le> limit a \<and> min64 < start \<and>
     {start..limit a} \<subseteq> A \<and> (\<forall>v \<in> A. start \<le> v \<and> v < limit a + WindowSize) \<and>
     (\<forall>s. window a s \<longleftrightarrow> (\<exists>v \<in> A. limit a < v \<and> slot_of v = s))"

definition ack_abs :: "int \<Rightarrow> int set \<Rightarrow> AcknowledgedCounter \<Rightarrow> bool" where
  "ack_abs start A a \<longleftrightarrow> ack_weak start A a \<and> limit a + 1 \<notin> A"

lemma ack_weakD:
  assumes "ack_weak start A a"
  shows "lock_f (ack_lock a) = 0" "start - 1 \<le> limit a" "min64 < start" "{start..limit a} \<subseteq> A"
    "\<And>v. v \<in> A \<Longrightarrow> start \<le> v" "\<And>v. v \<in> A \<Longrightarrow> v < limit a + WindowSize"
    "\<And>s. window a s \<longleftrightarrow> (\<exists>v \<in> A. limit a < v \<and> slot_of v = s)"
  using assms unfolding ack_weak_def by blast+

lemma NewAcknowledgedCounter_abs:
  "min64 < start \<Longrightarrow> in64 start \<Longrightarrow> ack_abs start {} (NewAcknowledgedCounter start)"
  by (simp add: ack_abs_def ack_weak_def NewAcknowledgedCounter_def wrap64_id in64_def)

text \<open>\<open>Last\<close> of the abstract counter: the end of the prefix of acknowledged numbers.\<close>

definition prefix_end :: "int \<Rightarrow> int set \<Rightarrow> int \<Rightarrow> bool" where
  "prefix_end start A l \<longleftrightarrow> start - 1 \<le> l \<and> {start..l} \<subseteq> A \<and> l + 1 \<notin> A"

lemma prefix_end_unique:
  assumes "prefix_end start A l" "prefix_end start A l'"
  shows "l = l'"
proof -
  have "\<not> l < l'" if "prefix_end start A l" "prefix_end start A l'" for l l'
    using that by (auto simp: prefix_end_def subset_iff dest!: spec [of _ "l + 1"])
  then show ?thesis using assms by (meson linorder_neqE)
qed

text \<open>Two numbers of one window that share a slot are the same number.\<close>

lemma window_inj:
  assumes "l < u" "u < l + WindowSize" "l < v" "v < l + WindowSize" "slot_of u = slot_of v"
  shows "u = v"
proof (cases "u \<le> v")
  case True
  then show ?thesis using slot_of_near [OF assms(5)] assms by simp
next
  case False
  then show ?thesis using slot_of_near [OF assms(5) [symmetric]] assms by simp
qed

lemma same_slot_as_limit: "l < j \<Longrightarrow> slot_of j = slot_of l \<Longrightarrow> l + WindowSize \<le> j"
  using slot_of_near [of l j] by fastforce

lemma slot_of_slot_of [simp]: "slot_of (slot_of x) = slot_of x"
  by (simp add: slot_of_mod)

lemma ack_free_slot:
  assumes "ack_weak start A a" "v \<notin> A" "start \<le> v" "v < limit a + WindowSize"
  shows "limit a < v" "\<not> window a (slot_of v)"
proof -
  note D = ack_weakD [OF assms(1)]
  show v: "limit a < v" using D(4) assms(2,3) by (auto simp: not_le subset_iff)
  show "\<not> window a (slot_of v)"
    using D(6,7) assms(2,4) v window_inj [of "limit a" _ v] by blast
qed

text \<open>The sweep over a window that holds the numbers of \<open>A\<close> above \<open>l\<close>.\<close>

lemma ack_sweep:
  assumes "\<forall>v \<in> A. v < l + WindowSize" "\<forall>s. w s \<longleftrightarrow> (\<exists>v \<in> A. l < v \<and> slot_of v = s)"
    and "min64 \<le> l" "l + 2 * WindowSize \<le> max64"
  obtains w' j where "ack_loop (slot_of l) w (l + 1) = (w', j)" "l < j" "j \<le> l + WindowSize"
    "{l + 1..<j} \<subseteq> A" "j \<notin> A" "\<forall>s. w' s \<longleftrightarrow> (\<exists>v \<in> A. j - 1 < v \<and> slot_of v = s)"
proof -
  have "l + 1 + int (card (set_slots w)) \<le> max64" using assms(4) card_set_slots [of w] by simp
  then obtain w' j where loop: "ack_loop (slot_of l) w (l + 1) = (w', j)" "l + 1 \<le> j"
    "j \<le> l + 1 + int (card (set_slots w))" "\<forall>k. l + 1 \<le> k \<and> k < j \<longrightarrow> w (slot_of k)"
    "w' = (\<lambda>s. w s \<and> s \<notin> slot_of ` {l + 1..<j})" "j = slot_of l \<or> \<not> w' (slot_of j)"
    using ack_loop_spec [of "l + 1" w "slot_of l"] assms(3) by fastforce
  have A: "k \<in> A \<and> k < l + WindowSize" if k: "l + 1 \<le> k" "k < j" for k
  proof -
    obtain u where u: "u \<in> A" "l < u" "slot_of u = slot_of k" using loop(4) k assms(2) by blast
    then have uW: "u < l + WindowSize" using assms(1) by blast
    have "k \<le> l + WindowSize" using k(2) loop(3) card_set_slots [of w] by simp
    moreover have "k \<noteq> l + WindowSize"
      using u uW same_slot_as_limit [of l u] by (auto simp: slot_of_mod)
    ultimately have "u = k" using window_inj [of l u k] u uW k(1) by simp
    then show ?thesis using u(1) uW by simp
  qed
  have j: "j \<le> l + WindowSize" using A [of "j - 1"] loop(2) by (cases "j = l + 1") auto
  have out: "slot_of u \<notin> slot_of ` {l + 1..<j} \<longleftrightarrow> j \<le> u" if u: "u \<in> A" "l < u" for u
  proof
    show "j \<le> u" if "slot_of u \<notin> slot_of ` {l + 1..<j}"
      using that u(2) by (auto simp: image_iff not_le)
    show "slot_of u \<notin> slot_of ` {l + 1..<j}" if "j \<le> u"
    proof
      assume "slot_of u \<in> slot_of ` {l + 1..<j}"
      then obtain k where k: "slot_of u = slot_of k" "l + 1 \<le> k" "k < j" by (elim imageE) simp
      then have "u = k" using window_inj [of l u k] u assms(1) j by simp
      then show False using k(3) that by simp
    qed
  qed
  have "j \<notin> A"
  proof
    assume jA: "j \<in> A"
    have lj: "l < j" using loop(2) by simp
    then have "w (slot_of j)" using assms(2) jA by blast
    then have "w' (slot_of j)" unfolding loop(5) using out [OF jA lj] by simp
    then have "slot_of j = slot_of l" using loop(6) by (metis slot_of_slot_of)
    then show False using jA assms(1) same_slot_as_limit [of l j] loop(2) by auto
  qed
  moreover have "\<forall>s. w' s \<longleftrightarrow> (\<exists>v \<in> A. j - 1 < v \<and> slot_of v = s)"
  proof (intro allI iffI)
    fix s assume "w' s"
    then obtain v where "v \<in> A" "l < v" "slot_of v = s" "s \<notin> slot_of ` {l + 1..<j}"
      using loop(5) assms(2) by blast
    then show "\<exists>v \<in> A. j - 1 < v \<and> slot_of v = s" using out [of v] by (intro bexI [of _ v]) simp_all
  next
    fix s assume "\<exists>v \<in> A. j - 1 < v \<and> slot_of v = s"
    then obtain v where v: "v \<in> A" "j \<le> v" "slot_of v = s" by auto
    then have "l < v" using loop(2) by simp
    then show "w' s" using out [of v] v loop(5) assms(2) by blast
  qed
  moreover have "{l + 1..<j} \<subseteq> A" using A by auto
  ultimately show ?thesis using that [OF loop(1) _ j] loop(2) by simp
qed

lemma Acknowledge_abs:
  assumes "ack_weak start A a" "v \<notin> A" "start \<le> v" "v < limit a + WindowSize" "v + 2 * WindowSize \<le> max64"
  obtains a' where "Acknowledge v a = Ret a'" "ack_abs start (insert v A) a'" "limit a \<le> limit a'" "ack_c a' = ack_c a"
proof -
  define w where "w = (window a)(slot_of v := True)"
  note free = ack_free_slot [OF assms(1-4)]
  note D = ack_weakD [OF assms(1)]
  have lim: "min64 \<le> limit a" "limit a + 2 * WindowSize \<le> max64"
    using D(2,3) assms(5) free(1) by linarith+
  have bound: "\<forall>u \<in> insert v A. u < limit a + WindowSize" using D(6) assms(4) by blast
  have slots: "\<forall>s. w s \<longleftrightarrow> (\<exists>u \<in> insert v A. limit a < u \<and> slot_of u = s)"
    using D(7) free(1) by (auto simp: w_def)
  obtain w' j where loop: "ack_loop (slot_of (limit a)) w (limit a + 1) = (w', j)" "limit a < j"
    "j \<le> limit a + WindowSize" "{limit a + 1..<j} \<subseteq> insert v A" "j \<notin> insert v A"
    "\<forall>s. w' s \<longleftrightarrow> (\<exists>u \<in> insert v A. j - 1 < u \<and> slot_of u = s)"
    by (rule ack_sweep [OF bound slots lim])
  have wr: "wrap64 (limit a + 1) = limit a + 1" "wrap64 (j - 1) = j - 1"
    using lim loop(2,3) by (simp_all add: wrap64_id in64_def)
  let ?a = "a\<lparr>window := w', limit := j - 1, ack_lock := \<lparr>lock_f = 0\<rparr>\<rparr>"
  have l0: "ack_lock a = \<lparr>lock_f = 0\<rparr>" using D(1) by (cases "ack_lock a") simp
  have "Acknowledge v a = Ret ?a"
    using free(2) loop(1) wr l0 by (cases a) (simp add: Acknowledge_def Let_def TryLock_def Unlock_def w_def)
  moreover have "ack_abs start (insert v A) ?a"
  proof -
    have "{start..j - 1} \<subseteq> {start..limit a} \<union> {limit a + 1..<j}" by auto
    then have "{start..j - 1} \<subseteq> insert v A" using loop(4) D(4) by blast
    moreover have "\<forall>u \<in> insert v A. start \<le> u \<and> u < j - 1 + WindowSize"
      using D(5,6) assms(3,4) loop(2) by fastforce
    ultimately show ?thesis using D(2,3) loop(2,5,6) unfolding ack_abs_def ack_weak_def by simp
  qed
  ultimately show ?thesis using that [of ?a] loop(2) by simp
qed

text \<open>What a client of a counter of acknowledged numbers relies on: while a number is within the
  window its acknowledgement returns, and \<^verbatim>\<open>Last\<close> is the end of the acknowledged prefix.\<close>

locale prefix_counter =
  fixes start :: int
    and repr :: "int set \<Rightarrow> 's \<Rightarrow> bool"
    and room :: "int \<Rightarrow> int \<Rightarrow> bool"
    and ack :: "int \<Rightarrow> 's \<Rightarrow> 's outcome"
    and lst :: "'s \<Rightarrow> int"
  assumes ack_ok: "repr A s \<Longrightarrow> v \<notin> A \<Longrightarrow> start \<le> v \<Longrightarrow> room v (lst s) \<Longrightarrow>
      \<exists>s'. ack v s = Ret s' \<and> repr (insert v A) s' \<and> lst s \<le> lst s'"
    and room_mono: "room v l \<Longrightarrow> l \<le> l' \<Longrightarrow> room v l'"
    and lst_prefix: "repr A s \<Longrightarrow> prefix_end start A (lst s)"
begin

lemma ack_all:
  "repr A s \<Longrightarrow> distinct vs \<Longrightarrow> set vs \<inter> A = {} \<Longrightarrow> \<forall>v \<in> set vs. start \<le> v \<and> room v (lst s) \<Longrightarrow>
     \<exists>s'. ofold ack vs s = Ret s' \<and> repr (A \<union> set vs) s'"
proof (induction vs arbitrary: A s)
  case (Cons v vs)
  then obtain s1 where s1: "ack v s = Ret s1" "repr (insert v A) s1" "lst s \<le> lst s1"
    using ack_ok [of A s v] by auto
  have "\<forall>u \<in> set vs. start \<le> u \<and> room u (lst s1)" using Cons.prems(4) room_mono [OF _ s1(3)] by simp
  then show ?case using Cons.IH [OF s1(2)] Cons.prems(2,3) s1(1) by auto
qed simp

text \<open>The order of the acknowledgements does not matter.\<close>

lemma ack_order:
  assumes "repr A s" "distinct vs" "distinct us" "set us = set vs" "set vs \<inter> A = {}"
    and "\<forall>v \<in> set vs. start \<le> v \<and> room v (lst s)"
  shows "\<exists>s1 s2. ofold ack vs s = Ret s1 \<and> ofold ack us s = Ret s2 \<and> lst s1 = lst s2"
proof -
  obtain s1 s2 where "ofold ack vs s = Ret s1" "repr (A \<union> set vs) s1" "ofold ack us s = Ret s2" "repr (A \<union> set vs) s2"
    using ack_all [of A s vs] ack_all [of A s us] assms by auto
  then show ?thesis using prefix_end_unique lst_prefix by blast
qed

end

interpretation ack: prefix_counter start "ack_abs start"
  "\<lambda>v l. v < l + WindowSize \<and> v + 2 * WindowSize \<le> max64" Acknowledge Ack_Last
proof
  fix A s v assume "ack_abs start A s" "v \<notin> A" "start \<le> v"
    and r: "v < Ack_Last s + WindowSize \<and> v + 2 * WindowSize \<le> max64"
  then show "\<exists>s'. Acknowledge v s = Ret s' \<and> ack_abs start (insert v A) s' \<and> Ack_Last s \<le> Ack_Last s'"
    using Acknowledge_abs [of start A s v] unfolding Ack_Last_def ack_abs_def by metis
qed (auto simp: ack_abs_def ack_weak_def prefix_end_def Ack_Last_def)

section \<open>Properties\<close>

text \<open>(C30) Acknowledgements in any order. A counter started at \<open>start\<close> accepts the acknowledgements
  of distinct numbers within one window, in every order, without a panic, and \<^verbatim>\<open>Last\<close> is then the end
  of the longest contiguous run of acknowledged numbers: nothing beyond a gap is ever reported, and
  nothing before it is left out.\<close>

theorem Acknowledge_prefix:
  assumes "min64 < start" "start + 3 * WindowSize \<le> max64"
    and "distinct vs" "set vs \<subseteq> {start..<start + WindowSize - 1}"
  shows "\<exists>a. ofold Acknowledge vs (NewAcknowledgedCounter start) = Ret a \<and> prefix_end start (set vs) (Ack_Last a) \<and>
    (set vs = {start..<start + int (length vs)} \<longrightarrow> Ack_Last a = start + int (length vs) - 1)"
proof -
  let ?a = "NewAcknowledgedCounter start"
  have a: "ack_abs start {} ?a" using assms(1,2) by (intro NewAcknowledgedCounter_abs) (simp_all add: in64_def)
  have "Ack_Last ?a = start - 1"
    using assms(1,2) by (simp add: Ack_Last_def NewAcknowledgedCounter_def wrap64_id in64_def)
  then have "\<forall>v \<in> set vs. start \<le> v \<and> v < Ack_Last ?a + WindowSize \<and> v + 2 * WindowSize \<le> max64"
    using assms(2,4) by auto
  then obtain b where b: "ofold Acknowledge vs ?a = Ret b" "ack_abs start (set vs) b"
    using ack.ack_all [OF a assms(3)] by auto
  then have p: "prefix_end start (set vs) (Ack_Last b)" using ack.lst_prefix by blast
  moreover have "prefix_end start {start..<start + int (length vs)} (start + int (length vs) - 1)"
    by (simp add: prefix_end_def subset_iff)
  ultimately show ?thesis using b(1) prefix_end_unique by metis
qed

theorem Acknowledge_prefix_witness:
  "\<exists>a. ofold Acknowledge [12, 10, 15, 11] (NewAcknowledgedCounter 10) = Ret a \<and> prefix_end 10 {12, 10, 15, 11} (Ack_Last a)"
  using Acknowledge_prefix [of 10 "[12, 10, 15, 11]"] by auto



end
