(* ===== verification/AckCounter_Conc.thy ===== *)
theory AckCounter_Conc
  imports AckCounter
begin

text \<open>
  The acknowledged counter shared by goroutines. A goroutine takes a number with \<^verbatim>\<open>Next\<close>, works for any
  time, and calls \<^verbatim>\<open>Acknowledge\<close>; each access to shared memory in those functions is one step, and
  the steps of all goroutines interleave freely. (Reads and writes of the window, which the Go code
  makes without synchronisation, take effect at once and in order.) The fields \<open>acked\<close> and
  \<open>front\<close> are not in the program: the numbers whose slot has been marked, and the last one swept.

  The counter is meant for fewer than \<^verbatim>\<open>WindowSize\<close> numbers in flight; \<open>disciplined\<close> says so.
\<close>

section \<open>Goroutines and steps\<close>

datatype pc =
    Idle
  | Got int
  | Checked int
  | Marked
  | Holding
  | Scan int int
  | Clearing int int
  | Storing int
  | Releasing
  | Crashed

record ack_sys =
  s_counter :: int
  s_limit :: int
  s_window :: "int \<Rightarrow> bool"
  s_lock :: nat
  s_pc :: "nat \<Rightarrow> pc"
  acked :: "int set"
  front :: int

definition goto :: "nat \<Rightarrow> pc \<Rightarrow> ack_sys \<Rightarrow> ack_sys" where
  "goto t p s = s\<lparr>s_pc := (s_pc s)(t := p)\<rparr>"

inductive ack_step :: "ack_sys \<Rightarrow> ack_sys \<Rightarrow> bool" where
  st_Next: "s_pc s t = Idle \<Longrightarrow>
    ack_step s (goto t (Got (wrap64 (wrap64 (s_counter s + 1) - 1))) (s\<lparr>s_counter := wrap64 (s_counter s + 1)\<rparr>))"
| st_check: "s_pc s t = Got v \<Longrightarrow> \<not> s_window s (slot_of v) \<Longrightarrow> ack_step s (goto t (Checked v) s)"
| st_panic: "s_pc s t = Got v \<Longrightarrow> s_window s (slot_of v) \<Longrightarrow> ack_step s (goto t Crashed s)"
| st_mark: "s_pc s t = Checked v \<Longrightarrow>
    ack_step s (goto t Marked (s\<lparr>s_window := (s_window s)(slot_of v := True), acked := insert v (acked s)\<rparr>))"
| st_lock: "s_pc s t = Marked \<Longrightarrow> s_lock s = 0 \<Longrightarrow> ack_step s (goto t Holding (s\<lparr>s_lock := 1\<rparr>))"
| st_busy: "s_pc s t = Marked \<Longrightarrow> s_lock s \<noteq> 0 \<Longrightarrow> ack_step s (goto t Idle s)"
| st_load: "s_pc s t = Holding \<Longrightarrow>
    ack_step s (goto t (Scan (slot_of (s_limit s)) (wrap64 (s_limit s + 1))) s)"
| st_stop: "s_pc s t = Scan b i \<Longrightarrow> i = b \<or> \<not> s_window s (slot_of i) \<Longrightarrow> ack_step s (goto t (Storing i) s)"
| st_hit: "s_pc s t = Scan b i \<Longrightarrow> i \<noteq> b \<Longrightarrow> s_window s (slot_of i) \<Longrightarrow> ack_step s (goto t (Clearing b i) s)"
| st_clear: "s_pc s t = Clearing b i \<Longrightarrow>
    ack_step s (goto t (Scan b (wrap64 (i + 1))) (s\<lparr>s_window := (s_window s)(slot_of i := False), front := i\<rparr>))"
| st_store: "s_pc s t = Storing i \<Longrightarrow> ack_step s (goto t Releasing (s\<lparr>s_limit := wrap64 (i - 1)\<rparr>))"
| st_unlock: "s_pc s t = Releasing \<Longrightarrow> ack_step s (goto t Idle (s\<lparr>s_lock := 0\<rparr>))"

definition ack_init :: "int \<Rightarrow> ack_sys" where
  "ack_init start = \<lparr>s_counter = start, s_limit = wrap64 (start - 1), s_window = (\<lambda>_. False), s_lock = 0,
     s_pc = (\<lambda>_. Idle), acked = {}, front = start - 1\<rparr>"

definition disciplined :: "ack_sys \<Rightarrow> bool" where
  "disciplined s \<longleftrightarrow> s_counter s \<le> s_limit s + WindowSize \<and> s_counter s + 2 * WindowSize \<le> max64"

inductive ack_reach :: "int \<Rightarrow> ack_sys \<Rightarrow> bool" for start where
  reach_init: "ack_reach start (ack_init start)"
| reach_step: "ack_reach start s \<Longrightarrow> ack_step s s' \<Longrightarrow> disciplined s' \<Longrightarrow> ack_reach start s'"

text \<open>The same steps as a function of the goroutine that moves, to run a schedule.\<close>

fun ack_exec :: "nat \<Rightarrow> ack_sys \<Rightarrow> ack_sys" where
  "ack_exec t s = (case s_pc s t of
       Idle \<Rightarrow> goto t (Got (wrap64 (wrap64 (s_counter s + 1) - 1))) (s\<lparr>s_counter := wrap64 (s_counter s + 1)\<rparr>)
     | Got v \<Rightarrow> if s_window s (slot_of v) then goto t Crashed s else goto t (Checked v) s
     | Checked v \<Rightarrow> goto t Marked (s\<lparr>s_window := (s_window s)(slot_of v := True), acked := insert v (acked s)\<rparr>)
     | Marked \<Rightarrow> if s_lock s = 0 then goto t Holding (s\<lparr>s_lock := 1\<rparr>) else goto t Idle s
     | Holding \<Rightarrow> goto t (Scan (slot_of (s_limit s)) (wrap64 (s_limit s + 1))) s
     | Scan b i \<Rightarrow> if i = b \<or> \<not> s_window s (slot_of i) then goto t (Storing i) s else goto t (Clearing b i) s
     | Clearing b i \<Rightarrow> goto t (Scan b (wrap64 (i + 1))) (s\<lparr>s_window := (s_window s)(slot_of i := False), front := i\<rparr>)
     | Storing i \<Rightarrow> goto t Releasing (s\<lparr>s_limit := wrap64 (i - 1)\<rparr>)
     | Releasing \<Rightarrow> goto t Idle (s\<lparr>s_lock := 0\<rparr>)
     | Crashed \<Rightarrow> s)"

fun ack_run :: "nat list \<Rightarrow> ack_sys \<Rightarrow> ack_sys option" where
  "ack_run [] s = Some s"
| "ack_run (t # ts) s =
     (let s' = ack_exec t s in if s_pc s t \<noteq> Crashed \<and> disciplined s' then ack_run ts s' else None)"

declare ack_exec.simps [simp del]

lemma ack_exec_step: "s_pc s t \<noteq> Crashed \<Longrightarrow> ack_step s (ack_exec t s)"
  by (cases "s_pc s t") (auto simp: ack_exec.simps simp del: One_nat_def intro: ack_step.intros)

lemma ack_run_reach: "ack_reach start s \<Longrightarrow> ack_run ts s = Some s' \<Longrightarrow> ack_reach start s'"
  by (induction ts arbitrary: s) (auto simp: Let_def split: if_splits intro: reach_step ack_exec_step)

lemma ack_run_pc: "ack_run ts s = Some s' \<Longrightarrow> t \<notin> set ts \<Longrightarrow> s_pc s' t = s_pc s t"
proof (induction ts arbitrary: s)
  case (Cons u ts)
  have "s_pc (ack_exec u s) t = s_pc s t" using Cons.prems(2) by (auto simp: ack_exec.simps goto_def split: pc.splits)
  then show ?case using Cons by (auto simp: Let_def split: if_splits)
qed simp

section \<open>The invariant\<close>

fun critical :: "pc \<Rightarrow> bool" where
  "critical Holding = True"
| "critical (Scan b i) = True"
| "critical (Clearing b i) = True"
| "critical (Storing i) = True"
| "critical Releasing = True"
| "critical _ = False"

text \<open>The number a goroutine has taken and not yet acknowledged.\<close>

fun pending :: "pc \<Rightarrow> int option" where
  "pending (Got v) = Some v"
| "pending (Checked v) = Some v"
| "pending _ = None"

text \<open>Where the sweep of a goroutine in the critical section stands.\<close>

fun sweep_ok :: "ack_sys \<Rightarrow> pc \<Rightarrow> bool" where
  "sweep_ok s Holding \<longleftrightarrow> front s = s_limit s"
| "sweep_ok s (Scan b i) \<longleftrightarrow> i = front s + 1"
| "sweep_ok s (Clearing b i) \<longleftrightarrow> i = front s + 1 \<and> i \<in> acked s"
| "sweep_ok s (Storing i) \<longleftrightarrow> i = front s + 1"
| "sweep_ok s Releasing \<longleftrightarrow> front s = s_limit s"
| "sweep_ok s Crashed \<longleftrightarrow> False"
| "sweep_ok s _ \<longleftrightarrow> True"

definition lock_inv :: "ack_sys \<Rightarrow> bool" where
  "lock_inv s \<longleftrightarrow> (\<forall>t u. critical (s_pc s t) \<and> critical (s_pc s u) \<longrightarrow> t = u) \<and>
     (s_lock s = 0 \<longrightarrow> front s = s_limit s \<and> (\<forall>t. \<not> critical (s_pc s t)))"

definition data_inv :: "int \<Rightarrow> ack_sys \<Rightarrow> bool" where
  "data_inv start s \<longleftrightarrow> min64 < start \<and> start - 1 \<le> s_limit s \<and> s_limit s \<le> front s \<and>
     {start..front s} \<subseteq> acked s \<and> acked s \<subseteq> {start..<s_counter s} \<and> start \<le> s_counter s \<and>
     (\<forall>x. s_window s x \<longleftrightarrow> (\<exists>v \<in> acked s. front s < v \<and> slot_of v = x))"

definition pend_inv :: "int \<Rightarrow> ack_sys \<Rightarrow> bool" where
  "pend_inv start s \<longleftrightarrow> (\<forall>t v. pending (s_pc s t) = Some v \<longrightarrow> start \<le> v \<and> v < s_counter s \<and> v \<notin> acked s) \<and>
     (\<forall>t u v. pending (s_pc s t) = Some v \<and> pending (s_pc s u) = Some v \<longrightarrow> t = u)"

definition ack_inv :: "int \<Rightarrow> ack_sys \<Rightarrow> bool" where
  "ack_inv start s \<longleftrightarrow> data_inv start s \<and> lock_inv s \<and> pend_inv start s \<and> (\<forall>t. sweep_ok s (s_pc s t)) \<and> disciplined s"

lemma goto_simps [simp]:
  "s_pc (goto t p s) = (s_pc s)(t := p)" "s_counter (goto t p s) = s_counter s" "s_limit (goto t p s) = s_limit s"
  "s_window (goto t p s) = s_window s" "s_lock (goto t p s) = s_lock s" "acked (goto t p s) = acked s"
  "front (goto t p s) = front s"
  by (simp_all add: goto_def)

lemma sweep_ok_goto [simp]: "sweep_ok (goto t p s) q = sweep_ok s q"
  by (cases q) simp_all

lemma sweep_ok_other [simp]:
  "sweep_ok (s\<lparr>s_counter := c\<rparr>) q = sweep_ok s q" "sweep_ok (s\<lparr>s_lock := l\<rparr>) q = sweep_ok s q"
  "\<not> critical q \<Longrightarrow> sweep_ok s q \<Longrightarrow> sweep_ok s' q"
  by (cases q; simp)+

lemma data_invD:
  assumes "data_inv start s"
  shows "min64 < start" "start - 1 \<le> s_limit s" "s_limit s \<le> front s" "{start..front s} \<subseteq> acked s"
    "acked s \<subseteq> {start..<s_counter s}" "start \<le> s_counter s"
    "\<And>x. s_window s x \<longleftrightarrow> (\<exists>v \<in> acked s. front s < v \<and> slot_of v = x)"
  using assms unfolding data_inv_def by blast+

lemma ack_invD:
  assumes "ack_inv start s"
  shows "data_inv start s" "lock_inv s" "pend_inv start s" "\<And>t. sweep_ok s (s_pc s t)" "disciplined s"
  using assms unfolding ack_inv_def by blast+

lemma front_below_counter:
  assumes "data_inv start s"
  shows "front s < s_counter s"
proof (cases "start \<le> front s")
  case True
  then have "front s \<in> acked s" using data_invD(4) [OF assms] by auto
  then show ?thesis using data_invD(5) [OF assms] by auto
qed (use data_invD(6) [OF assms] in simp)

lemma ack_wraps:
  assumes "ack_inv start s"
  shows "wrap64 (s_counter s + 1) = s_counter s + 1" "wrap64 (wrap64 (s_counter s + 1) - 1) = s_counter s"
    "wrap64 (s_limit s + 1) = s_limit s + 1" "wrap64 (front s + 1) = front s + 1" "wrap64 (front s + 2) = front s + 2"
    "wrap64 (front s) = front s"
proof -
  note d = ack_invD(1) [OF assms] and c = ack_invD(5) [OF assms, unfolded disciplined_def]
  note D = data_invD(1-3,6) [OF d] front_below_counter [OF d]
  show "wrap64 (s_counter s + 1) = s_counter s + 1" "wrap64 (s_limit s + 1) = s_limit s + 1"
    "wrap64 (front s + 1) = front s + 1" "wrap64 (front s + 2) = front s + 2" "wrap64 (front s) = front s"
    using D c by (simp_all add: wrap64_id in64_def)
  then show "wrap64 (wrap64 (s_counter s + 1) - 1) = s_counter s" using D c by (simp add: wrap64_id in64_def)
qed

text \<open>A number taken and not acknowledged lies above the swept ones, within a window, and its slot
  is free.\<close>

lemma pending_slot_free:
  assumes "ack_inv start s" "pending (s_pc s t) = Some v"
  shows "front s < v" "v < front s + WindowSize" "\<not> s_window s (slot_of v)"
proof -
  note D = data_invD [OF ack_invD(1) [OF assms(1)]] and c = ack_invD(5) [OF assms(1), unfolded disciplined_def]
  have v: "start \<le> v" "v < s_counter s" "v \<notin> acked s"
    using ack_invD(3) [OF assms(1)] assms(2) by (auto simp: pend_inv_def)
  show f: "front s < v" using v D(4) by (auto simp: subset_iff not_le)
  show w: "v < front s + WindowSize" using v(2) c D(3) by linarith
  show "\<not> s_window s (slot_of v)"
  proof
    assume "s_window s (slot_of v)"
    then obtain u where u: "u \<in> acked s" "front s < u" "slot_of u = slot_of v" using D(7) by blast
    then have "u < s_counter s" using D(5) by auto
    then have "u < front s + WindowSize" using c D(3) by linarith
    then show False using window_inj [OF u(2) _ f w u(3)] u(1) v(3) by simp
  qed
qed

text \<open>A set slot at the frontier belongs to the number at the frontier.\<close>

lemma frontier_acked:
  assumes "ack_inv start s" "s_window s (slot_of (front s + 1))"
  shows "front s + 1 \<in> acked s"
proof -
  note D = data_invD [OF ack_invD(1) [OF assms(1)]] and c = ack_invD(5) [OF assms(1), unfolded disciplined_def]
  obtain u where u: "u \<in> acked s" "front s < u" "slot_of u = slot_of (front s + 1)" using D(7) assms(2) by blast
  then have "u < s_counter s" using D(5) by auto
  then have "u < front s + WindowSize" using c D(3) by linarith
  then have "u = front s + 1" using window_inj [OF u(2) _ _ _ u(3)] by simp
  then show ?thesis using u(1) by simp
qed

lemma data_inv_same:
  assumes "data_inv start s" "s_counter s' = s_counter s" "s_limit s' = s_limit s" "s_window s' = s_window s"
    "acked s' = acked s" "front s' = front s"
  shows "data_inv start s'"
  using assms unfolding data_inv_def by simp

lemma data_inv_clear:
  assumes "ack_inv start s" "front s + 1 \<in> acked s"
  shows "data_inv start (s\<lparr>s_window := (s_window s)(slot_of (front s + 1) := False), front := front s + 1\<rparr>)"
proof -
  let ?i = "front s + 1"
  note D = data_invD [OF ack_invD(1) [OF assms(1)]] and c = ack_invD(5) [OF assms(1), unfolded disciplined_def]
  have "{start..?i} \<subseteq> insert ?i {start..front s}" by auto
  then have "{start..?i} \<subseteq> acked s" using D(4) assms(2) by blast
  moreover have uniq: "v = ?i" if v: "v \<in> acked s" "front s < v" "slot_of v = slot_of ?i" for v
  proof -
    have "v < front s + WindowSize" using v(1) D(3,5) c by fastforce
    then show ?thesis using window_inj [OF v(2) _ _ _ v(3)] by simp
  qed
  have "((s_window s)(slot_of ?i := False)) x \<longleftrightarrow> (\<exists>v \<in> acked s. ?i < v \<and> slot_of v = x)" for x
  proof (cases "x = slot_of ?i")
    case True
    then show ?thesis using uniq by force
  next
    case False
    have "front s < v \<longleftrightarrow> ?i < v" if "slot_of v = x" for v using that False by (cases "v = ?i") auto
    then show ?thesis using False D(7) [of x] by (simp, blast)
  qed
  ultimately show ?thesis using D(1-3,5,6) unfolding data_inv_def by simp
qed

lemma data_inv_mark:
  assumes "ack_inv start s" "pending (s_pc s t) = Some v"
  shows "data_inv start (s\<lparr>s_window := (s_window s)(slot_of v := True), acked := insert v (acked s)\<rparr>)"
proof -
  note D = data_invD [OF ack_invD(1) [OF assms(1)]] and f = pending_slot_free [OF assms]
  have "start \<le> v" "v < s_counter s" using ack_invD(3) [OF assms(1)] assms(2) by (auto simp: pend_inv_def)
  moreover have "((s_window s)(slot_of v := True)) x \<longleftrightarrow> (\<exists>u \<in> insert v (acked s). front s < u \<and> slot_of u = x)" for x
    using D(7) [of x] f(1) by auto
  ultimately show ?thesis using D(1-6) unfolding data_inv_def by auto
qed

lemma step_data:
  assumes "ack_inv start s" "ack_step s s'"
  shows "data_inv start s'"
  using assms(2)
proof (cases rule: ack_step.cases)
  case (st_Next t)
  then show ?thesis using ack_invD(1) [OF assms(1)] ack_wraps(1) [OF assms(1)]
    by (fastforce simp: data_inv_def)
next
  case (st_mark t v)
  then show ?thesis
    using data_inv_same [OF data_inv_mark [OF assms(1), of t v], of s'] by simp
next
  case (st_clear t b i)
  then have "i = front s + 1" "front s + 1 \<in> acked s" using ack_invD(4) [OF assms(1), of t] by auto
  then show ?thesis using st_clear data_inv_same [OF data_inv_clear [OF assms(1)], of s'] by simp
next
  case (st_store t i)
  then have "wrap64 (i - 1) = front s"
    using ack_invD(4) [OF assms(1), of t] ack_wraps(6) [OF assms(1)] by simp
  then show ?thesis
    using st_store data_invD [OF ack_invD(1) [OF assms(1)]] by (simp add: data_inv_def)
qed (auto intro: data_inv_same [OF ack_invD(1) [OF assms(1)]])

lemma lock_inv_goto:
  assumes "lock_inv s" "s_pc s0 = s_pc s" "s_lock s0 = s_lock s"
    and "critical p \<Longrightarrow> critical (s_pc s t)"
    and "front s0 = front s \<and> s_limit s0 = s_limit s \<or> critical (s_pc s t)"
  shows "lock_inv (goto t p s0)"
proof -
  let ?s = "goto t p s0"
  have c: "critical (s_pc ?s u) \<Longrightarrow> critical (s_pc s u)" for u
    using assms(2,4) by (cases "u = t") simp_all
  have u: "\<And>t u. critical (s_pc s t) \<Longrightarrow> critical (s_pc s u) \<Longrightarrow> t = u"
    and z: "s_lock s = 0 \<Longrightarrow> front s = s_limit s \<and> (\<forall>t. \<not> critical (s_pc s t))"
    using assms(1) unfolding lock_inv_def by blast+
  show ?thesis unfolding lock_inv_def
  proof (intro conjI allI impI)
    show "x = y" if "critical (s_pc ?s x) \<and> critical (s_pc ?s y)" for x y
      using u [OF c c] that by blast
    assume "s_lock ?s = 0"
    then have l: "s_lock s = 0" using assms(3) by simp
    show "front ?s = s_limit ?s" using z [OF l] assms(5) by auto
    show "\<not> critical (s_pc ?s x)" for x using z [OF l] c by blast
  qed
qed

lemma step_lock_inv:
  assumes "ack_inv start s" "ack_step s s'"
  shows "lock_inv s'"
  using assms(2)
proof (cases rule: ack_step.cases)
  case (st_lock t)
  then have "\<forall>u. \<not> critical (s_pc s u)" using ack_invD(2) [OF assms(1)] by (simp add: lock_inv_def)
  then show ?thesis using st_lock by (simp add: lock_inv_def)
next
  case (st_unlock t)
  then have t: "critical (s_pc s t)" "front s = s_limit s" using ack_invD(4) [OF assms(1), of t] by simp_all
  then have "\<forall>u. u \<noteq> t \<longrightarrow> \<not> critical (s_pc s u)"
    using ack_invD(2) [OF assms(1)] unfolding lock_inv_def by blast
  then show ?thesis using st_unlock t by (simp add: lock_inv_def)
qed (hypsubst, rule lock_inv_goto [OF ack_invD(2) [OF assms(1)]]; simp)+

lemma pend_invD:
  assumes "pend_inv start s"
  shows "\<And>t v. pending (s_pc s t) = Some v \<Longrightarrow> start \<le> v \<and> v < s_counter s \<and> v \<notin> acked s"
    and "\<And>t u v. pending (s_pc s t) = Some v \<Longrightarrow> pending (s_pc s u) = Some v \<Longrightarrow> t = u"
  using assms unfolding pend_inv_def by blast+

lemma pend_inv_goto:
  assumes "pend_inv start s" "s_pc s0 = s_pc s" "s_counter s0 = s_counter s" "acked s0 = acked s"
    and "pending p = None \<or> pending p = pending (s_pc s t)"
  shows "pend_inv start (goto t p s0)"
proof -
  have c: "pending (s_pc (goto t p s0) u) = Some v \<Longrightarrow> pending (s_pc s u) = Some v" for u v
    using assms(2,5) by (cases "u = t") auto
  show ?thesis
    using pend_invD(1) [OF assms(1) c] pend_invD(2) [OF assms(1) c c] assms(3,4) unfolding pend_inv_def
    by (metis goto_simps(2,6))
qed

lemma step_pend_inv:
  assumes "ack_inv start s" "ack_step s s'"
  shows "pend_inv start s'"
  using assms(2)
proof (cases rule: ack_step.cases)
  case (st_Next t)
  note P = pend_invD [OF ack_invD(3) [OF assms(1)]]
  have n: "s_counter s \<notin> acked s" "start \<le> s_counter s" using data_invD [OF ack_invD(1) [OF assms(1)]] by auto
  have f: "s_pc s' = (s_pc s)(t := Got (s_counter s))" "s_counter s' = s_counter s + 1" "acked s' = acked s"
    using st_Next(1) ack_wraps(1,2) [OF assms(1)] by simp_all
  have c: "u = t \<and> v = s_counter s \<or> u \<noteq> t \<and> pending (s_pc s u) = Some v"
    if "pending (s_pc s' u) = Some v" for u v
    using that f(1) by (cases "u = t") auto
  show ?thesis unfolding pend_inv_def f(2,3)
  proof (intro conjI allI impI)
    fix u v assume "pending (s_pc s' u) = Some v"
    then show "start \<le> v" "v < s_counter s + 1" "v \<notin> acked s" using c P(1) n by fastforce+
  next
    fix x y v assume "pending (s_pc s' x) = Some v \<and> pending (s_pc s' y) = Some v"
    then show "x = y" using c [of x v] c [of y v] P(1) [of x v] P(1) [of y v] P(2) [of x v y] by auto
  qed
next
  case (st_mark t v)
  note P = pend_invD [OF ack_invD(3) [OF assms(1)]]
  have f: "s_pc s' = (s_pc s)(t := Marked)" "s_counter s' = s_counter s" "acked s' = insert v (acked s)"
    using st_mark(1) by simp_all
  have c: "u \<noteq> t \<and> pending (s_pc s u) = Some x" if "pending (s_pc s' u) = Some x" for u x
    using that f(1) by (cases "u = t") auto
  have t: "pending (s_pc s t) = Some v" using st_mark(2) by simp
  show ?thesis unfolding pend_inv_def f(2,3)
  proof (intro conjI allI impI)
    fix u x assume "pending (s_pc s' u) = Some x"
    then have u: "u \<noteq> t" "pending (s_pc s u) = Some x" using c by blast+
    then have "x \<noteq> v" using P(2) [OF t, of u] by auto
    then show "start \<le> x" "x < s_counter s" "x \<notin> insert v (acked s)" using P(1) [OF u(2)] by simp_all
  next
    fix x y u assume "pending (s_pc s' x) = Some u \<and> pending (s_pc s' y) = Some u"
    then show "x = y" using c P(2) by blast
  qed
qed (hypsubst, rule pend_inv_goto [OF ack_invD(3) [OF assms(1)]]; simp)+

lemma sweep_ok_frame:
  "sweep_ok s q \<Longrightarrow> front s' = front s \<Longrightarrow> s_limit s' = s_limit s \<Longrightarrow> acked s \<subseteq> acked s' \<Longrightarrow> sweep_ok s' q"
  by (cases q) auto

lemma sweep_goto:
  assumes "ack_inv start s" "s_pc s0 = s_pc s" "sweep_ok s0 p"
    and "front s0 = front s \<and> s_limit s0 = s_limit s \<and> acked s \<subseteq> acked s0 \<or> critical (s_pc s t)"
  shows "sweep_ok (goto t p s0) (s_pc (goto t p s0) u)"
proof (cases "u = t")
  case False
  have u: "sweep_ok s (s_pc s u)" using assms(1) by (rule ack_invD)
  have "sweep_ok s0 (s_pc s u)"
  proof (cases "critical (s_pc s t)")
    case True
    then have "\<not> critical (s_pc s u)"
      using False ack_invD(2) [OF assms(1)] unfolding lock_inv_def by blast
    then show ?thesis using u by (rule sweep_ok_other(3))
  qed (use u assms(4) sweep_ok_frame in blast)
  then show ?thesis using False assms(2) by simp
qed (use assms(3) in simp)

lemma step_sweep:
  assumes "ack_inv start s" "ack_step s s'"
  shows "sweep_ok s' (s_pc s' u)"
  using assms(2)
proof (cases rule: ack_step.cases)
  case (st_panic t v)
  then show ?thesis using pending_slot_free(3) [OF assms(1), of t v] by simp
next
  case (st_lock t)
  then show ?thesis
    using ack_invD(2) [OF assms(1)] unfolding st_lock(1)
    by (intro sweep_goto [OF assms(1)]) (simp_all add: lock_inv_def)
next
  case (st_load t)
  then have "front s = s_limit s" using ack_invD(4) [OF assms(1), of t] by simp
  then show ?thesis
    using ack_wraps(3) [OF assms(1)] unfolding st_load(1) by (intro sweep_goto [OF assms(1)]) simp_all
next
  case (st_hit t b i)
  then have i: "i = front s + 1" using ack_invD(4) [OF assms(1), of t] by simp
  then have "i \<in> acked s" using frontier_acked [OF assms(1)] st_hit(4) by simp
  then show ?thesis unfolding st_hit(1) using i by (intro sweep_goto [OF assms(1)]) simp_all
next
  case (st_stop t b i)
  then show ?thesis
    using ack_invD(4) [OF assms(1), of t] unfolding st_stop(1) by (intro sweep_goto [OF assms(1)]) simp_all
next
  case (st_clear t b i)
  then have "i = front s + 1" using ack_invD(4) [OF assms(1), of t] by simp
  then show ?thesis
    using st_clear(2) ack_wraps(5) [OF assms(1)] unfolding st_clear(1)
    by (intro sweep_goto [OF assms(1)]) (simp_all add: add.commute)
next
  case (st_store t i)
  then have "wrap64 (i - 1) = front s"
    using ack_invD(4) [OF assms(1), of t] ack_wraps(6) [OF assms(1)] by simp
  then show ?thesis using st_store(2) unfolding st_store(1) by (intro sweep_goto [OF assms(1)]) simp_all
qed (hypsubst, rule sweep_goto [OF assms(1)]; auto)+

lemma ack_init_inv:
  "min64 < start \<Longrightarrow> start + 2 * WindowSize \<le> max64 \<Longrightarrow> ack_inv start (ack_init start)"
  by (simp add: ack_inv_def data_inv_def lock_inv_def pend_inv_def disciplined_def ack_init_def wrap64_id in64_def)

lemma ack_step_inv:
  assumes "ack_inv start s" "ack_step s s'" "disciplined s'"
  shows "ack_inv start s'"
  unfolding ack_inv_def
  using step_data [OF assms(1,2)] step_lock_inv [OF assms(1,2)] step_pend_inv [OF assms(1,2)]
    step_sweep [OF assms(1,2)] assms(3) by blast

lemma ack_reach_inv:
  assumes "ack_reach start s" "min64 < start" "start + 2 * WindowSize \<le> max64"
  shows "ack_inv start s"
  using assms(1)
proof induction
  case reach_init
  then show ?case using assms(2,3) by (rule ack_init_inv)
qed (rule ack_step_inv)

section \<open>Properties\<close>

text \<open>(C8) Safety under every interleaving. As long as fewer than a window of numbers is in flight,
  whatever the goroutines do: \<^verbatim>\<open>Last\<close> never reports a number before it and all its predecessors are
  acknowledged, it never goes back, no goroutine panics, no two goroutines hold the lock, and no
  number is given to two goroutines.\<close>

theorem Acknowledge_safe:
  assumes "ack_reach start s" "min64 < start" "start + 2 * WindowSize \<le> max64"
  shows "{start..s_limit s} \<subseteq> acked s \<and> s_limit s < s_counter s \<and>
    (\<forall>s'. ack_step s s' \<longrightarrow> s_limit s \<le> s_limit s') \<and>
    (\<forall>t. s_pc s t \<noteq> Crashed) \<and>
    (\<forall>t u. critical (s_pc s t) \<and> critical (s_pc s u) \<longrightarrow> t = u) \<and>
    (\<forall>t u v. pending (s_pc s t) = Some v \<and> pending (s_pc s u) = Some v \<longrightarrow> t = u)"
proof (intro conjI)
  have inv: "ack_inv start s" using assms by (rule ack_reach_inv)
  note D = data_invD [OF ack_invD(1) [OF inv]]
  show "{start..s_limit s} \<subseteq> acked s" using D(3,4) by (meson atLeastatMost_subset_iff order_refl subset_trans)
  show "s_limit s < s_counter s" using front_below_counter [OF ack_invD(1) [OF inv]] D(3) by linarith
  show "\<forall>s'. ack_step s s' \<longrightarrow> s_limit s \<le> s_limit s'"
  proof (intro allI impI)
    fix s' assume "ack_step s s'"
    then show "s_limit s \<le> s_limit s'"
    proof (cases rule: ack_step.cases)
      case (st_store t i)
      then show ?thesis using ack_invD(4) [OF inv, of t] ack_wraps(6) [OF inv] D(3) by simp
    qed simp_all
  qed
  show "\<forall>t. s_pc s t \<noteq> Crashed" using ack_invD(4) [OF inv] by (metis sweep_ok.simps(6))
  show "\<forall>t u. critical (s_pc s t) \<and> critical (s_pc s u) \<longrightarrow> t = u"
    using ack_invD(2) [OF inv] unfolding lock_inv_def by blast
  show "\<forall>t u v. pending (s_pc s t) = Some v \<and> pending (s_pc s u) = Some v \<longrightarrow> t = u"
    using ack_invD(3) [OF inv] unfolding pend_inv_def by blast
qed

theorem Acknowledge_safe_witness:
  "\<exists>s. ack_run [0, 1, 1, 1, 1, 1, 0] (ack_init 7) = Some s \<and> {7..s_limit s} \<subseteq> acked s \<and> (\<forall>t. s_pc s t \<noteq> Crashed)"
proof -
  have "ack_run [0, 1, 1, 1, 1, 1, 0] (ack_init 7) \<noteq> None" by code_simp
  then obtain s where s: "ack_run [0, 1, 1, 1, 1, 1, 0] (ack_init 7) = Some s" by blast
  have "ack_reach 7 s" using reach_init s by (rule ack_run_reach)
  then show ?thesis using s Acknowledge_safe [of 7 s] by simp
qed

text \<open>(C32) What an interleaving may leave behind, and what repairs it. A number can be marked while
  another goroutine holds the lock and has already looked at its slot: when all goroutines are done,
  every number is acknowledged and \<^verbatim>\<open>Last\<close> is still behind. The next acknowledgement that meets no
  other goroutine catches up: \<^verbatim>\<open>Last\<close> is then the end of the acknowledged prefix.\<close>

theorem Acknowledge_catches_up:
  "(\<exists>s. ack_reach 0 s \<and> (\<forall>t. s_pc s t = Idle) \<and> s_lock s = 0 \<and> acked s = {0..<s_counter s} \<and>
      s_limit s < s_counter s - 1) \<and>
   (\<forall>start s c. ack_reach start s \<and> min64 < start \<and> start + 2 * WindowSize \<le> max64 \<and>
      (\<forall>t. s_pc s t = Idle) \<and> s_lock s = 0 \<and> s_counter s < s_limit s + WindowSize \<longrightarrow>
      (\<exists>a. Acknowledge (s_counter s)
          \<lparr>ack_c = c, ack_lock = \<lparr>lock_f = 0\<rparr>, window = s_window s, limit = s_limit s\<rparr> = Ret a \<and>
        prefix_end start (insert (s_counter s) (acked s)) (Ack_Last a)))"
proof (intro conjI allI impI)
  let ?ts = "[0, 1, 0, 0, 0, 0, 0, 0, 0, 1, 1, 1, 0, 0]"
  have "map_option (\<lambda>s. (s_pc s 0, s_pc s 1, s_lock s, s_counter s, s_limit s)) (ack_run ?ts (ack_init 0)) =
      Some (Idle, Idle, 0, 2, 0)" "map_option acked (ack_run ?ts (ack_init 0)) = Some {0, 1}"
    by code_simp+
  then obtain s where s: "ack_run ?ts (ack_init 0) = Some s" "s_pc s 0 = Idle" "s_pc s 1 = Idle" "s_lock s = 0"
    "s_counter s = 2" "s_limit s = 0" "acked s = {0, 1}" by auto
  have "s_pc s t = Idle" for t
    using s(2,3) ack_run_pc [OF s(1), of t] by (cases "t = 0 \<or> t = 1") (auto simp: ack_init_def)
  moreover have "{0, 1} = {0..<2 :: int}" by auto
  ultimately show "\<exists>s. ack_reach 0 s \<and> (\<forall>t. s_pc s t = Idle) \<and> s_lock s = 0 \<and> acked s = {0..<s_counter s} \<and>
      s_limit s < s_counter s - 1"
    using s ack_run_reach [OF reach_init s(1)] by (intro exI [of _ s]) simp
next
  fix start s c
  assume a: "ack_reach start s \<and> min64 < start \<and> start + 2 * WindowSize \<le> max64 \<and>
      (\<forall>t. s_pc s t = Idle) \<and> s_lock s = 0 \<and> s_counter s < s_limit s + WindowSize"
  then have inv: "ack_inv start s" using ack_reach_inv by blast
  note D = data_invD [OF ack_invD(1) [OF inv]]
  let ?a = "\<lparr>ack_c = c, ack_lock = \<lparr>lock_f = 0\<rparr>, window = s_window s, limit = s_limit s\<rparr>"
  have l: "s_lock s = 0" using a by blast
  have "front s = s_limit s" using ack_invD(2) [OF inv] l unfolding lock_inv_def by blast
  then have "ack_weak start (acked s) ?a" using D a by (auto simp: ack_weak_def)
  moreover have "s_counter s \<notin> acked s" "start \<le> s_counter s" using D(5,6) by auto
  moreover have "s_counter s + 2 * WindowSize \<le> max64" using ack_invD(5) [OF inv] by (simp add: disciplined_def)
  ultimately obtain b where "Acknowledge (s_counter s) ?a = Ret b" "ack_abs start (insert (s_counter s) (acked s)) b"
    using Acknowledge_abs [of start "acked s" ?a "s_counter s"] a by (metis AcknowledgedCounter.select_convs(4))
  then show "\<exists>a. Acknowledge (s_counter s) ?a = Ret a \<and> prefix_end start (insert (s_counter s) (acked s)) (Ack_Last a)"
    using ack.lst_prefix by blast
qed

theorem Acknowledge_catches_up_witness:
  "\<exists>s a. ack_reach 0 s \<and> s_limit s < s_counter s - 1 \<and>
     Acknowledge (s_counter s)
       \<lparr>ack_c = \<lparr>counter = 0\<rparr>, ack_lock = \<lparr>lock_f = 0\<rparr>, window = s_window s, limit = s_limit s\<rparr> = Ret a \<and>
     prefix_end 0 (insert (s_counter s) (acked s)) (Ack_Last a)"
proof -
  let ?ts = "[0, 1, 0, 0, 0, 0, 0, 0, 0, 1, 1, 1, 0, 0]"
  have "map_option (\<lambda>s. (s_pc s 0, s_pc s 1, s_lock s, s_counter s, s_limit s)) (ack_run ?ts (ack_init 0)) =
      Some (Idle, Idle, 0, 2, 0)" by code_simp
  then obtain s where s: "ack_run ?ts (ack_init 0) = Some s" "s_pc s 0 = Idle" "s_pc s 1 = Idle" "s_lock s = 0"
    "s_counter s = 2" "s_limit s = 0" by auto
  have "\<forall>t. s_pc s t = Idle"
  proof
    fix t show "s_pc s t = Idle"
      using s(2,3) ack_run_pc [OF s(1), of t] by (cases "t = 0 \<or> t = 1") (auto simp: ack_init_def)
  qed
  moreover have "ack_reach 0 s" using reach_init s(1) by (rule ack_run_reach)
  ultimately show ?thesis
    using Acknowledge_catches_up [THEN conjunct2, rule_format, of 0 s "\<lparr>counter = 0\<rparr>"] s(4-6)
    by (intro exI [of _ s]) simp
qed

end
