(* ===== verification/Util.thy ===== *)
theory Util
  imports RowCodec GoStrings
begin

text \<open>
  The small helpers of \<^verbatim>\<open>pkg/util/util.go\<close> and \<^verbatim>\<open>pkg/util/output.go\<close>: random letters, the buffer pool,
  and the renderers of the measurement table. \<^verbatim>\<open>util.Fatalf\<close> and \<^verbatim>\<open>util.Fatal\<close> are the outcome \<open>Exit\<close>.

  A \<^verbatim>\<open>sync.Pool\<close> may give back any buffer that was put into it; the model gives back the last one.
  Its clients overwrite the contents, so the choice cannot be seen in what they return.
\<close>

section \<open>Random bytes and buffers\<close>

definition letters :: bytes where
  "letters = to_bytes ''abcdefghijklmnopqrstuvwxyzABCDEFGHIJKLMNOPQRSTUVWXYZ''"

fun RandBytes :: "rand \<Rightarrow> bytes \<Rightarrow> (bytes \<times> rand) outcome" where
  "RandBytes r [] = Ret ([], r)"
| "RandBytes r (_ # b) = obind (Intn (int (length letters)) r) (\<lambda>(k, r).
     obind (RandBytes r b) (\<lambda>(b, r). Ret (letters ! nat k # b, r)))"

type_synonym pool = "bytes list"

definition pool_Get :: "bytes \<Rightarrow> pool \<Rightarrow> bytes \<times> pool" where
  "pool_Get new pl = (case pl of [] \<Rightarrow> (new, []) | b # pl \<Rightarrow> (b, pl))"

definition pool_Put :: "bytes \<Rightarrow> pool \<Rightarrow> pool" where
  "pool_Put b pl = b # pl"

definition NewBufPool :: pool where
  "NewBufPool = []"

definition BufPool_Get :: "pool \<Rightarrow> bytes \<times> pool" where
  "BufPool_Get b = (let (buf, b) = pool_Get [] b in (take 0 buf, b))"

definition BufPool_Put :: "bytes \<Rightarrow> pool \<Rightarrow> pool" where
  "BufPool_Put buf b = pool_Put buf b"


section \<open>Rendering\<close>

text \<open>A writer is the text written to it so far.\<close>

fun render_args :: "string list \<Rightarrow> string list \<Rightarrow> string list outcome" where
  "render_args [] vs = Ret []"
| "render_args (h # hs) [] = Panic ''index out of range''"
| "render_args (h # hs) (v # vs) = obind (render_args hs vs) (\<lambda>as. Ret ((h @ '': '' @ v) # as))"

fun render_lines :: "(string \<Rightarrow> string \<Rightarrow> string) \<Rightarrow> string list \<Rightarrow> string list list \<Rightarrow> string outcome" where
  "render_lines format headers [] = Ret []"
| "render_lines format headers (value # vs) =
     (if length headers = 0 then Panic ''makeslice: len out of range''
      else obind (render_args (drop 1 headers) (drop 1 value)) (\<lambda>as.
        if length value = 0 then Panic ''index out of range''
        else obind (render_lines format headers vs) (\<lambda>rest. Ret (format (value ! 0) (strings_Join '', '' as) @ rest))))"

definition RenderString ::
  "(string \<Rightarrow> string \<Rightarrow> string) \<Rightarrow> string list \<Rightarrow> string list list \<Rightarrow> string \<Rightarrow> string outcome" where
  "RenderString format headers values w =
     (if length values = 0 then Ret w
      else obind (render_lines format headers values) (\<lambda>buf. Ret (w @ buf)))"

text \<open>The format \<^verbatim>\<open>"%-6s - %s\n"\<close> that the measurement output passes.\<close>

definition plain_format :: "string \<Rightarrow> string \<Rightarrow> string" where
  "plain_format a b = a @ replicate (6 - length a) (CHR '' '') @ '' - '' @ b @ [CHR 0x0A]"

text \<open>The third-party table writer is the parameter \<open>table\<close>.\<close>

definition RenderTable ::
  "(string list \<Rightarrow> string list list \<Rightarrow> string) \<Rightarrow> string list \<Rightarrow> string list list \<Rightarrow> string \<Rightarrow> string" where
  "RenderTable table headers values w = (if length values = 0 then w else w @ table headers values)"

text \<open>\<^verbatim>\<open>json.Marshal\<close> of a string: quotes, backslashes, control characters and the three HTML
  characters are escaped. Of a map: the keys come in order.\<close>

definition hex_digit :: "nat \<Rightarrow> char" where
  "hex_digit n = char_of (if n < 10 then 48 + n else 87 + n)"

definition json_char :: "char \<Rightarrow> string" where
  "json_char c =
     (let n = of_char c :: nat
      in if n = 34 \<or> n = 92 then [CHR 0x5C, c]
         else if n = 10 then [CHR 0x5C, CHR ''n'']
         else if n = 13 then [CHR 0x5C, CHR ''r'']
         else if n = 9 then [CHR 0x5C, CHR ''t'']
         else if n < 32 \<or> n = 60 \<or> n = 62 \<or> n = 38 then
           [CHR 0x5C, CHR ''u'', CHR ''0'', CHR ''0'', hex_digit (n div 16), hex_digit (n mod 16)]
         else [c])"

definition json_string :: "string \<Rightarrow> string" where
  "json_string s = [CHR 0x22] @ concat (map json_char s) @ [CHR 0x22]"

definition json_object :: "(string, string) gomap \<Rightarrow> string" where
  "json_object m = ''{'' @ strings_Join '','' (map (\<lambda>(k, v). json_string k @ '':'' @ json_string v) (sort_key fst m)) @ ''}''"

fun render_map :: "string list \<Rightarrow> string list \<Rightarrow> (string, string) gomap \<Rightarrow> (string, string) gomap outcome" where
  "render_map [] vs line = Ret line"
| "render_map (h # hs) [] line = Panic ''index out of range''"
| "render_map (h # hs) (v # vs) line = render_map hs vs (AList.update h v line)"

fun render_maps :: "string list \<Rightarrow> string list list \<Rightarrow> (string, string) gomap list outcome" where
  "render_maps headers [] = Ret []"
| "render_maps headers (value # vs) = obind (render_map headers value []) (\<lambda>line.
     obind (render_maps headers vs) (\<lambda>ls. Ret (line # ls)))"

definition RenderJson :: "string list \<Rightarrow> string list list \<Rightarrow> string \<Rightarrow> string outcome" where
  "RenderJson headers values w =
     (if length values = 0 then Ret w
      else obind (render_maps headers values) (\<lambda>data.
        Ret (w @ ''['' @ strings_Join '','' (map json_object data) @ '']'' @ [CHR 0x0A])))"

definition IntToString :: "int \<Rightarrow> string" where
  "IntToString i = itoa i"

text \<open>The verb \<^verbatim>\<open>%.1f\<close>: the exact value is rounded to tenths, ties to even.\<close>

definition FloatToOneString :: "float64 \<Rightarrow> string" where
  "FloatToOneString f = (case f of
       NaN \<Rightarrow> ''NaN''
     | Inf s \<Rightarrow> (if s then ''-Inf'' else ''+Inf'')
     | Num s m \<Rightarrow> let t = round_even (m * 10)
         in (if s then ''-'' else []) @ decimal (nat (t div 10)) @ ''.'' @ decimal (nat (t mod 10)))"

section \<open>Facts\<close>

lemma length_letters [simp]: "length letters = 52"
  by (simp add: letters_def)

lemma RandBytes_total:
  "\<exists>b' r'. RandBytes r b = Ret (b', r') \<and> length b' = length b \<and> set b' \<subseteq> set letters \<and>
     r' = (\<lambda>i. r (i + length b))"
proof (induction b arbitrary: r)
  case (Cons a b)
  define k where "k = int (r 0) mod 52"
  have k: "Intn 52 r = Ret (k, rand_rest r)" "nat k < length letters"
    by (simp_all add: Intn_def k_def nat_less_iff)
  with Cons.IH [of "rand_rest r"] show ?case by (fastforce simp: rand_rest_def)
qed simp

text \<open>The old contents of the buffer do not matter.\<close>

lemma RandBytes_contents: "length b = length b' \<Longrightarrow> RandBytes r b = RandBytes r b'"
proof (induction b arbitrary: b' r)
  case (Cons a b)
  then obtain a' c where b': "b' = a' # c" "length b = length c" by (cases b') auto
  show ?case unfolding b'(1) RandBytes.simps Cons.IH [OF b'(2)] by (rule refl)
qed simp

lemma BufPool_Get_empty [simp]: "fst (BufPool_Get b) = []"
  by (simp add: BufPool_Get_def split: prod.split)

lemma render_args_total:
  "length hs \<le> length vs \<Longrightarrow> render_args hs vs = Ret (map2 (\<lambda>h v. h @ '': '' @ v) hs vs)"
  by (induction hs vs rule: render_args.induct) auto

lemma render_lines_total:
  assumes "headers \<noteq> []" "\<forall>v \<in> set values. length headers \<le> length v"
  shows "\<exists>s. render_lines format headers values = Ret s"
  using assms(2)
proof (induction "values")
  case (Cons v vs)
  then have "render_args (drop 1 headers) (drop 1 v) = Ret (map2 (\<lambda>h v. h @ '': '' @ v) (drop 1 headers) (drop 1 v))"
    by (intro render_args_total) (simp add: diff_le_mono)
  moreover have "length v \<noteq> 0" using Cons.prems assms(1) by (cases headers) auto
  ultimately show ?case using Cons assms(1) by auto
qed simp

lemma render_map_total: "length hs \<le> length vs \<Longrightarrow> is_ret (render_map hs vs line)"
  by (induction hs vs line rule: render_map.induct) auto

lemma render_maps_total:
  "\<forall>v \<in> set values. length headers \<le> length v \<Longrightarrow> is_ret (render_maps headers values)"
proof (induction "values")
  case (Cons v vs)
  then have "is_ret (render_map headers v [])" by (intro render_map_total) simp
  with Cons show ?case by (auto simp: is_ret_iff)
qed simp

end
