(* ===== verification/Measurement.thy ===== *)
theory Measurement
  imports Util Props
begin

text \<open>
  The measurements (\<^verbatim>\<open>pkg/measurement\<close>, except the Prometheus writer): the histogram measurer, the
  CSV measurer, and the global measurement with its warm-up flag.

  The HDR histogram is third-party code: its operations are the record \<open>hdrlib\<close>. The global state of
  the program is the record \<open>runtime\<close>: the readings that the clock will give, in nanoseconds, the global
  measurement (\<open>None\<close> is the nil pointer) and the flag \<^verbatim>\<open>warmUp\<close>. The mutex of the measurement makes
  each call of \<^verbatim>\<open>Measure\<close> one step.
\<close>

section \<open>Time\<close>

type_synonym clock = "nat \<Rightarrow> int"

text \<open>\<^verbatim>\<open>Time.Sub\<close> saturates; \<^verbatim>\<open>Duration.Microseconds\<close> truncates.\<close>

definition time_Sub :: "int \<Rightarrow> int \<Rightarrow> int" where
  "time_Sub t u = max min64 (min max64 (t - u))"

definition Microseconds :: "int \<Rightarrow> int" where
  "Microseconds d = d sdiv 1000"

definition UnixMicro :: "int \<Rightarrow> int" where
  "UnixMicro t = wrap64 (t div 1000)"

text \<open>\<^verbatim>\<open>Duration.Seconds\<close>: whole seconds plus the remaining nanoseconds.\<close>

definition Seconds :: "int \<Rightarrow> float64" where
  "Seconds d = f64_of_int (d sdiv 1000000000) + f64_of_int (d smod 1000000000) / f64_lit 1000000000"


section \<open>Histograms\<close>

record 'h hdrlib =
  hdr_New :: "int \<Rightarrow> int \<Rightarrow> int \<Rightarrow> 'h"
  hdr_RecordValue :: "int \<Rightarrow> 'h \<Rightarrow> goerror option \<times> 'h"
  hdr_Min :: "'h \<Rightarrow> int"
  hdr_Max :: "'h \<Rightarrow> int"
  hdr_Mean :: "'h \<Rightarrow> float64"
  hdr_TotalCount :: "'h \<Rightarrow> int"
  hdr_ValueAtPercentile :: "float64 \<Rightarrow> 'h \<Rightarrow> int"
  hdr_PercentilesPrint :: "'h \<Rightarrow> string"

record 'h histogram =
  startTime :: int
  hist :: 'h

definition newHistogram :: "'h hdrlib \<Rightarrow> int \<Rightarrow> 'h histogram" where
  "newHistogram H now = \<lparr>startTime = now, hist = hdr_New H 1 86400000000 3\<rparr>"

text \<open>The error of \<^verbatim>\<open>RecordValue\<close> is dropped.\<close>

definition histogram_Measure :: "'h hdrlib \<Rightarrow> int \<Rightarrow> 'h histogram \<Rightarrow> 'h histogram" where
  "histogram_Measure H latency h = h\<lparr>hist := snd (hdr_RecordValue H (Microseconds latency) (hist h))\<rparr>"

datatype info = IFloat float64 | IInt int

definition getInfo :: "'h hdrlib \<Rightarrow> int \<Rightarrow> 'h histogram \<Rightarrow> (string, info) gomap" where
  "getInfo H now h =
     (let mn = hdr_Min H (hist h); mx = hdr_Max H (hist h); avg = f64_to_int (hdr_Mean H (hist h));
          cnt = hdr_TotalCount H (hist h);
          elapsed = Seconds (time_Sub now (startTime h));
          qps = f64_of_int cnt / elapsed
      in [(''ELAPSED'', IFloat elapsed), (''COUNT'', IInt cnt), (''QPS'', IFloat qps), (''AVG'', IInt avg),
          (''MIN'', IInt mn), (''MAX'', IInt mx),
          (''PER50TH'', IInt (hdr_ValueAtPercentile H (f64_lit 50) (hist h))),
          (''PER90TH'', IInt (hdr_ValueAtPercentile H (f64_lit 90) (hist h))),
          (''PER95TH'', IInt (hdr_ValueAtPercentile H (f64_lit 95) (hist h))),
          (''PER99TH'', IInt (hdr_ValueAtPercentile H (f64_lit 99) (hist h))),
          (''PER999TH'', IInt (hdr_ValueAtPercentile H (f64_lit (999 / 10)) (hist h))),
          (''PER9999TH'', IInt (hdr_ValueAtPercentile H (f64_lit (9999 / 100)) (hist h)))])"

definition info_string :: "info \<Rightarrow> string" where
  "info_string i = (case i of IFloat f \<Rightarrow> FloatToOneString f | IInt n \<Rightarrow> IntToString n)"

definition histogram_Summary :: "'h hdrlib \<Rightarrow> int \<Rightarrow> 'h histogram \<Rightarrow> string list" where
  "histogram_Summary H now h =
     (let res = getInfo H now h
      in map (\<lambda>k. info_string (map_index (IInt 0) res k))
           [''ELAPSED'', ''COUNT'', ''QPS'', ''AVG'', ''MIN'', ''MAX'', ''PER50TH'', ''PER90TH'', ''PER95TH'',
            ''PER99TH'', ''PER999TH'', ''PER9999TH''])"

record 'h histograms =
  histograms_p :: properties
  histograms_map :: "(string, 'h histogram) gomap"

definition InitHistograms :: "properties \<Rightarrow> 'h histograms" where
  "InitHistograms p = \<lparr>histograms_p = p, histograms_map = []\<rparr>"

text \<open>A new histogram reads the clock for its start time.\<close>

definition histograms_Measure ::
  "'h hdrlib \<Rightarrow> string \<Rightarrow> int \<Rightarrow> int \<Rightarrow> 'h histograms \<Rightarrow> clock \<Rightarrow> 'h histograms \<times> clock" where
  "histograms_Measure H op start lan h clk =
     (let (opM, clk) = (case map_of (histograms_map h) op of
            Some opM \<Rightarrow> (opM, clk)
          | None \<Rightarrow> (newHistogram H (clk 0), \<lambda>i. clk (Suc i)))
      in (h\<lparr>histograms_map := AList.update op (histogram_Measure H lan opM) (histograms_map h)\<rparr>, clk))"

text \<open>Each summary reads the clock once, in the order of the iteration.\<close>

fun histograms_summary ::
  "'h hdrlib \<Rightarrow> (string, 'h histogram) gomap \<Rightarrow> clock \<Rightarrow> (string, string list) gomap" where
  "histograms_summary H [] clk = []"
| "histograms_summary H ((op, opM) # m) clk =
     (op, histogram_Summary H (clk 0) opM) # histograms_summary H m (\<lambda>i. clk (Suc i))"

definition measurement_header :: "string list" where
  "measurement_header = [''Operation'', ''Takes(s)'', ''Count'', ''OPS'', ''Avg(us)'', ''Min(us)'', ''Max(us)'', ''50th(us)'',
     ''90th(us)'', ''95th(us)'', ''99th(us)'', ''99.9th(us)'', ''99.99th(us)'']"

definition histograms_lines :: "(string, string list) gomap \<Rightarrow> string list list" where
  "histograms_lines summaries = map (\<lambda>op. op # map_index [] summaries op) (sort (map fst summaries))"

definition histograms_Output ::
  "'h hdrlib \<Rightarrow> (string list \<Rightarrow> string list list \<Rightarrow> string) \<Rightarrow> 'h histograms \<Rightarrow> clock \<Rightarrow> string \<Rightarrow> string outcome" where
  "histograms_Output H table h clk w =
     (let lines = histograms_lines (histograms_summary H (histograms_map h) clk);
          outputStyle = GetString (histograms_p h) prop_OutputStyle ''plain''
      in if outputStyle = ''plain'' then RenderString plain_format measurement_header lines w
         else if outputStyle = ''json'' then RenderJson measurement_header lines w
         else if outputStyle = ''table'' then Ret (RenderTable table measurement_header lines w)
         else Panic (''unsupported outputstyle: '' @ outputStyle))"

text \<open>The files of the full spectrum: the name and the text of each, or the panic of \<^verbatim>\<open>os.Create\<close>.\<close>

definition histograms_GenerateExtendedOutputs ::
  "'h hdrlib \<Rightarrow> (string \<Rightarrow> goerror option) \<Rightarrow> 'h histograms \<Rightarrow> (string \<times> string) list outcome" where
  "histograms_GenerateExtendedOutputs H os_Create h =
     (if GetBool (histograms_p h) prop_MeasurementHistogramPercentileExport prop_MeasurementHistogramPercentileExportDefault then
        let path = GetString (histograms_p h) prop_MeasurementHistogramPercentileExportFilepath
              prop_MeasurementHistogramPercentileExportFilepathDefault
        in ofold (\<lambda>(op, opM) files.
             let outFile = path @ op @ ''-percentiles.txt''
             in case os_Create outFile of
                  Some err \<Rightarrow> Panic (''failed to create percentile output file: '' @ err)
                | None \<Rightarrow> Ret (files @ [(outFile, hdr_PercentilesPrint H (hist opM))]))
           (histograms_map h) []
      else Ret [])"

section \<open>CSV\<close>

record csventry =
  startUs :: int
  latencyUs :: int

type_synonym csvs = "(string, csventry list) gomap"

definition InitCSV :: csvs where
  "InitCSV = []"

definition csvs_Measure :: "string \<Rightarrow> int \<Rightarrow> int \<Rightarrow> csvs \<Rightarrow> csvs" where
  "csvs_Measure op start lan c =
     AList.update op (map_index [] c op @ [\<lparr>startUs = UnixMicro start, latencyUs = Microseconds lan\<rparr>]) c"

text \<open>A write to the \<^verbatim>\<open>io.Writer\<close> may fail; the first error ends the output.\<close>

fun csv_write :: "(string \<Rightarrow> 'w \<Rightarrow> goerror option \<times> 'w) \<Rightarrow> string list \<Rightarrow> 'w \<Rightarrow> goerror option \<times> 'w" where
  "csv_write wr [] w = (None, w)"
| "csv_write wr (s # ss) w = (case wr s w of (Some err, w) \<Rightarrow> (Some err, w) | (None, w) \<Rightarrow> csv_write wr ss w)"

definition csv_line :: "string \<Rightarrow> csventry \<Rightarrow> string" where
  "csv_line op e = op @ '','' @ itoa (startUs e) @ '','' @ itoa (latencyUs e) @ [CHR 0x0A]"

definition csvs_Output :: "(string \<Rightarrow> 'w \<Rightarrow> goerror option \<times> 'w) \<Rightarrow> csvs \<Rightarrow> 'w \<Rightarrow> goerror option \<times> 'w" where
  "csvs_Output wr c w = csv_write wr
     ((''operation,timestamp_us,latency_us'' @ [CHR 0x0A]) #
      concat (map (\<lambda>(op, entries). map (csv_line op) entries) c)) w"


section \<open>The global measurement\<close>

datatype 'h measurer = MHistograms "'h histograms" | MCSV csvs

record 'h measurement =
  measurement_p :: properties
  measurer :: "'h measurer"
  promeWriter :: "(string \<times> string) option"

record 'h runtime =
  clock :: clock
  globalMeasure :: "'h measurement option"
  warmUp :: int

definition time_Now :: "'h runtime \<Rightarrow> int \<times> 'h runtime" where
  "time_Now rt = (clock rt 0, rt\<lparr>clock := \<lambda>i. clock rt (Suc i)\<rparr>)"

primrec measurer_Measure ::
  "'h hdrlib \<Rightarrow> string \<Rightarrow> int \<Rightarrow> int \<Rightarrow> 'h measurer \<Rightarrow> clock \<Rightarrow> 'h measurer \<times> clock" where
  "measurer_Measure H op start lan (MHistograms h) clk =
     (let (h, clk) = histograms_Measure H op start lan h clk in (MHistograms h, clk))"
| "measurer_Measure H op start lan (MCSV c) clk = (MCSV (csvs_Measure op start lan c), clk)"

definition measurement_measure ::
  "'h hdrlib \<Rightarrow> string \<Rightarrow> int \<Rightarrow> int \<Rightarrow> 'h runtime \<Rightarrow> 'h runtime outcome" where
  "measurement_measure H op start lan rt = (case globalMeasure rt of
       None \<Rightarrow> Panic ''nil pointer dereference''
     | Some m \<Rightarrow> let (ms, clk) = measurer_Measure H op start lan (measurer m) (clock rt)
         in Ret (rt\<lparr>globalMeasure := Some (m\<lparr>measurer := ms\<rparr>), clock := clk\<rparr>))"

definition EnableWarmUp :: "bool \<Rightarrow> 'h runtime \<Rightarrow> 'h runtime" where
  "EnableWarmUp b rt = rt\<lparr>warmUp := if b then 1 else 0\<rparr>"

definition IsWarmUpFinished :: "'h runtime \<Rightarrow> bool" where
  "IsWarmUpFinished rt \<longleftrightarrow> warmUp rt = 0"

definition Measure :: "'h hdrlib \<Rightarrow> string \<Rightarrow> int \<Rightarrow> int \<Rightarrow> 'h runtime \<Rightarrow> 'h runtime outcome" where
  "Measure H op start lan rt =
     (if IsWarmUpFinished rt then measurement_measure H op start lan rt else Ret rt)"

definition InitMeasure :: "properties \<Rightarrow> 'h runtime \<Rightarrow> 'h runtime outcome" where
  "InitMeasure p rt =
     (let measurementType = GetString p prop_MeasurementType prop_MeasurementTypeDefault
      in obind (if measurementType = ''histogram'' then Ret (MHistograms (InitHistograms p))
           else if measurementType = ''raw'' \<or> measurementType = ''csv'' then Ret (MCSV InitCSV)
           else Panic (''unsupported measurement type: '' @ measurementType))
         (\<lambda>ms. Ret (EnableWarmUp (GetInt64 p prop_WarmUpTime 0 > 0)
           (rt\<lparr>globalMeasure := Some \<lparr>measurement_p = p, measurer = ms, promeWriter = None\<rparr>\<rparr>))))"

definition SetPrometheusConfig :: "string \<Rightarrow> string \<Rightarrow> 'h runtime \<Rightarrow> 'h runtime" where
  "SetPrometheusConfig url benchNo rt = (case globalMeasure rt of
       None \<Rightarrow> rt
     | Some m \<Rightarrow> rt\<lparr>globalMeasure := Some (m\<lparr>promeWriter := Some (url, benchNo)\<rparr>)\<rparr>)"

text \<open>
  \<^verbatim>\<open>output\<close> writes to a file or to standard output (the empty name). The results of \<^verbatim>\<open>os.Create\<close>, of
  the writes and of \<^verbatim>\<open>Flush\<close> are parameters. The flag says that a push to Prometheus is started.
\<close>

definition measurer_Output :: "'h hdrlib \<Rightarrow> (string list \<Rightarrow> string list list \<Rightarrow> string) \<Rightarrow>
    (string \<Rightarrow> string \<Rightarrow> goerror option \<times> string) \<Rightarrow> 'h measurer \<Rightarrow> clock \<Rightarrow> (goerror option \<times> string) outcome" where
  "measurer_Output H table wr ms clk = (case ms of
       MHistograms h \<Rightarrow> obind (histograms_Output H table h clk []) (\<lambda>s. Ret (None, s))
     | MCSV c \<Rightarrow> Ret (csvs_Output wr c []))"

definition measurement_output :: "'h hdrlib \<Rightarrow> (string list \<Rightarrow> string list list \<Rightarrow> string) \<Rightarrow>
    (string \<Rightarrow> goerror option) \<Rightarrow> (string \<Rightarrow> string \<Rightarrow> goerror option \<times> string) \<Rightarrow> goerror option \<Rightarrow>
    'h runtime \<Rightarrow> (string \<times> string \<times> bool) outcome" where
  "measurement_output H table os_Create wr flush rt = (case globalMeasure rt of
       None \<Rightarrow> Panic ''nil pointer dereference''
     | Some m \<Rightarrow>
         let outFile = GetString (measurement_p m) prop_MeasurementRawOutputFile []
         in case (if outFile = [] then None else os_Create outFile) of
              Some err \<Rightarrow> Panic (''failed to create output file: '' @ err)
            | None \<Rightarrow> obind (measurer_Output H table wr (measurer m) (clock rt)) (\<lambda>(e, text). case e of
                Some err \<Rightarrow> Panic (''failed to write output: '' @ err)
              | None \<Rightarrow> (case flush of
                  Some err \<Rightarrow> Panic (''failed to flush output: '' @ err)
                | None \<Rightarrow> Ret (outFile, text, promeWriter m \<noteq> None))))"

text \<open>\<^verbatim>\<open>Summary\<close> writes the histograms to standard output; the CSV measurer writes nothing.\<close>

definition Summary :: "'h hdrlib \<Rightarrow> (string list \<Rightarrow> string list list \<Rightarrow> string) \<Rightarrow> 'h runtime \<Rightarrow> string outcome" where
  "Summary H table rt = (case globalMeasure rt of
       None \<Rightarrow> Panic ''nil pointer dereference''
     | Some m \<Rightarrow> (case measurer m of
         MHistograms h \<Rightarrow> histograms_Output H table h (clock rt) []
       | MCSV c \<Rightarrow> Ret []))"

definition Output :: "'h hdrlib \<Rightarrow> (string list \<Rightarrow> string list list \<Rightarrow> string) \<Rightarrow>
    (string \<Rightarrow> goerror option) \<Rightarrow> (string \<Rightarrow> string \<Rightarrow> goerror option \<times> string) \<Rightarrow> goerror option \<Rightarrow>
    'h runtime \<Rightarrow> ((string \<times> string) list \<times> string \<times> string \<times> bool) outcome" where
  "Output H table os_Create wr flush rt = (case globalMeasure rt of
       None \<Rightarrow> Panic ''nil pointer dereference''
     | Some m \<Rightarrow> obind (case measurer m of
           MHistograms h \<Rightarrow> histograms_GenerateExtendedOutputs H os_Create h
         | MCSV c \<Rightarrow> Ret [])
         (\<lambda>files. obind (measurement_output H table os_Create wr flush rt) (\<lambda>out. Ret (files, out))))"


section \<open>Samples\<close>

text \<open>
  What a client of a measurer relies on: a measured latency adds one sample to its operation and
  leaves the others alone. \<open>in_range\<close> says which latencies are kept.
\<close>

locale sample_counter =
  fixes meas_ok :: "'m \<Rightarrow> bool"
    and in_range :: "int \<Rightarrow> bool"
    and smp :: "'m \<Rightarrow> string \<Rightarrow> int"
    and meas :: "string \<Rightarrow> int \<Rightarrow> int \<Rightarrow> 'm \<Rightarrow> clock \<Rightarrow> 'm \<times> clock"
  assumes meas_step: "meas_ok m \<Longrightarrow> in_range lan \<Longrightarrow> meas op start lan m clk = (m', clk') \<Longrightarrow>
    meas_ok m' \<and> smp m' o' = smp m o' + (if o' = op then 1 else 0)"
begin

lemma meas_okI: "meas_ok m \<Longrightarrow> in_range lan \<Longrightarrow> meas op start lan m clk = (m', clk') \<Longrightarrow> meas_ok m'"
  using meas_step by blast

lemma smp_meas: "meas_ok m \<Longrightarrow> in_range lan \<Longrightarrow> meas op start lan m clk = (m', clk') \<Longrightarrow>
    smp m' o' = smp m o' + (if o' = op then 1 else 0)"
  using meas_step by blast

fun measure_all :: "(string \<times> int \<times> int) list \<Rightarrow> 'm \<Rightarrow> clock \<Rightarrow> 'm \<times> clock" where
  "measure_all [] m clk = (m, clk)"
| "measure_all ((op, st, lan) # es) m clk = (let (m, clk) = meas op st lan m clk in measure_all es m clk)"

lemma smp_measure_all:
  "meas_ok m \<Longrightarrow> \<forall>(op, st, lan) \<in> set es. in_range lan \<Longrightarrow>
     smp (fst (measure_all es m clk)) o' = smp m o' + int (count_list (map fst es) o')"
proof (induction es m clk rule: measure_all.induct)
  case (2 op st lan es m clk)
  obtain m1 clk1 where m1: "meas op st lan m clk = (m1, clk1)" by fastforce
  have lan: "in_range lan" using 2 by simp
  show ?case using 2 m1 meas_okI [OF _ lan m1] smp_meas [OF _ lan m1] by (simp add: ac_simps)
qed simp

end

text \<open>
  The documented behaviour of the HDR histogram that the program relies on: a new histogram is
  empty, and a value between zero and its highest trackable value is recorded.
\<close>

inductive hdr_reach :: "'h hdrlib \<Rightarrow> 'h \<Rightarrow> bool" for H where
  hdr_reach_New: "hdr_reach H (hdr_New H 1 86400000000 3)"
| hdr_reach_Record: "hdr_reach H h \<Longrightarrow> hdr_reach H (snd (hdr_RecordValue H v h))"

definition hdr_laws :: "'h hdrlib \<Rightarrow> bool" where
  "hdr_laws H \<longleftrightarrow> hdr_TotalCount H (hdr_New H 1 86400000000 3) = 0 \<and>
     (\<forall>h v. hdr_reach H h \<longrightarrow> 0 \<le> v \<longrightarrow> v \<le> 86400000000 \<longrightarrow>
        hdr_TotalCount H (snd (hdr_RecordValue H v h)) = hdr_TotalCount H h + 1)"

definition latency_ok :: "int \<Rightarrow> bool" where
  "latency_ok lan \<longleftrightarrow> 0 \<le> lan \<and> lan \<le> 86400000000000"

definition measurer_ok :: "'h hdrlib \<Rightarrow> 'h measurer \<Rightarrow> bool" where
  "measurer_ok H ms = (case ms of
       MHistograms h \<Rightarrow> hdr_laws H \<and> (\<forall>(op, opM) \<in> set (histograms_map h). hdr_reach H (hist opM)) \<and>
         wf_map (histograms_map h)
     | MCSV c \<Rightarrow> wf_map c)"

definition samples :: "'h hdrlib \<Rightarrow> 'h measurer \<Rightarrow> string \<Rightarrow> int" where
  "samples H ms op = (case ms of
       MHistograms h \<Rightarrow> (case map_of (histograms_map h) op of Some opM \<Rightarrow> hdr_TotalCount H (hist opM) | None \<Rightarrow> 0)
     | MCSV c \<Rightarrow> int (length (map_index [] c op)))"

lemma Microseconds_range: "latency_ok lan \<Longrightarrow> 0 \<le> Microseconds lan \<and> Microseconds lan \<le> 86400000000"
  by (auto simp: latency_ok_def Microseconds_def sdiv_nonneg)

lemma hdr_reach_map: "measurer_ok H (MHistograms h) \<Longrightarrow> map_of (histograms_map h) op = Some opM \<Longrightarrow> hdr_reach H (hist opM)"
  by (auto simp: measurer_ok_def dest!: map_of_SomeD)

lemma set_update: "(k', v') \<in> set (AList.update k v m) \<Longrightarrow> (k', v') = (k, v) \<or> (k', v') \<in> set m"
  by (induction m) (auto split: if_splits)

lemma histograms_Measure_step:
  assumes "measurer_ok H (MHistograms h)" "latency_ok lan" "histograms_Measure H op st lan h clk = (h', clk')"
  shows "measurer_ok H (MHistograms h') \<and>
    samples H (MHistograms h') o' = samples H (MHistograms h) o' + (if o' = op then 1 else 0)"
proof -
  define opM where "opM = (case map_of (histograms_map h) op of Some opM \<Rightarrow> opM | None \<Rightarrow> newHistogram H (clk 0))"
  have h': "h' = h\<lparr>histograms_map := AList.update op (histogram_Measure H lan opM) (histograms_map h)\<rparr>"
    using assms(3) by (auto simp: histograms_Measure_def opM_def split: option.splits)
  have laws: "hdr_laws H" using assms(1) by (simp add: measurer_ok_def)
  have reach: "hdr_reach H (hist opM)"
    using hdr_reach_map [OF assms(1), of op] hdr_reach_New [of H]
    by (auto simp: opM_def newHistogram_def split: option.splits)
  then have cnt: "hdr_TotalCount H (hist (histogram_Measure H lan opM)) = hdr_TotalCount H (hist opM) + 1"
    using laws Microseconds_range [OF assms(2)] by (simp add: hdr_laws_def histogram_Measure_def)
  have old: "hdr_TotalCount H (hist opM) = samples H (MHistograms h) op"
    using laws by (auto simp: opM_def samples_def newHistogram_def hdr_laws_def split: option.splits)
  have "hdr_reach H (hist (histogram_Measure H lan opM))"
    using hdr_reach_Record [OF reach] by (simp add: histogram_Measure_def)
  then have "measurer_ok H (MHistograms h')"
    using assms(1) by (auto simp: measurer_ok_def h' dest!: set_update)
  then show ?thesis using cnt old by (simp add: samples_def h' update_conv')
qed

lemma csvs_Measure_step:
  assumes "wf_map c"
  shows "wf_map (csvs_Measure op st lan c) \<and>
    length (map_index [] (csvs_Measure op st lan c) o') = length (map_index [] c o') + (if o' = op then 1 else 0)"
  using assms by (simp add: csvs_Measure_def map_index_def update_conv')

interpretation ms: sample_counter "measurer_ok H" latency_ok "samples H" "measurer_Measure H"
proof
  fix m lan op start clk m' clk' o'
  assume m: "measurer_ok H m" "latency_ok lan" "measurer_Measure H op start lan m clk = (m', clk')"
  show "measurer_ok H m' \<and> samples H m' o' = samples H m o' + (if o' = op then 1 else 0)"
  proof (cases m)
    case (MHistograms h)
    obtain h' clk1 where h': "histograms_Measure H op start lan h clk = (h', clk1)" by fastforce
    then have "m' = MHistograms h'" using m(3) by (simp add: MHistograms)
    then show ?thesis using histograms_Measure_step [OF _ m(2) h'] m(1) by (simp only: MHistograms)
  next
    case (MCSV c)
    then have "m' = MCSV (csvs_Measure op start lan c)" "wf_map c" using m(1,3) by (simp_all add: measurer_ok_def)
    then show ?thesis
      using csvs_Measure_step [of c op start lan o'] by (simp only: MCSV measurer_ok_def samples_def measurer.case) simp
  qed
qed

text \<open>A latency out of range does no harm to the measurer.\<close>

lemma measurer_Measure_ok:
  assumes "measurer_ok H m" "measurer_Measure H op st lan m clk = (m', clk')"
  shows "measurer_ok H m'"
proof (cases m)
  case (MHistograms h)
  define opM where "opM = (case map_of (histograms_map h) op of Some opM \<Rightarrow> opM | None \<Rightarrow> newHistogram H (clk 0))"
  have m': "m' = MHistograms (h\<lparr>histograms_map := AList.update op (histogram_Measure H lan opM) (histograms_map h)\<rparr>)"
    using assms(2) by (auto simp: MHistograms histograms_Measure_def opM_def split: option.splits)
  have "hdr_reach H (hist opM)"
    using hdr_reach_map [of H h op] assms(1) hdr_reach_New [of H]
    by (auto simp: MHistograms opM_def newHistogram_def split: option.splits)
  then have "hdr_reach H (hist (histogram_Measure H lan opM))"
    using hdr_reach_Record by (simp add: histogram_Measure_def)
  then show ?thesis using assms(1) by (auto simp: measurer_ok_def m' MHistograms dest!: set_update)
next
  case (MCSV c)
  then show ?thesis using assms csvs_Measure_step [of c op st lan] by (auto simp: measurer_ok_def)
qed

end
