(* ===== verification/Ycsb.thy ===== *)
theory Ycsb
  imports Prelude
begin

text \<open>
  The interfaces of \<^verbatim>\<open>pkg/ycsb\<close>: the database layer with its optional parts, and the registries of
  database and workload creators.

  A database layer is a record of functions on its state \<open>'d\<close>; \<open>'c\<close> is what its \<^verbatim>\<open>InitThread\<close> puts into the
  context of a worker. The optional interfaces, which the code finds by a type assertion, are the
  optional fields. A call that yields a value and an error gives one of the two: the callers drop the
  value when the error is not nil. A nil map or slice is the empty one, as every reader treats it.
\<close>

text \<open>What \<^verbatim>\<open>ctx.Err()\<close> gives once \<^verbatim>\<open>ctx.Done()\<close> is closed. A context is the sequence of what its
  observers see, \<open>None\<close> while it is open.\<close>

datatype ctx_err = Canceled | DeadlineExceeded

type_synonym ctx = "nat \<Rightarrow> ctx_err option"

definition ctx_open :: ctx where
  "ctx_open = (\<lambda>_. None)"

type_synonym ('d, 'a) dbop = "'d \<Rightarrow> ('a \<times> 'd) outcome"

record ('c, 'd) BatchDB =
  BatchInsert :: "'c \<Rightarrow> string \<Rightarrow> string list \<Rightarrow> row list \<Rightarrow> ('d, goerror option) dbop"
  BatchRead :: "'c \<Rightarrow> string \<Rightarrow> string list \<Rightarrow> string list \<Rightarrow> ('d, goerror + row list) dbop"
  BatchUpdate :: "'c \<Rightarrow> string \<Rightarrow> string list \<Rightarrow> row list \<Rightarrow> ('d, goerror option) dbop"
  BatchDelete :: "'c \<Rightarrow> string \<Rightarrow> string list \<Rightarrow> ('d, goerror option) dbop"

record ('c, 'd) DB =
  db_Close :: "('d, goerror option) dbop"
  db_InitThread :: "int \<Rightarrow> int \<Rightarrow> ('d, 'c) dbop"
  db_CleanupThread :: "'c \<Rightarrow> 'd \<Rightarrow> 'd outcome"
  db_Read :: "'c \<Rightarrow> string \<Rightarrow> string \<Rightarrow> string list \<Rightarrow> ('d, goerror + row) dbop"
  db_Scan :: "'c \<Rightarrow> string \<Rightarrow> string \<Rightarrow> int \<Rightarrow> string list \<Rightarrow> ('d, goerror + row list) dbop"
  db_Update :: "'c \<Rightarrow> string \<Rightarrow> string \<Rightarrow> row \<Rightarrow> ('d, goerror option) dbop"
  db_Insert :: "'c \<Rightarrow> string \<Rightarrow> string \<Rightarrow> row \<Rightarrow> ('d, goerror option) dbop"
  db_Delete :: "'c \<Rightarrow> string \<Rightarrow> string \<Rightarrow> ('d, goerror option) dbop"
  db_Batch :: "('c, 'd) BatchDB option"
  db_Analyze :: "('c \<Rightarrow> string \<Rightarrow> ('d, goerror option) dbop) option"
  db_Count :: "('c \<Rightarrow> string \<Rightarrow> ('d, goerror + int) dbop) option"
  db_Clean :: "('c \<Rightarrow> string \<Rightarrow> ('d, goerror option) dbop) option"

text \<open>The error of a call.\<close>

definition err_of :: "goerror + 'a \<Rightarrow> goerror option" where
  "err_of res = (case res of Inl e \<Rightarrow> Some e | Inr _ \<Rightarrow> None)"

lemma err_of_simps [simp]: "err_of (Inl e) = Some e" "err_of (Inr x) = None"
  by (simp_all add: err_of_def)


section \<open>Registries\<close>

definition RegisterDBCreator :: "string \<Rightarrow> 'v \<Rightarrow> (string, 'v) gomap \<Rightarrow> (string, 'v) gomap outcome" where
  "RegisterDBCreator name creator m =
     (if map_of m name \<noteq> None then Panic (''duplicate register database '' @ name)
      else Ret (AList.update name creator m))"

definition GetDBCreator :: "(string, 'v) gomap \<Rightarrow> string \<Rightarrow> 'v option" where
  "GetDBCreator m name = map_of m name"

definition RegisterWorkloadCreator :: "string \<Rightarrow> 'v \<Rightarrow> (string, 'v) gomap \<Rightarrow> (string, 'v) gomap outcome" where
  "RegisterWorkloadCreator name creator m =
     (if map_of m name \<noteq> None then Panic (''duplicate register workload '' @ name)
      else Ret (AList.update name creator m))"

definition GetWorkloadCreator :: "(string, 'v) gomap \<Rightarrow> string \<Rightarrow> 'v option" where
  "GetWorkloadCreator m name = map_of m name"

lemma RegisterDBCreator_get:
  "RegisterDBCreator name creator m = Ret m' \<Longrightarrow>
     GetDBCreator m' n = (if n = name then Some creator else GetDBCreator m n)"
  by (auto simp: RegisterDBCreator_def GetDBCreator_def update_conv' split: if_splits)

lemma RegisterDBCreator_duplicate:
  "is_ret (RegisterDBCreator name creator m) \<longleftrightarrow> GetDBCreator m name = None"
  by (simp add: RegisterDBCreator_def GetDBCreator_def)

end
