(* ===== verification/DbWrapper.thy ===== *)
theory DbWrapper
  imports Measurement Ycsb
begin

text \<open>
  The measuring wrapper around a database layer (\<^verbatim>\<open>pkg/client/dbwrapper.go\<close>). It adds the measurements
  of \<open>runtime\<close> to the state of the layer it wraps. The wrapper itself implements every optional
  interface; where the wrapped layer lacks one, it falls back or gives an error.
\<close>

type_synonym ('h, 'd) world = "'h runtime \<times> 'd"

definition db_measure :: "'h hdrlib \<Rightarrow> int \<Rightarrow> string \<Rightarrow> goerror option \<Rightarrow> 'h runtime \<Rightarrow> 'h runtime outcome" where
  "db_measure H start op err rt =
     (let (now, rt) = time_Now rt; lan = time_Sub now start
      in case err of
           Some _ \<Rightarrow> Measure H (op @ ''_ERROR'') start lan rt
         | None \<Rightarrow> obind (Measure H op start lan rt) (Measure H ''TOTAL'' start lan))"

text \<open>The shape that the methods share: read the clock, call, and measure in the deferred function.\<close>

definition measured ::
  "'h hdrlib \<Rightarrow> string \<Rightarrow> ('a \<Rightarrow> goerror option) \<Rightarrow> ('d, 'a) dbop \<Rightarrow> (('h, 'd) world, 'a) dbop" where
  "measured H op err call w =
     (let (rt, d) = w; (start, rt) = time_Now rt
      in obind (call d) (\<lambda>(res, d). obind (db_measure H start op (err res) rt) (\<lambda>rt. Ret (res, rt, d))))"

definition unmeasured :: "('d, 'a) dbop \<Rightarrow> (('h, 'd) world, 'a) dbop" where
  "unmeasured call w = (let (rt, d) = w in obind (call d) (\<lambda>(res, d). Ret (res, rt, d)))"

text \<open>The fallback loops: one call for each key, up to the first error.\<close>

fun each_key :: "(string \<Rightarrow> ('d, goerror option) dbop) \<Rightarrow> string list \<Rightarrow> ('d, goerror option) dbop" where
  "each_key f [] d = Ret (None, d)"
| "each_key f (k # ks) d = obind (f k d) (\<lambda>(e, d). case e of Some err \<Rightarrow> Ret (Some err, d) | None \<Rightarrow> each_key f ks d)"

fun each_pair :: "(string \<Rightarrow> row \<Rightarrow> ('d, goerror option) dbop) \<Rightarrow> string list \<Rightarrow> row list \<Rightarrow> ('d, goerror option) dbop" where
  "each_pair f [] vs d = Ret (None, d)"
| "each_pair f (k # ks) [] d = Panic ''index out of range''"
| "each_pair f (k # ks) (v # vs) d =
     obind (f k v d) (\<lambda>(e, d). case e of Some err \<Rightarrow> Ret (Some err, d) | None \<Rightarrow> each_pair f ks vs d)"

definition wrap_Close :: "('c, 'd) DB \<Rightarrow> (('h, 'd) world, goerror option) dbop" where
  "wrap_Close db = unmeasured (db_Close db)"

definition wrap_InitThread :: "('c, 'd) DB \<Rightarrow> int \<Rightarrow> int \<Rightarrow> (('h, 'd) world, 'c) dbop" where
  "wrap_InitThread db threadID threadCount = unmeasured (db_InitThread db threadID threadCount)"

definition wrap_CleanupThread :: "('c, 'd) DB \<Rightarrow> 'c \<Rightarrow> ('h, 'd) world \<Rightarrow> ('h, 'd) world outcome" where
  "wrap_CleanupThread db c w = (let (rt, d) = w in obind (db_CleanupThread db c d) (\<lambda>d. Ret (rt, d)))"

definition wrap_Read :: "'h hdrlib \<Rightarrow> ('c, 'd) DB \<Rightarrow> 'c \<Rightarrow> string \<Rightarrow> string \<Rightarrow> string list \<Rightarrow>
    (('h, 'd) world, goerror + row) dbop" where
  "wrap_Read H db c table key flds = measured H ''READ'' err_of (db_Read db c table key flds)"

definition wrap_BatchRead :: "'h hdrlib \<Rightarrow> ('c, 'd) DB \<Rightarrow> 'c \<Rightarrow> string \<Rightarrow> string list \<Rightarrow> string list \<Rightarrow>
    (('h, 'd) world, goerror + row list) dbop" where
  "wrap_BatchRead H db c table keys flds = (case db_Batch db of
       Some batchDB \<Rightarrow> measured H ''BATCH_READ'' err_of (BatchRead batchDB c table keys flds)
     | None \<Rightarrow> (\<lambda>w. obind (unmeasured (each_key (\<lambda>key d.
           obind (db_Read db c table key flds d) (\<lambda>(res, d). Ret (err_of res, d))) keys) w)
         (\<lambda>(e, w). Ret (case e of Some err \<Rightarrow> Inl err | None \<Rightarrow> Inr [], w))))"

definition wrap_Scan :: "'h hdrlib \<Rightarrow> ('c, 'd) DB \<Rightarrow> 'c \<Rightarrow> string \<Rightarrow> string \<Rightarrow> int \<Rightarrow> string list \<Rightarrow>
    (('h, 'd) world, goerror + row list) dbop" where
  "wrap_Scan H db c table startKey n flds = measured H ''SCAN'' err_of (db_Scan db c table startKey n flds)"

definition wrap_Update :: "'h hdrlib \<Rightarrow> ('c, 'd) DB \<Rightarrow> 'c \<Rightarrow> string \<Rightarrow> string \<Rightarrow> row \<Rightarrow>
    (('h, 'd) world, goerror option) dbop" where
  "wrap_Update H db c table key vals = measured H ''UPDATE'' id (db_Update db c table key vals)"

definition wrap_BatchUpdate :: "'h hdrlib \<Rightarrow> ('c, 'd) DB \<Rightarrow> 'c \<Rightarrow> string \<Rightarrow> string list \<Rightarrow> row list \<Rightarrow>
    (('h, 'd) world, goerror option) dbop" where
  "wrap_BatchUpdate H db c table keys vals = (case db_Batch db of
       Some batchDB \<Rightarrow> measured H ''BATCH_UPDATE'' id (BatchUpdate batchDB c table keys vals)
     | None \<Rightarrow> unmeasured (each_pair (db_Update db c table) keys vals))"

definition wrap_Insert :: "'h hdrlib \<Rightarrow> ('c, 'd) DB \<Rightarrow> 'c \<Rightarrow> string \<Rightarrow> string \<Rightarrow> row \<Rightarrow>
    (('h, 'd) world, goerror option) dbop" where
  "wrap_Insert H db c table key vals = measured H ''INSERT'' id (db_Insert db c table key vals)"

definition wrap_BatchInsert :: "'h hdrlib \<Rightarrow> ('c, 'd) DB \<Rightarrow> 'c \<Rightarrow> string \<Rightarrow> string list \<Rightarrow> row list \<Rightarrow>
    (('h, 'd) world, goerror option) dbop" where
  "wrap_BatchInsert H db c table keys vals = (case db_Batch db of
       Some batchDB \<Rightarrow> measured H ''BATCH_INSERT'' id (BatchInsert batchDB c table keys vals)
     | None \<Rightarrow> unmeasured (each_pair (db_Insert db c table) keys vals))"

definition wrap_Delete :: "'h hdrlib \<Rightarrow> ('c, 'd) DB \<Rightarrow> 'c \<Rightarrow> string \<Rightarrow> string \<Rightarrow>
    (('h, 'd) world, goerror option) dbop" where
  "wrap_Delete H db c table key = measured H ''DELETE'' id (db_Delete db c table key)"

definition wrap_BatchDelete :: "'h hdrlib \<Rightarrow> ('c, 'd) DB \<Rightarrow> 'c \<Rightarrow> string \<Rightarrow> string list \<Rightarrow>
    (('h, 'd) world, goerror option) dbop" where
  "wrap_BatchDelete H db c table keys = (case db_Batch db of
       Some batchDB \<Rightarrow> measured H ''BATCH_DELETE'' id (BatchDelete batchDB c table keys)
     | None \<Rightarrow> unmeasured (each_key (db_Delete db c table) keys))"

definition wrap_Analyze :: "('c, 'd) DB \<Rightarrow> 'c \<Rightarrow> string \<Rightarrow> (('h, 'd) world, goerror option) dbop" where
  "wrap_Analyze db c table = (case db_Analyze db of
       Some analyze \<Rightarrow> unmeasured (analyze c table)
     | None \<Rightarrow> (\<lambda>w. Ret (None, w)))"

definition wrap_Count :: "'h hdrlib \<Rightarrow> ('c, 'd) DB \<Rightarrow> 'c \<Rightarrow> string \<Rightarrow> (('h, 'd) world, goerror + int) dbop" where
  "wrap_Count H db c table = (case db_Count db of
       Some cnt \<Rightarrow> measured H ''COUNT'' err_of (cnt c table)
     | None \<Rightarrow> (\<lambda>w. Ret (Inl ''database does not implement CountDB interface'', w)))"

definition wrap_Clean :: "'h hdrlib \<Rightarrow> ('c, 'd) DB \<Rightarrow> 'c \<Rightarrow> string \<Rightarrow> (('h, 'd) world, goerror option) dbop" where
  "wrap_Clean H db c table = (case db_Clean db of
       Some clean \<Rightarrow> measured H ''CLEAN'' id (clean c table)
     | None \<Rightarrow> (\<lambda>w. Ret (Some ''database does not implement CleanDB interface'', w)))"

definition DbWrapper :: "'h hdrlib \<Rightarrow> ('c, 'd) DB \<Rightarrow> ('c, ('h, 'd) world) DB" where
  "DbWrapper H db =
     \<lparr>db_Close = wrap_Close db, db_InitThread = wrap_InitThread db, db_CleanupThread = wrap_CleanupThread db,
      db_Read = wrap_Read H db, db_Scan = wrap_Scan H db, db_Update = wrap_Update H db,
      db_Insert = wrap_Insert H db, db_Delete = wrap_Delete H db,
      db_Batch = Some \<lparr>BatchInsert = wrap_BatchInsert H db, BatchRead = wrap_BatchRead H db,
        BatchUpdate = wrap_BatchUpdate H db, BatchDelete = wrap_BatchDelete H db\<rparr>,
      db_Analyze = Some (wrap_Analyze db), db_Count = Some (wrap_Count H db), db_Clean = Some (wrap_Clean H db)\<rparr>"

section \<open>Calls through the wrapper and without it\<close>

text \<open>The calls of a database layer, and their results.\<close>

datatype dbcall =
    CRead string string "string list"
  | CScan string string int "string list"
  | CUpdate string string row
  | CInsert string string row
  | CDelete string string
  | CBatchInsert string "string list" "row list"
  | CBatchRead string "string list" "string list"
  | CBatchUpdate string "string list" "row list"
  | CBatchDelete string "string list"
  | CCount string
  | CClean string

datatype dbresult = RErr "goerror option" | RRow "goerror + row" | RRows "goerror + row list" | RCount "goerror + int"

primrec result_err :: "dbresult \<Rightarrow> goerror option" where
  "result_err (RErr e) = e"
| "result_err (RRow res) = err_of res"
| "result_err (RRows res) = err_of res"
| "result_err (RCount res) = err_of res"

definition as_result :: "('a \<Rightarrow> dbresult) \<Rightarrow> ('d, 'a) dbop \<Rightarrow> ('d, dbresult) dbop" where
  "as_result f call d = obind (call d) (\<lambda>(res, d). Ret (f res, d))"

text \<open>A call of a layer with all interfaces, such as the wrapper. \<open>None\<close> is an interface that is missing.\<close>

fun db_call :: "('c, 'd) DB \<Rightarrow> 'c \<Rightarrow> dbcall \<Rightarrow> ('d, dbresult) dbop option" where
  "db_call db c (CRead t k fs) = Some (as_result RRow (db_Read db c t k fs))"
| "db_call db c (CScan t k n fs) = Some (as_result RRows (db_Scan db c t k n fs))"
| "db_call db c (CUpdate t k v) = Some (as_result RErr (db_Update db c t k v))"
| "db_call db c (CInsert t k v) = Some (as_result RErr (db_Insert db c t k v))"
| "db_call db c (CDelete t k) = Some (as_result RErr (db_Delete db c t k))"
| "db_call db c (CBatchInsert t ks vs) = map_option (\<lambda>b. as_result RErr (BatchInsert b c t ks vs)) (db_Batch db)"
| "db_call db c (CBatchRead t ks fs) = map_option (\<lambda>b. as_result RRows (BatchRead b c t ks fs)) (db_Batch db)"
| "db_call db c (CBatchUpdate t ks vs) = map_option (\<lambda>b. as_result RErr (BatchUpdate b c t ks vs)) (db_Batch db)"
| "db_call db c (CBatchDelete t ks) = map_option (\<lambda>b. as_result RErr (BatchDelete b c t ks)) (db_Batch db)"
| "db_call db c (CCount t) = map_option (\<lambda>f. as_result RCount (f c t)) (db_Count db)"
| "db_call db c (CClean t) = map_option (\<lambda>f. as_result RErr (f c t)) (db_Clean db)"

primrec op_name :: "dbcall \<Rightarrow> string" where
  "op_name (CRead t k fs) = ''READ''"
| "op_name (CScan t k n fs) = ''SCAN''"
| "op_name (CUpdate t k v) = ''UPDATE''"
| "op_name (CInsert t k v) = ''INSERT''"
| "op_name (CDelete t k) = ''DELETE''"
| "op_name (CBatchInsert t ks vs) = ''BATCH_INSERT''"
| "op_name (CBatchRead t ks fs) = ''BATCH_READ''"
| "op_name (CBatchUpdate t ks vs) = ''BATCH_UPDATE''"
| "op_name (CBatchDelete t ks) = ''BATCH_DELETE''"
| "op_name (CCount t) = ''COUNT''"
| "op_name (CClean t) = ''CLEAN''"

text \<open>The calls of a client in a row, with their results.\<close>

fun db_calls :: "('c, 'd) DB \<Rightarrow> 'c \<Rightarrow> dbcall list \<Rightarrow> ('d, dbresult list) dbop" where
  "db_calls db c [] d = Ret ([], d)"
| "db_calls db c (a # as) d = (case db_call db c a of
       None \<Rightarrow> Panic ''interface conversion''
     | Some f \<Rightarrow> obind (f d) (\<lambda>(res, d). obind (db_calls db c as d) (\<lambda>(ress, d). Ret (res # ress, d))))"


section \<open>What a call records\<close>

text \<open>The number of samples that a call named \<open>op\<close> with the error \<open>err\<close> adds to the name \<open>o'\<close>.\<close>

definition sample_inc :: "string \<Rightarrow> goerror option \<Rightarrow> string \<Rightarrow> int" where
  "sample_inc op err o' = (case err of
       Some _ \<Rightarrow> (if o' = op @ ''_ERROR'' then 1 else 0)
     | None \<Rightarrow> (if o' = op then 1 else 0) + (if o' = ''TOTAL'' then 1 else 0))"

text \<open>A clock that never goes back and stays within a day.\<close>

definition clock_ok :: "clock \<Rightarrow> bool" where
  "clock_ok clk \<longleftrightarrow> (\<forall>i j. i \<le> j \<longrightarrow> latency_ok (clk j - clk i))"

text \<open>The warm-up is over and the measurement is initialised.\<close>

definition measuring :: "'h hdrlib \<Rightarrow> 'h runtime \<Rightarrow> bool" where
  "measuring H rt \<longleftrightarrow> IsWarmUpFinished rt \<and> clock_ok (clock rt) \<and>
     (\<exists>m. globalMeasure rt = Some m \<and> measurer_ok H (measurer m))"

definition rt_samples :: "'h hdrlib \<Rightarrow> 'h runtime \<Rightarrow> string \<Rightarrow> int" where
  "rt_samples H rt op = (case globalMeasure rt of Some m \<Rightarrow> samples H (measurer m) op | None \<Rightarrow> 0)"

text \<open>The readings that are left of a clock.\<close>

definition clock_rest :: "clock \<Rightarrow> clock \<Rightarrow> bool" where
  "clock_rest clk clk' \<longleftrightarrow> (\<exists>k. clk' = (\<lambda>i. clk (i + k)))"

lemma clock_rest_refl [simp]: "clock_rest clk clk"
  by (auto simp: clock_rest_def intro: exI [of _ 0])

lemma clock_rest_Suc [simp]: "clock_rest clk (\<lambda>i. clk (Suc i))"
  by (auto simp: clock_rest_def intro: exI [of _ 1])

lemma clock_rest_ok: "clock_rest clk clk' \<Longrightarrow> clock_ok clk \<Longrightarrow> clock_ok clk'"
  by (auto simp: clock_rest_def clock_ok_def)

lemma measurer_Measure_clock: "measurer_Measure H op st lan ms clk = (ms', clk') \<Longrightarrow> clock_rest clk clk'"
  by (cases ms) (auto simp: histograms_Measure_def split: option.splits prod.splits)

lemma Measure_samples:
  assumes "measuring H rt" "latency_ok lan"
  shows "\<exists>rt'. Measure H op st lan rt = Ret rt' \<and> measuring H rt' \<and>
    (\<forall>o'. rt_samples H rt' o' = rt_samples H rt o' + (if o' = op then 1 else 0))"
proof -
  obtain m where m: "globalMeasure rt = Some m" "measurer_ok H (measurer m)" "clock_ok (clock rt)" "IsWarmUpFinished rt"
    using assms(1) by (auto simp: measuring_def)
  obtain ms clk where ms: "measurer_Measure H op st lan (measurer m) (clock rt) = (ms, clk)" by fastforce
  note step = ms.meas_okI [OF m(2) assms(2) ms] ms.smp_meas [OF m(2) assms(2) ms]
  have "clock_ok clk" using clock_rest_ok [OF measurer_Measure_clock [OF ms] m(3)] .
  then show ?thesis
    using m(4) step by (simp add: Measure_def measurement_measure_def m(1) ms measuring_def IsWarmUpFinished_def rt_samples_def)
qed

lemma Measure_measuring:
  assumes "measuring H rt"
  shows "\<exists>rt'. Measure H op st lan rt = Ret rt' \<and> measuring H rt'"
proof -
  obtain m where m: "globalMeasure rt = Some m" "measurer_ok H (measurer m)" "clock_ok (clock rt)" "IsWarmUpFinished rt"
    using assms by (auto simp: measuring_def)
  obtain ms clk where ms: "measurer_Measure H op st lan (measurer m) (clock rt) = (ms, clk)" by fastforce
  show ?thesis
    using m(4) measurer_Measure_ok [OF m(2) ms] clock_rest_ok [OF measurer_Measure_clock [OF ms] m(3)]
    by (simp add: Measure_def measurement_measure_def m(1) ms measuring_def IsWarmUpFinished_def)
qed

lemma time_Now_measuring:
  assumes "measuring H rt" "time_Now rt = (t, rt')"
  shows "measuring H rt'" "rt_samples H rt' = rt_samples H rt" "t = clock rt 0" "clock rt' = (\<lambda>i. clock rt (Suc i))"
  using assms by (auto simp: time_Now_def measuring_def IsWarmUpFinished_def rt_samples_def
      intro: clock_rest_ok [OF clock_rest_Suc])

lemma latency_time_Sub: "latency_ok (t - u) \<Longrightarrow> latency_ok (time_Sub t u)"
  by (auto simp: latency_ok_def time_Sub_def)

lemma db_measure_samples:
  assumes "measuring H rt" "latency_ok (clock rt 0 - start)"
  shows "\<exists>rt'. db_measure H start op err rt = Ret rt' \<and> measuring H rt' \<and>
    (\<forall>o'. rt_samples H rt' o' = rt_samples H rt o' + sample_inc op err o')"
proof -
  obtain now rt1 where t: "time_Now rt = (now, rt1)" by fastforce
  note rt1 = time_Now_measuring [OF assms(1) t]
  have lan: "latency_ok (time_Sub now start)" using assms(2) rt1(3) by (simp add: latency_time_Sub)
  show ?thesis
  proof (cases err)
    case (Some e)
    then show ?thesis
      using Measure_samples [OF rt1(1) lan, of "op @ ''_ERROR''" start] rt1(2)
      by (simp add: db_measure_def t sample_inc_def)
  next
    case None
    obtain rt2 where rt2: "Measure H op start (time_Sub now start) rt1 = Ret rt2" "measuring H rt2"
      "\<forall>o'. rt_samples H rt2 o' = rt_samples H rt1 o' + (if o' = op then 1 else 0)"
      using Measure_samples [OF rt1(1) lan] by blast
    show ?thesis
      using Measure_samples [OF rt2(2) lan, of "''TOTAL''" start] rt2 rt1(2)
      by (auto simp: db_measure_def t None sample_inc_def)
  qed
qed

lemma measured_samples:
  assumes "measuring H rt" "call d = Ret (res, d')"
  shows "\<exists>rt'. measured H op err call (rt, d) = Ret (res, rt', d') \<and> measuring H rt' \<and>
    (\<forall>o'. rt_samples H rt' o' = rt_samples H rt o' + sample_inc op (err res) o')"
proof -
  obtain start rt1 where t: "time_Now rt = (start, rt1)" by fastforce
  note rt1 = time_Now_measuring [OF assms(1) t]
  have "latency_ok (clock rt1 0 - start)"
    using assms(1) rt1(3,4) by (simp add: measuring_def clock_ok_def)
  then show ?thesis
    using db_measure_samples [OF rt1(1), of start op "err res"] rt1(2) assms(2)
    by (auto simp: measured_def t)
qed

lemma as_result_eq_Ret:
  "as_result f call d = Ret (res, d') \<longleftrightarrow> (\<exists>r. call d = Ret (r, d') \<and> res = f r)"
  by (auto simp: as_result_def obind_eq_Ret)

text \<open>One call: its result and the state of the layer are those of the call without the wrapper.\<close>

lemma as_result_measured:
  assumes "measuring H rt" "as_result f call d = Ret (res, d')" "\<And>r. err r = result_err (f r)"
  shows "\<exists>rt'. as_result f (measured H op err call) (rt, d) = Ret (res, rt', d') \<and> measuring H rt' \<and>
    (\<forall>o'. rt_samples H rt' o' = rt_samples H rt o' + sample_inc op (result_err res) o')"
proof -
  obtain r where r: "call d = Ret (r, d')" "res = f r" using assms(2) by (auto simp: as_result_eq_Ret)
  show ?thesis
    using measured_samples [where op = op and err = err, OF assms(1), of call, OF r(1)] assms(3)
    by (auto simp: as_result_def r(2))
qed

lemmas wrap_defs = wrap_Read_def wrap_BatchRead_def wrap_Scan_def wrap_Update_def wrap_BatchUpdate_def
  wrap_Insert_def wrap_BatchInsert_def wrap_Delete_def wrap_BatchDelete_def wrap_Count_def wrap_Clean_def

lemma DbWrapper_call:
  assumes "measuring H rt" "db_call db c a = Some f" "f d = Ret (res, d')"
  shows "\<exists>g rt'. db_call (DbWrapper H db) c a = Some g \<and> g (rt, d) = Ret (res, rt', d') \<and> measuring H rt' \<and>
    (\<forall>o'. rt_samples H rt' o' = rt_samples H rt o' + sample_inc (op_name a) (result_err res) o')"
proof -
  note m = as_result_measured [OF assms(1)]
  show ?thesis
    using assms(2,3)
    by (cases a; clarsimp simp: DbWrapper_def wrap_defs simp del: split_paired_Ex; intro m; simp)
qed


text \<open>Concrete instances for the parameters: a histogram that keeps its values in a list, and a layer
  that finds nothing and accepts every write.\<close>

definition list_hdr :: "int list hdrlib" where
  "list_hdr = \<lparr>hdr_New = (\<lambda>_ _ _. []), hdr_RecordValue = (\<lambda>v h. (None, v # h)),
     hdr_Min = (\<lambda>h. fold min h 0), hdr_Max = (\<lambda>h. fold max h 0), hdr_Mean = (\<lambda>h. f64_of_int 0),
     hdr_TotalCount = (\<lambda>h. int (length h)), hdr_ValueAtPercentile = (\<lambda>_ h. 0), hdr_PercentilesPrint = (\<lambda>h. [])\<rparr>"

lemma hdr_laws_list_hdr: "hdr_laws list_hdr"
  by (simp add: hdr_laws_def list_hdr_def)

definition null_db :: "(unit, unit) DB" where
  "null_db = \<lparr>db_Close = (\<lambda>d. Ret (None, d)), db_InitThread = (\<lambda>_ _ d. Ret ((), d)), db_CleanupThread = (\<lambda>_ d. Ret d),
     db_Read = (\<lambda>_ _ _ _ d. Ret (Inl ''not found'', d)), db_Scan = (\<lambda>_ _ _ _ _ d. Ret (Inr [], d)),
     db_Update = (\<lambda>_ _ _ _ d. Ret (None, d)), db_Insert = (\<lambda>_ _ _ _ d. Ret (None, d)),
     db_Delete = (\<lambda>_ _ _ d. Ret (None, d)), db_Batch = None, db_Analyze = None, db_Count = None, db_Clean = None\<rparr>"

definition fresh_runtime :: "'h runtime" where
  "fresh_runtime = \<lparr>clock = (\<lambda>_. 0),
     globalMeasure = Some \<lparr>measurement_p = no_properties, measurer = MHistograms (InitHistograms no_properties), promeWriter = None\<rparr>,
     warmUp = 0\<rparr>"

lemma measuring_fresh: "hdr_laws H \<Longrightarrow> measuring H fresh_runtime"
  by (simp add: measuring_def fresh_runtime_def IsWarmUpFinished_def clock_ok_def latency_ok_def measurer_ok_def InitHistograms_def)

section \<open>Properties\<close>

text \<open>(C9) The wrapper is transparent and counts exactly. A sequence of calls that runs on a database
  layer gives the same results and the same database through the wrapper; every call without an
  error adds one sample to its operation and one to \<^verbatim>\<open>TOTAL\<close>, every failed call adds one sample to
  \<^verbatim>\<open><operation>_ERROR\<close> and nothing else, whichever measurer is configured. The clock does not go back
  and the run takes at most a day, beyond which the histogram refuses a latency.\<close>

theorem DbWrapper_measures:
  assumes "measuring H rt" "db_calls db c as d = Ret (ress, d')"
  shows "\<exists>rt'. db_calls (DbWrapper H db) c as (rt, d) = Ret (ress, rt', d') \<and> measuring H rt' \<and>
    (\<forall>o'. rt_samples H rt' o' = rt_samples H rt o' +
       sum_list (map2 (\<lambda>a res. sample_inc (op_name a) (result_err res) o') as ress))"
  using assms
proof (induction as arbitrary: rt d ress)
  case (Cons a as)
  obtain f where f: "db_call db c a = Some f" using Cons.prems by (auto split: option.splits)
  obtain res d1 rs where r: "f d = Ret (res, d1)" "db_calls db c as d1 = Ret (rs, d')" "ress = res # rs"
    using Cons.prems(2) f by (auto simp: obind_eq_Ret)
  obtain g rt1 where g: "db_call (DbWrapper H db) c a = Some g" "g (rt, d) = Ret (res, rt1, d1)" "measuring H rt1"
    "\<forall>o'. rt_samples H rt1 o' = rt_samples H rt o' + sample_inc (op_name a) (result_err res) o'"
    using DbWrapper_call [OF Cons.prems(1) f r(1)] by blast
  show ?case using Cons.IH [OF g(3) r(2)] g by (auto simp: r(3))
qed auto

theorem DbWrapper_measures_witness:
  "measuring list_hdr fresh_runtime \<and>
   (\<exists>rt'. db_calls (DbWrapper list_hdr null_db) () [CInsert ''t'' ''k'' [], CRead ''t'' ''k'' [], CDelete ''t'' ''k''] (fresh_runtime, ())
      = Ret ([RErr None, RRow (Inl ''not found''), RErr None], rt', ()) \<and>
      rt_samples list_hdr rt' ''INSERT'' = 1 \<and> rt_samples list_hdr rt' ''READ'' = 0 \<and>
      rt_samples list_hdr rt' ''READ_ERROR'' = 1 \<and> rt_samples list_hdr rt' ''TOTAL'' = 2)"
proof -
  have "db_calls null_db () [CInsert ''t'' ''k'' [], CRead ''t'' ''k'' [], CDelete ''t'' ''k''] () =
      Ret ([RErr None, RRow (Inl ''not found''), RErr None], ())"
    by (simp add: null_db_def as_result_def)
  moreover have "rt_samples list_hdr fresh_runtime o' = 0" for o'
    by (simp add: rt_samples_def fresh_runtime_def samples_def InitHistograms_def)
  ultimately show ?thesis
    using DbWrapper_measures [OF measuring_fresh [OF hdr_laws_list_hdr]] measuring_fresh [OF hdr_laws_list_hdr]
    by (fastforce simp: sample_inc_def)
qed



end
