(* ===== verification/Workload.thy ===== *)
theory Workload
  imports Generators AckCounter DbWrapper
begin

text \<open>
  The core workload (\<^verbatim>\<open>pkg/workload/core.go\<close>): its configuration, the keys and values it builds, and
  the insert, read, update, scan and read-modify-write operations, one by one and in batches.

  \<^item> \<open>core\<close> is the struct that the workers share, \<open>coreState\<close> the part of a worker (its random stream and
    its copy of the field names). An operation takes both and the state of the database layer, and gives
    them back with its error.
  \<^item> \<open>env\<close> collects what comes from outside: \<^verbatim>\<open>math\<close>, \<^verbatim>\<open>ioutil.ReadFile\<close>, the streams of the random
    generators that constructors seed with the clock, and the fuel of the one loop without a bound,
    the search of a non-negative key under the exponential distribution.
  \<^item> A context is asked once in each round of the insertion loop; \<open>ctx\<close> gives the answers. Sleeping
    has no effect on the state, but draws its random length.
  \<^item> Errors of the database are values; \<^verbatim>\<open>util.Fatal\<close> is \<open>Exit\<close>, an index out of range \<open>Panic\<close>.
\<close>

section \<open>State\<close>

record env =
  env_math :: mathlib
  env_readFile :: "string \<Rightarrow> goerror + bytes"
  env_seed :: "nat \<Rightarrow> rand"
  env_fuel :: nat

record coreState =
  state_r :: rand
  state_fieldNames :: "string list"

record core =
  core_p :: properties
  core_table :: string
  fieldCount :: int
  fieldNames :: "string list"
  fieldLengthGenerator :: generator
  readAllFields :: bool
  writeAllFields :: bool
  dataIntegrity :: bool
  keySequence :: Counter
  operationChooser :: Discrete
  keyChooser :: generator
  fieldChooser :: generator
  transactionInsertKeySequence :: AcknowledgedCounter
  scanLength :: generator
  orderedInserts :: bool
  core_recordCount :: int
  zeroPadding :: int
  insertionRetryLimit :: int
  insertionRetryInterval :: int
  valuePool :: pool
  valuePool_New :: int

text \<open>The constants of \<^verbatim>\<open>operationType\<close>.\<close>

abbreviation (input) op_read :: int where "op_read \<equiv> 1"
abbreviation (input) op_update :: int where "op_update \<equiv> 2"
abbreviation (input) op_insert :: int where "op_insert \<equiv> 3"
abbreviation (input) op_scan :: int where "op_scan \<equiv> 4"
abbreviation (input) op_readModifyWrite :: int where "op_readModifyWrite \<equiv> 5"


section \<open>Configuration\<close>

definition getFieldLengthGenerator :: "env \<Rightarrow> properties \<Rightarrow> generator outcome" where
  "getFieldLengthGenerator E p =
     (let fieldLengthDistribution = GetString p prop_FieldLengthDistribution prop_FieldLengthDistributionDefault;
          fieldLength = GetInt64 p prop_FieldLength prop_FieldLengthDefault;
          fieldLengthHistogram = GetString p prop_FieldLengthHistogramFile prop_FieldLengthHistogramFileDefault;
          d = ToLower fieldLengthDistribution
      in if d = ''constant'' then Ret (GConstant (NewConstant fieldLength))
         else if d = ''uniform'' then Ret (GUniform (NewUniform 1 fieldLength))
         else if d = ''zipfian'' then
           Ret (GZipfian (NewZipfianWithRange (env_math E) 1 fieldLength ZipfianConstant (env_seed E 0)))
         else if d = ''histogram'' then
           obind (NewHistogramFromFile fieldLengthHistogram (env_readFile E fieldLengthHistogram)) (\<lambda>h. Ret (GHistogram h))
         else Exit (''unknown field length distribution '' @ fieldLengthDistribution))"

definition add_proportion :: "float64 \<Rightarrow> int \<Rightarrow> Discrete \<Rightarrow> Discrete" where
  "add_proportion w op d = (if f64_lt (f64_lit 0) w then Discrete_Add w op d else d)"

definition createOperationGenerator :: "properties \<Rightarrow> Discrete" where
  "createOperationGenerator p =
     (let readProportion = GetFloat64 p prop_ReadProportion prop_ReadProportionDefault;
          updateProportion = GetFloat64 p prop_UpdateProportion prop_UpdateProportionDefault;
          insertProportion = GetFloat64 p prop_InsertProportion prop_InsertProportionDefault;
          scanProportion = GetFloat64 p prop_ScanProportion prop_ScanProportionDefault;
          readModifyWriteProportion = GetFloat64 p prop_ReadModifyWriteProportion prop_ReadModifyWriteProportionDefault
      in add_proportion readModifyWriteProportion op_readModifyWrite
          (add_proportion scanProportion op_scan
            (add_proportion insertProportion op_insert
              (add_proportion updateProportion op_update
                (add_proportion readProportion op_read NewDiscrete)))))"

text \<open>The key chooser: \<open>cnt\<close> is the number of records, \<open>start\<close> and \<open>n\<close> the inserted range, \<open>ack\<close> the
  sequence of the transactional inserts.\<close>

definition newKeyChooser :: "env \<Rightarrow> properties \<Rightarrow> int \<Rightarrow> int \<Rightarrow> int \<Rightarrow> AcknowledgedCounter \<Rightarrow> generator outcome" where
  "newKeyChooser E p cnt start n ack =
     (let requestDistrib = GetString p prop_RequestDistribution prop_RequestDistributionDefault;
          keyrangeLowerBound = start;
          keyrangeUpperBound = wrap64 (wrap64 (start + n) - 1)
      in if requestDistrib = ''uniform'' then Ret (GUniform (NewUniform keyrangeLowerBound keyrangeUpperBound))
         else if requestDistrib = ''sequential'' then Ret (GSequential (NewSequential keyrangeLowerBound keyrangeUpperBound))
         else if requestDistrib = ''zipfian'' then
           let insertProportion = GetFloat64 p prop_InsertProportion prop_InsertProportionDefault;
               opCount = GetInt64 p prop_OperationCount 0;
               expectedNewKeys = f64_to_int (f64_of_int opCount * insertProportion * f64_lit 2);
               keyrangeUpperBound = wrap64 (wrap64 (start + n) + expectedNewKeys)
           in Ret (GScrambled (NewScrambledZipfian (env_math E) keyrangeLowerBound keyrangeUpperBound ZipfianConstant (env_seed E 1)))
         else if requestDistrib = ''latest'' then
           Ret (GLatest (NewSkewedLatest (env_math E) (Ack_Last ack) (env_seed E 1) (env_seed E 2)))
         else if requestDistrib = ''hotspot'' then
           let hotset = GetFloat64 p prop_HotspotDataFraction prop_HotspotDataFractionDefault;
               hotopn = GetFloat64 p prop_HotspotOpnFraction prop_HotspotOpnFractionDefault
           in Ret (GHotspot (NewHotspot keyrangeLowerBound keyrangeUpperBound hotset hotopn))
         else if requestDistrib = ''exponential'' then
           let percentile = GetFloat64 p prop_ExponentialPercentile prop_ExponentialPercentileDefault;
               frac = GetFloat64 p prop_ExponentialFrac prop_ExponentialFracDefault
           in Ret (GExponential (NewExponential (env_math E) percentile (f64_of_int cnt * frac)))
         else Exit (''unknown request distribution '' @ requestDistrib))"

definition newScanLength :: "env \<Rightarrow> properties \<Rightarrow> generator outcome" where
  "newScanLength E p =
     (let minScanLength = GetInt64 p prop_MinScanLength prop_MinScanLengthDefault;
          maxScanLength = GetInt64 p prop_MaxScanLength prop_MaxScanLengthDefault;
          scanLengthDistrib = GetString p prop_ScanLengthDistribution prop_ScanLengthDistributionDefault
      in if scanLengthDistrib = ''uniform'' then Ret (GUniform (NewUniform minScanLength maxScanLength))
         else if scanLengthDistrib = ''zipfian'' then
           Ret (GZipfian (NewZipfianWithRange (env_math E) minScanLength maxScanLength ZipfianConstant (env_seed E 3)))
         else Exit (''distribution '' @ scanLengthDistrib @ '' not allowed for scan length''))"

definition newFieldNames :: "int \<Rightarrow> string list outcome" where
  "newFieldNames n = (if n < 0 then Panic ''makeslice: len out of range'' else Ret (field_names (nat n)))"

definition core_Create :: "env \<Rightarrow> properties \<Rightarrow> core outcome" where
  "core_Create E p =
     (let fCount = GetInt64 p prop_FieldCount prop_FieldCountDefault
      in obind (newFieldNames fCount) (\<lambda>names.
         obind (getFieldLengthGenerator E p) (\<lambda>lengthGen.
         let recordCount = GetInt64 p prop_RecordCount prop_RecordCountDefault;
             recordCount = (if recordCount = 0 then 2147483647 else recordCount);
             insertStart = GetInt64 p prop_InsertStart prop_InsertStartDefault;
             insertCount = GetInt64 p prop_InsertCount (wrap64 (recordCount - insertStart));
             integrity = GetBool p prop_DataIntegrity prop_DataIntegrityDefault;
             ack = NewAcknowledgedCounter recordCount
         in if recordCount < wrap64 (insertStart + insertCount) then
              Exit (''record count '' @ itoa recordCount @ '' must be bigger than insert start '' @ itoa insertStart @
                '' + count '' @ itoa insertCount)
            else if integrity \<and> GetString p prop_FieldLengthDistribution prop_FieldLengthDistributionDefault \<noteq> ''constant'' then
              Exit ''must have constant field size to check data integrity''
            else obind (newKeyChooser E p recordCount insertStart insertCount ack) (\<lambda>chooser.
              obind (newScanLength E p) (\<lambda>scanLen.
                Ret \<lparr>core_p = p, core_table = GetString p prop_TableName prop_TableNameDefault,
                  fieldCount = fCount, fieldNames = names, fieldLengthGenerator = lengthGen,
                  readAllFields = GetBool p prop_ReadAllFields prop_ReadALlFieldsDefault,
                  writeAllFields = GetBool p prop_WriteAllFields prop_WriteAllFieldsDefault,
                  dataIntegrity = integrity, keySequence = NewCounter insertStart,
                  operationChooser = createOperationGenerator p, keyChooser = chooser,
                  fieldChooser = GUniform (NewUniform 0 (wrap64 (fCount - 1))),
                  transactionInsertKeySequence = ack, scanLength = scanLen,
                  orderedInserts = (GetString p prop_InsertOrder prop_InsertOrderDefault \<noteq> ''hashed''),
                  core_recordCount = recordCount, zeroPadding = GetInt64 p prop_ZeroPadding prop_ZeroPaddingDefault,
                  insertionRetryLimit = GetInt64 p prop_InsertionRetryLimit prop_InsertionRetryLimitDefault,
                  insertionRetryInterval = GetInt64 p prop_InsertionRetryInterval prop_InsertionRetryIntervalDefault,
                  valuePool = [], valuePool_New = GetInt64 p prop_FieldLength prop_FieldLengthDefault\<rparr>)))))"

text \<open>The first argument is the stream of the generator that the worker seeds with the clock.\<close>

definition core_InitThread :: "rand \<Rightarrow> core \<Rightarrow> coreState" where
  "core_InitThread r c = \<lparr>state_r = r, state_fieldNames = fieldNames c\<rparr>"

section \<open>Keys and values\<close>

definition buildKeyName :: "core \<Rightarrow> int \<Rightarrow> string" where
  "buildKeyName c keyNum =
     (let keyNum = (if orderedInserts c then keyNum else Hash64 keyNum);
          prefix = GetString (core_p c) prop_KeyPrefix prop_KeyPrefixDefault
      in prefix @ fmt_0d (zeroPadding c) keyNum)"

definition fieldLength_Next :: "env \<Rightarrow> core \<Rightarrow> coreState \<Rightarrow> (int \<times> core \<times> coreState) outcome" where
  "fieldLength_Next E c st = obind (gen_Next (env_math E) 0 (fieldLengthGenerator c) (state_r st))
     (\<lambda>(v, g, r). Ret (v, c\<lparr>fieldLengthGenerator := g\<rparr>, st\<lparr>state_r := r\<rparr>))"

text \<open>\<^verbatim>\<open>state.fieldNames[c.fieldChooser.Next(r)]\<close>\<close>

definition chooseField :: "env \<Rightarrow> core \<Rightarrow> coreState \<Rightarrow> (string \<times> core \<times> coreState) outcome" where
  "chooseField E c st = obind (gen_Next (env_math E) 0 (fieldChooser c) (state_r st)) (\<lambda>(v, g, r).
     if v < 0 \<or> int (length (state_fieldNames st)) \<le> v then Panic ''index out of range''
     else Ret (state_fieldNames st ! nat v, c\<lparr>fieldChooser := g\<rparr>, st\<lparr>state_r := r\<rparr>))"

text \<open>A buffer in the pool is as long as its capacity. The \<^verbatim>\<open>New\<close> function of the pool and the two ways
  to make the result panic on a negative length.\<close>

definition getValueBuffer :: "int \<Rightarrow> core \<Rightarrow> (bytes \<times> core) outcome" where
  "getValueBuffer sz c =
     (if valuePool c = [] \<and> valuePool_New c < 0 then Panic ''makeslice: len out of range''
      else let (buf, pl) = pool_Get (replicate (nat (valuePool_New c)) 0) (valuePool c); c = c\<lparr>valuePool := pl\<rparr>
           in if sz \<le> int (length buf) then
                (if sz < 0 then Panic ''slice bounds out of range'' else Ret (take (nat sz) buf, c))
              else Ret (replicate (nat sz) 0, c))"

definition putValues :: "row \<Rightarrow> core \<Rightarrow> core" where
  "putValues vals c = fold (\<lambda>(f, v) c. c\<lparr>valuePool := pool_Put v (valuePool c)\<rparr>) vals c"

definition buildRandomValue :: "env \<Rightarrow> core \<Rightarrow> coreState \<Rightarrow> (bytes \<times> core \<times> coreState) outcome" where
  "buildRandomValue E c st = obind (fieldLength_Next E c st) (\<lambda>(n, c, st).
     obind (getValueBuffer n c) (\<lambda>(buf, c).
     obind (RandBytes (state_r st) buf) (\<lambda>(buf, r). Ret (buf, c, st\<lparr>state_r := r\<rparr>))))"

text \<open>The loop appends a colon and the decimal hash of what is there until the buffer is long enough.\<close>

definition hash_round :: "bytes \<Rightarrow> bytes" where
  "hash_round b = (let b = b @ to_bytes '':'' in b @ to_bytes (decimal (nat (BytesHash64 b mod 18446744073709551616))))"

lemma length_hash_round: "length b < length (hash_round b)"
  by (simp add: hash_round_def Let_def)

function deterministic_fill :: "int \<Rightarrow> bytes \<Rightarrow> bytes" where
  "deterministic_fill sz b = (if int (length b) < sz then deterministic_fill sz (hash_round b) else b)"
  by pat_completeness auto
termination
proof (relation "measure (\<lambda>(sz, b). nat (sz - int (length b)))")
  fix sz :: int and b :: bytes
  assume "int (length b) < sz"
  then show "((sz, hash_round b), sz, b) \<in> measure (\<lambda>(sz, b). nat (sz - int (length b)))"
    using length_hash_round [of b] by simp
qed simp

declare deterministic_fill.simps [simp del]

definition deterministic_bytes :: "int \<Rightarrow> string \<Rightarrow> string \<Rightarrow> bytes" where
  "deterministic_bytes sz key fieldKey =
     take (nat sz) (deterministic_fill sz (to_bytes (key @ '':'' @ ToLower fieldKey)))"

definition buildDeterministicValue ::
  "env \<Rightarrow> core \<Rightarrow> coreState \<Rightarrow> string \<Rightarrow> string \<Rightarrow> (bytes \<times> core \<times> coreState) outcome" where
  "buildDeterministicValue E c st key fieldKey = obind (fieldLength_Next E c st) (\<lambda>(sz, c, st).
     obind (getValueBuffer (wrap64 (sz + 21)) c) (\<lambda>(buf, c).
       if sz < 0 then Panic ''bytes.Buffer: truncation out of range''
       else Ret (deterministic_bytes sz key fieldKey, c, st)))"

definition buildValue :: "env \<Rightarrow> core \<Rightarrow> coreState \<Rightarrow> string \<Rightarrow> string \<Rightarrow> (bytes \<times> core \<times> coreState) outcome" where
  "buildValue E c st key fieldKey =
     (if dataIntegrity c then buildDeterministicValue E c st key fieldKey else buildRandomValue E c st)"

definition buildSingleValue :: "env \<Rightarrow> core \<Rightarrow> coreState \<Rightarrow> string \<Rightarrow> (row \<times> core \<times> coreState) outcome" where
  "buildSingleValue E c st key = obind (chooseField E c st) (\<lambda>(fieldKey, c, st).
     obind (buildValue E c st key fieldKey) (\<lambda>(buf, c, st). Ret ([(fieldKey, buf)], c, st)))"

fun build_fields :: "env \<Rightarrow> string \<Rightarrow> string list \<Rightarrow> row \<Rightarrow> core \<Rightarrow> coreState \<Rightarrow> (row \<times> core \<times> coreState) outcome" where
  "build_fields E key [] vals c st = Ret (vals, c, st)"
| "build_fields E key (f # fs) vals c st = obind (buildValue E c st key f) (\<lambda>(buf, c, st).
     build_fields E key fs (AList.update f buf vals) c st)"

definition buildValues :: "env \<Rightarrow> core \<Rightarrow> coreState \<Rightarrow> string \<Rightarrow> (row \<times> core \<times> coreState) outcome" where
  "buildValues E c st key = build_fields E key (state_fieldNames st) [] c st"

text \<open>The quoted values are left out of the message.\<close>

fun verify_fields :: "env \<Rightarrow> string \<Rightarrow> row \<Rightarrow> core \<Rightarrow> coreState \<Rightarrow> (core \<times> coreState) outcome" where
  "verify_fields E key [] c st = Ret (c, st)"
| "verify_fields E key ((f, v) # vals) c st = obind (buildDeterministicValue E c st key f) (\<lambda>(expected, c, st).
     if expected \<noteq> v then Exit ''unexpected deterministic value'' else verify_fields E key vals c st)"

definition verifyRow :: "env \<Rightarrow> core \<Rightarrow> coreState \<Rightarrow> string \<Rightarrow> row \<Rightarrow> (core \<times> coreState) outcome" where
  "verifyRow E c st key vals = (if length vals = 0 then Ret (c, st) else verify_fields E key vals c st)"

section \<open>Inserts\<close>

text \<open>
  The loop of \<^verbatim>\<open>DoInsert\<close> and \<^verbatim>\<open>DoBatchInsert\<close> around the insertion \<open>ins\<close>; \<open>k\<close> counts the questions to
  the context. An error ends the loop; so do a cancelled context and the retry limit. The fuel
  \<open>limit + 1\<close> is never used up below the largest \<^verbatim>\<open>int64\<close>.
\<close>

fun insert_loop :: "nat \<Rightarrow> ('w, goerror option) dbop \<Rightarrow> ctx \<Rightarrow> nat \<Rightarrow> int \<Rightarrow> int \<Rightarrow> rand \<Rightarrow> 'w \<Rightarrow>
    (goerror option \<times> rand \<times> 'w) outcome" where
  "insert_loop 0 ins ctx k maxRetries numOfRetries r w = Diverge"
| "insert_loop (Suc fuel) ins ctx k maxRetries numOfRetries r w = obind (ins w) (\<lambda>(err, w).
     if err \<noteq> None then Ret (err, r, w)
     else if ctx k = Some Canceled then Ret (None, r, w)
     else let numOfRetries = wrap64 (numOfRetries + 1)
          in if numOfRetries > maxRetries then Ret (err, r, w)
             else insert_loop fuel ins ctx (Suc k) maxRetries numOfRetries (snd (rand_Float64 r)) w)"

definition retry_insert :: "('w, goerror option) dbop \<Rightarrow> ctx \<Rightarrow> core \<Rightarrow> rand \<Rightarrow> 'w \<Rightarrow>
    (goerror option \<times> rand \<times> 'w) outcome" where
  "retry_insert ins ctx c r w = insert_loop (Suc (nat (insertionRetryLimit c))) ins ctx 0 (insertionRetryLimit c) 0 r w"

definition keySequence_Next :: "core \<Rightarrow> int \<times> core" where
  "keySequence_Next c = (let (v, k) = Counter_Next (keySequence c) in (v, c\<lparr>keySequence := k\<rparr>))"

type_synonym 'w coreop = "(goerror option \<times> core \<times> coreState \<times> 'w) outcome"

definition DoInsert :: "env \<Rightarrow> ctx \<Rightarrow> ('c, 'w) DB \<Rightarrow> 'c \<Rightarrow> core \<Rightarrow> coreState \<Rightarrow> 'w \<Rightarrow> 'w coreop" where
  "DoInsert E ctx db dc c st w =
     (let (keyNum, c) = keySequence_Next c; dbKey = buildKeyName c keyNum
      in obind (buildValues E c st dbKey) (\<lambda>(vals, c, st).
         obind (retry_insert (db_Insert db dc (core_table c) dbKey vals) ctx c (state_r st) w) (\<lambda>(err, r, w).
           Ret (err, putValues vals c, st\<lparr>state_r := r\<rparr>, w))))"

fun build_batch :: "env \<Rightarrow> nat \<Rightarrow> string list \<Rightarrow> row list \<Rightarrow> core \<Rightarrow> coreState \<Rightarrow>
    (string list \<times> row list \<times> core \<times> coreState) outcome" where
  "build_batch E 0 keys vals c st = Ret (keys, vals, c, st)"
| "build_batch E (Suc n) keys vals c st =
     (let (keyNum, c) = keySequence_Next c; dbKey = buildKeyName c keyNum
      in obind (buildValues E c st dbKey) (\<lambda>(v, c, st). build_batch E n (keys @ [dbKey]) (vals @ [v]) c st))"

definition DoBatchInsert :: "env \<Rightarrow> ctx \<Rightarrow> int \<Rightarrow> ('c, 'w) DB \<Rightarrow> 'c \<Rightarrow> core \<Rightarrow> coreState \<Rightarrow> 'w \<Rightarrow> 'w coreop" where
  "DoBatchInsert E ctx batchSize db dc c st w = (case db_Batch db of
       None \<Rightarrow> Ret (Some ''the database does't implement the batchDB interface'', c, st, w)
     | Some batchDB \<Rightarrow> obind (build_batch E (nat batchSize) [] [] c st) (\<lambda>(keys, vals, c, st).
         obind (retry_insert (BatchInsert batchDB dc (core_table c) keys vals) ctx c (state_r st) w) (\<lambda>(err, r, w).
           Ret (err, fold putValues vals c, st\<lparr>state_r := r\<rparr>, w))))"


section \<open>Transactions\<close>

fun nextKey_loop :: "nat \<Rightarrow> env \<Rightarrow> core \<Rightarrow> coreState \<Rightarrow> (int \<times> core \<times> coreState) outcome" where
  "nextKey_loop 0 E c st = Diverge"
| "nextKey_loop (Suc fuel) E c st =
     obind (gen_Next (env_math E) (Ack_Last (transactionInsertKeySequence c)) (keyChooser c) (state_r st)) (\<lambda>(v, g, r).
       let keyNum = wrap64 (Ack_Last (transactionInsertKeySequence c) - v);
           c = c\<lparr>keyChooser := g\<rparr>; st = st\<lparr>state_r := r\<rparr>
       in if keyNum < 0 then nextKey_loop fuel E c st else Ret (keyNum, c, st))"

definition is_Exponential :: "generator \<Rightarrow> bool" where
  "is_Exponential g = (case g of GExponential _ \<Rightarrow> True | _ \<Rightarrow> False)"

definition nextKeyNum :: "env \<Rightarrow> core \<Rightarrow> coreState \<Rightarrow> (int \<times> core \<times> coreState) outcome" where
  "nextKeyNum E c st =
     (if is_Exponential (keyChooser c) then nextKey_loop (env_fuel E) E c st
      else obind (gen_Next (env_math E) (Ack_Last (transactionInsertKeySequence c)) (keyChooser c) (state_r st))
        (\<lambda>(keyNum, g, r). Ret (keyNum, c\<lparr>keyChooser := g\<rparr>, st\<lparr>state_r := r\<rparr>)))"

text \<open>The fields to read: one that the field chooser draws, or all.\<close>

definition readFields :: "env \<Rightarrow> core \<Rightarrow> coreState \<Rightarrow> (string list \<times> core \<times> coreState) outcome" where
  "readFields E c st =
     (if \<not> readAllFields c then obind (chooseField E c st) (\<lambda>(f, c, st). Ret ([f], c, st))
      else Ret (state_fieldNames st, c, st))"

definition writeValues :: "env \<Rightarrow> core \<Rightarrow> coreState \<Rightarrow> string \<Rightarrow> (row \<times> core \<times> coreState) outcome" where
  "writeValues E c st key = (if writeAllFields c then buildValues E c st key else buildSingleValue E c st key)"

definition doTransactionRead :: "env \<Rightarrow> ('c, 'w) DB \<Rightarrow> 'c \<Rightarrow> core \<Rightarrow> coreState \<Rightarrow> 'w \<Rightarrow> 'w coreop" where
  "doTransactionRead E db dc c st w = obind (nextKeyNum E c st) (\<lambda>(keyNum, c, st).
     let keyName = buildKeyName c keyNum
     in obind (readFields E c st) (\<lambda>(flds, c, st).
        obind (db_Read db dc (core_table c) keyName flds w) (\<lambda>(res, w). case res of
          Inl err \<Rightarrow> Ret (Some err, c, st, w)
        | Inr vals \<Rightarrow>
            if dataIntegrity c then obind (verifyRow E c st keyName vals) (\<lambda>(c, st). Ret (None, c, st, w))
            else Ret (None, c, st, w))))"

text \<open>The measurement of the whole operation runs in a deferred function, also after an error.\<close>

definition doTransactionReadModifyWrite :: "'h hdrlib \<Rightarrow> env \<Rightarrow> ('c, ('h, 'd) world) DB \<Rightarrow> 'c \<Rightarrow> core \<Rightarrow> coreState \<Rightarrow>
    ('h, 'd) world \<Rightarrow> ('h, 'd) world coreop" where
  "doTransactionReadModifyWrite H E db dc c st w =
     (let (rt, d) = w; (start, rt) = time_Now rt; w = (rt, d)
      in obind (nextKeyNum E c st) (\<lambda>(keyNum, c, st).
         let keyName = buildKeyName c keyNum
         in obind (readFields E c st) (\<lambda>(flds, c, st).
            obind (writeValues E c st keyName) (\<lambda>(vals, c, st).
            obind (obind (db_Read db dc (core_table c) keyName flds w) (\<lambda>(res, w). case res of
                Inl err \<Rightarrow> Ret (Some err, c, st, w)
              | Inr readValues \<Rightarrow> obind (db_Update db dc (core_table c) keyName vals w) (\<lambda>(e, w). case e of
                    Some err \<Rightarrow> Ret (Some err, c, st, w)
                  | None \<Rightarrow>
                      if dataIntegrity c then obind (verifyRow E c st keyName readValues) (\<lambda>(c, st). Ret (None, c, st, w))
                      else Ret (None, c, st, w))))
              (\<lambda>(err, c, st, w). let c = putValues vals c; (rt, d) = w; (now, rt) = time_Now rt
                in obind (Measure H ''READ_MODIFY_WRITE'' start (time_Sub now start) rt) (\<lambda>rt. Ret (err, c, st, rt, d)))))))"

definition insertSequence_Next :: "core \<Rightarrow> int \<times> core" where
  "insertSequence_Next c =
     (let (v, a) = Ack_Next (transactionInsertKeySequence c) in (v, c\<lparr>transactionInsertKeySequence := a\<rparr>))"

definition insertSequence_Ack :: "int \<Rightarrow> core \<Rightarrow> core outcome" where
  "insertSequence_Ack keyNum c =
     obind (Acknowledge keyNum (transactionInsertKeySequence c)) (\<lambda>a. Ret (c\<lparr>transactionInsertKeySequence := a\<rparr>))"

definition doTransactionInsert :: "env \<Rightarrow> ('c, 'w) DB \<Rightarrow> 'c \<Rightarrow> core \<Rightarrow> coreState \<Rightarrow> 'w \<Rightarrow> 'w coreop" where
  "doTransactionInsert E db dc c st w =
     (let (keyNum, c) = insertSequence_Next c; dbKey = buildKeyName c keyNum
      in obind (buildValues E c st dbKey) (\<lambda>(vals, c, st).
         obind (db_Insert db dc (core_table c) dbKey vals w) (\<lambda>(err, w).
         obind (insertSequence_Ack keyNum (putValues vals c)) (\<lambda>c. Ret (err, c, st, w)))))"

definition doTransactionScan :: "env \<Rightarrow> ('c, 'w) DB \<Rightarrow> 'c \<Rightarrow> core \<Rightarrow> coreState \<Rightarrow> 'w \<Rightarrow> 'w coreop" where
  "doTransactionScan E db dc c st w = obind (nextKeyNum E c st) (\<lambda>(keyNum, c, st).
     let startKeyName = buildKeyName c keyNum
     in obind (gen_Next (env_math E) 0 (scanLength c) (state_r st)) (\<lambda>(scanLen, g, r).
        let c = c\<lparr>scanLength := g\<rparr>; st = st\<lparr>state_r := r\<rparr>
        in obind (readFields E c st) (\<lambda>(flds, c, st).
           obind (db_Scan db dc (core_table c) startKeyName scanLen flds w) (\<lambda>(res, w). Ret (err_of res, c, st, w)))))"

definition doTransactionUpdate :: "env \<Rightarrow> ('c, 'w) DB \<Rightarrow> 'c \<Rightarrow> core \<Rightarrow> coreState \<Rightarrow> 'w \<Rightarrow> 'w coreop" where
  "doTransactionUpdate E db dc c st w = obind (nextKeyNum E c st) (\<lambda>(keyNum, c, st).
     let keyName = buildKeyName c keyNum
     in obind (writeValues E c st keyName) (\<lambda>(vals, c, st).
        obind (db_Update db dc (core_table c) keyName vals w) (\<lambda>(err, w). Ret (err, putValues vals c, st, w))))"

definition operationChooser_Next :: "core \<Rightarrow> coreState \<Rightarrow> (int \<times> core \<times> coreState) outcome" where
  "operationChooser_Next c st = obind (Discrete_Next (operationChooser c) (state_r st))
     (\<lambda>(v, d, r). Ret (v, c\<lparr>operationChooser := d\<rparr>, st\<lparr>state_r := r\<rparr>))"

definition DoTransaction :: "'h hdrlib \<Rightarrow> env \<Rightarrow> ('c, ('h, 'd) world) DB \<Rightarrow> 'c \<Rightarrow> core \<Rightarrow> coreState \<Rightarrow>
    ('h, 'd) world \<Rightarrow> ('h, 'd) world coreop" where
  "DoTransaction H E db dc c st w = obind (operationChooser_Next c st) (\<lambda>(operation, c, st).
     if operation = op_read then doTransactionRead E db dc c st w
     else if operation = op_update then doTransactionUpdate E db dc c st w
     else if operation = op_insert then doTransactionInsert E db dc c st w
     else if operation = op_scan then doTransactionScan E db dc c st w
     else doTransactionReadModifyWrite H E db dc c st w)"

section \<open>Batch transactions\<close>

fun batch_keys :: "env \<Rightarrow> nat \<Rightarrow> core \<Rightarrow> coreState \<Rightarrow> (string list \<times> core \<times> coreState) outcome" where
  "batch_keys E 0 c st = Ret ([], c, st)"
| "batch_keys E (Suc n) c st = obind (nextKeyNum E c st) (\<lambda>(keyNum, c, st).
     let key = buildKeyName c keyNum
     in obind (batch_keys E n c st) (\<lambda>(keys, c, st). Ret (key # keys, c, st)))"

definition doBatchTransactionRead :: "env \<Rightarrow> int \<Rightarrow> ('c, 'w) BatchDB \<Rightarrow> 'c \<Rightarrow> core \<Rightarrow> coreState \<Rightarrow> 'w \<Rightarrow> 'w coreop" where
  "doBatchTransactionRead E batchSize db dc c st w = obind (readFields E c st) (\<lambda>(flds, c, st).
     if batchSize < 0 then Panic ''makeslice: len out of range''
     else obind (batch_keys E (nat batchSize) c st) (\<lambda>(keys, c, st).
       obind (BatchRead db dc (core_table c) keys flds w) (\<lambda>(res, w). Ret (err_of res, c, st, w))))"

fun batch_inserts :: "env \<Rightarrow> nat \<Rightarrow> core \<Rightarrow> coreState \<Rightarrow> (string list \<times> row list \<times> core \<times> coreState) outcome" where
  "batch_inserts E 0 c st = Ret ([], [], c, st)"
| "batch_inserts E (Suc n) c st =
     (let (keyNum, c) = insertSequence_Next c; keyName = buildKeyName c keyNum
      in obind (writeValues E c st keyName) (\<lambda>(v, c, st).
         obind (insertSequence_Ack keyNum c) (\<lambda>c.
         obind (batch_inserts E n c st) (\<lambda>(keys, vals, c, st). Ret (keyName # keys, v # vals, c, st)))))"

definition doBatchTransactionInsert :: "env \<Rightarrow> int \<Rightarrow> ('c, 'w) BatchDB \<Rightarrow> 'c \<Rightarrow> core \<Rightarrow> coreState \<Rightarrow> 'w \<Rightarrow> 'w coreop" where
  "doBatchTransactionInsert E batchSize db dc c st w =
     (if batchSize < 0 then Panic ''makeslice: len out of range''
      else obind (batch_inserts E (nat batchSize) c st) (\<lambda>(keys, vals, c, st).
        obind (BatchInsert db dc (core_table c) keys vals w) (\<lambda>(err, w). Ret (err, fold putValues vals c, st, w))))"

fun batch_updates :: "env \<Rightarrow> nat \<Rightarrow> core \<Rightarrow> coreState \<Rightarrow> (string list \<times> row list \<times> core \<times> coreState) outcome" where
  "batch_updates E 0 c st = Ret ([], [], c, st)"
| "batch_updates E (Suc n) c st = obind (nextKeyNum E c st) (\<lambda>(keyNum, c, st).
     let keyName = buildKeyName c keyNum
     in obind (writeValues E c st keyName) (\<lambda>(v, c, st).
        obind (batch_updates E n c st) (\<lambda>(keys, vals, c, st). Ret (keyName # keys, v # vals, c, st))))"

definition doBatchTransactionUpdate :: "env \<Rightarrow> int \<Rightarrow> ('c, 'w) BatchDB \<Rightarrow> 'c \<Rightarrow> core \<Rightarrow> coreState \<Rightarrow> 'w \<Rightarrow> 'w coreop" where
  "doBatchTransactionUpdate E batchSize db dc c st w =
     (if batchSize < 0 then Panic ''makeslice: len out of range''
      else obind (batch_updates E (nat batchSize) c st) (\<lambda>(keys, vals, c, st).
        obind (BatchUpdate db dc (core_table c) keys vals w) (\<lambda>(err, w). Ret (err, fold putValues vals c, st, w))))"

definition DoBatchTransaction :: "env \<Rightarrow> int \<Rightarrow> ('c, 'w) DB \<Rightarrow> 'c \<Rightarrow> core \<Rightarrow> coreState \<Rightarrow> 'w \<Rightarrow> 'w coreop" where
  "DoBatchTransaction E batchSize db dc c st w = (case db_Batch db of
       None \<Rightarrow> Ret (Some ''the database does't implement the batchDB interface'', c, st, w)
     | Some batchDB \<Rightarrow> obind (operationChooser_Next c st) (\<lambda>(operation, c, st).
         if operation = op_read then doBatchTransactionRead E batchSize batchDB dc c st w
         else if operation = op_insert then doBatchTransactionInsert E batchSize batchDB dc c st w
         else if operation = op_update then doBatchTransactionUpdate E batchSize batchDB dc c st w
         else if operation = op_scan then Panic ''The batch mode don't support the scan operation''
         else Ret (None, c, st, w)))"

end
