(* ===== verification/WorkloadFacts.thy ===== *)
theory WorkloadFacts
  imports Workload
begin

text \<open>
  Facts about the core workload: the ranges of its generators, the well-formedness of its state and
  that every operation keeps it, and the keys and values it builds.
\<close>

section \<open>Generators of the workload\<close>

text \<open>The bounds of the generators that have fixed ones. The loop of the exponential chooser, the growing
  zipfian ranges and the counter of the sequential generator are treated apart.\<close>

fun gen_ok :: "generator \<Rightarrow> bool" where
  "gen_ok (GConstant g) \<longleftrightarrow> in64 (constant_value g)"
| "gen_ok (GUniform g) \<longleftrightarrow> uniform_ok g"
| "gen_ok (GHotspot g) \<longleftrightarrow> hotspot_ok g"
| "gen_ok _ \<longleftrightarrow> False"

fun gen_lo :: "generator \<Rightarrow> int" where
  "gen_lo (GConstant g) = constant_value g"
| "gen_lo (GUniform g) = uniform_lb g"
| "gen_lo (GHotspot g) = lowerBound g"
| "gen_lo _ = 0"

fun gen_hi :: "generator \<Rightarrow> int" where
  "gen_hi (GConstant g) = constant_value g"
| "gen_hi (GUniform g) = uniform_ub g"
| "gen_hi (GHotspot g) = upperBound g"
| "gen_hi _ = 0"

interpretation gen: bounded_generator gen_ok gen_lo gen_hi "gen_Next M b"
proof
  fix g r assume "gen_ok g"
  then show "\<exists>v g' r'. gen_Next M b g r = Ret (v, g', r') \<and> gen_lo g \<le> v \<and> v \<le> gen_hi g \<and>
      gen_ok g' \<and> gen_lo g' = gen_lo g \<and> gen_hi g' = gen_hi g"
  proof (cases g)
    case (GUniform u)
    with \<open>gen_ok g\<close> have "uniform_ok u" by simp
    from uni.next_ok [OF this, of r] show ?thesis by (auto simp: GUniform)
  next
    case (GHotspot h)
    with \<open>gen_ok g\<close> have "hotspot_ok h" by simp
    from hot.next_ok [OF this, of r] show ?thesis by (auto simp: GHotspot)
  qed (simp_all add: Constant_Next_def)
qed

lemma gen_Next_not_Exponential: "gen_ok g \<Longrightarrow> \<not> is_Exponential g"
  by (cases g) (simp_all add: is_Exponential_def)

text \<open>The generators that choose keys draw 64-bit numbers, and drawing leaves their kind alone.\<close>

fun key_gen :: "generator \<Rightarrow> bool" where
  "key_gen (GConstant g) \<longleftrightarrow> False"
| "key_gen (GHistogram g) \<longleftrightarrow> False"
| "key_gen (GZipfian g) \<longleftrightarrow> False"
| "key_gen _ \<longleftrightarrow> True"

lemma in64_f64_to_int: "in64 (f64_to_int x)"
  by (cases x) (auto simp: Let_def in64_def)

lemma gen_Next_key_gen: "gen_Next M b g r = Ret (v, g', r') \<Longrightarrow> key_gen g' = key_gen g"
  by (cases g) (auto simp: obind_eq_Ret split: prod.splits)

lemma gen_Next_in64: "gen_Next M b g r = Ret (v, g', r') \<Longrightarrow> key_gen g \<Longrightarrow> in64 v"
  by (cases g) (auto simp: obind_eq_Ret Uniform_Next_def Sequential_Next_def Hotspot_Next_def Exponential_Next_def
      ScrambledZipfian_Next_def SkewedLatest_Next_def Let_def in64_f64_to_int split: prod.splits if_splits)


section \<open>The state of the workload\<close>

text \<open>The invariant of a configured workload and of a worker's state.\<close>

definition core_inv :: "core \<Rightarrow> coreState \<Rightarrow> bool" where
  "core_inv c st \<longleftrightarrow> state_fieldNames st = fieldNames c \<and> 0 \<le> valuePool_New c \<and>
     gen_ok (fieldLengthGenerator c) \<and> 0 \<le> gen_lo (fieldLengthGenerator c) \<and> gen_hi (fieldLengthGenerator c) \<le> max64 - 21 \<and>
     (dataIntegrity c \<longrightarrow> gen_lo (fieldLengthGenerator c) = gen_hi (fieldLengthGenerator c)) \<and>
     gen_ok (fieldChooser c) \<and> 0 \<le> gen_lo (fieldChooser c) \<and> gen_hi (fieldChooser c) < int (length (fieldNames c))"

text \<open>What no operation changes: the configuration and the ranges.\<close>

definition same_config :: "core \<Rightarrow> core \<Rightarrow> bool" where
  "same_config c d \<longleftrightarrow> core_p d = core_p c \<and> core_table d = core_table c \<and> fieldCount d = fieldCount c \<and>
     fieldNames d = fieldNames c \<and> readAllFields d = readAllFields c \<and> writeAllFields d = writeAllFields c \<and>
     dataIntegrity d = dataIntegrity c \<and> orderedInserts d = orderedInserts c \<and> core_recordCount d = core_recordCount c \<and>
     zeroPadding d = zeroPadding c \<and> insertionRetryLimit d = insertionRetryLimit c \<and>
     insertionRetryInterval d = insertionRetryInterval c \<and> valuePool_New d = valuePool_New c \<and>
     gen_lo (fieldLengthGenerator d) = gen_lo (fieldLengthGenerator c) \<and>
     gen_hi (fieldLengthGenerator d) = gen_hi (fieldLengthGenerator c) \<and> key_gen (keyChooser d) = key_gen (keyChooser c)"

lemma same_config_refl [simp]: "same_config c c"
  by (simp add: same_config_def)

lemma same_config_sym: "same_config a b \<Longrightarrow> same_config b a"
  by (simp add: same_config_def)

lemma same_config_trans [trans]: "same_config a b \<Longrightarrow> same_config b c \<Longrightarrow> same_config a c"
  by (simp add: same_config_def)

text \<open>A helper leaves the sequences of keys alone.\<close>

definition same_keys :: "core \<Rightarrow> core \<Rightarrow> bool" where
  "same_keys c d \<longleftrightarrow> keySequence d = keySequence c \<and> keyChooser d = keyChooser c \<and>
     transactionInsertKeySequence d = transactionInsertKeySequence c"

lemma same_keys_refl [simp]: "same_keys c c"
  by (simp add: same_keys_def)

lemma same_keys_trans [trans]: "same_keys a b \<Longrightarrow> same_keys b c \<Longrightarrow> same_keys a c"
  by (simp add: same_keys_def)

text \<open>The two together with the invariant: what a helper that builds keys or values guarantees.\<close>

definition helper_step :: "core \<Rightarrow> core \<Rightarrow> coreState \<Rightarrow> bool" where
  "helper_step c c' st' \<longleftrightarrow> core_inv c' st' \<and> same_config c c' \<and> same_keys c c'"

lemma helper_step_trans: "helper_step a b st \<Longrightarrow> helper_step b c st' \<Longrightarrow> helper_step a c st'"
  unfolding helper_step_def using same_config_trans same_keys_trans by blast

lemma helper_stepD: "helper_step c c' st' \<Longrightarrow> core_inv c' st'" "helper_step c c' st' \<Longrightarrow> same_config c c'"
  "helper_step c c' st' \<Longrightarrow> same_keys c c'"
  by (simp_all add: helper_step_def)

lemma helper_step_refl: "core_inv c st \<Longrightarrow> helper_step c c st"
  by (simp add: helper_step_def)

lemma same_configD:
  assumes "same_config c d"
  shows "dataIntegrity d = dataIntegrity c" "core_table d = core_table c" "fieldNames d = fieldNames c"
    "gen_hi (fieldLengthGenerator d) = gen_hi (fieldLengthGenerator c)"
    "readAllFields d = readAllFields c" "writeAllFields d = writeAllFields c" "key_gen (keyChooser d) = key_gen (keyChooser c)"
  using assms by (simp_all add: same_config_def)

lemma buildKeyName_config: "same_config c d \<Longrightarrow> buildKeyName d = buildKeyName c"
  by (simp add: same_config_def buildKeyName_def fun_eq_iff)

lemma fieldLength_Next_ok:
  assumes "core_inv c st"
  shows "\<exists>n c' st'. fieldLength_Next E c st = Ret (n, c', st') \<and> helper_step c c' st' \<and>
    gen_lo (fieldLengthGenerator c) \<le> n \<and> n \<le> gen_hi (fieldLengthGenerator c)"
proof -
  have "gen_ok (fieldLengthGenerator c)" using assms by (simp add: core_inv_def)
  then obtain v g r where "gen_Next (env_math E) 0 (fieldLengthGenerator c) (state_r st) = Ret (v, g, r)"
    "gen_lo (fieldLengthGenerator c) \<le> v" "v \<le> gen_hi (fieldLengthGenerator c)" "gen_ok g"
    "gen_lo g = gen_lo (fieldLengthGenerator c)" "gen_hi g = gen_hi (fieldLengthGenerator c)"
    by (rule gen.next_obtain)
  then show ?thesis
    using assms by (simp add: fieldLength_Next_def helper_step_def core_inv_def same_config_def same_keys_def)
qed

lemma chooseField_ok:
  assumes "core_inv c st"
  shows "\<exists>f c' st'. chooseField E c st = Ret (f, c', st') \<and> helper_step c c' st' \<and> f \<in> set (fieldNames c)"
proof -
  have f: "gen_ok (fieldChooser c)" "0 \<le> gen_lo (fieldChooser c)" "gen_hi (fieldChooser c) < int (length (fieldNames c))"
    "state_fieldNames st = fieldNames c"
    using assms by (simp_all add: core_inv_def)
  obtain v g r where g: "gen_Next (env_math E) 0 (fieldChooser c) (state_r st) = Ret (v, g, r)"
    "gen_lo (fieldChooser c) \<le> v" "v \<le> gen_hi (fieldChooser c)" "gen_ok g"
    "gen_lo g = gen_lo (fieldChooser c)" "gen_hi g = gen_hi (fieldChooser c)"
    by (rule gen.next_obtain [OF f(1)])
  then have "0 \<le> v" "nat v < length (fieldNames c)" "\<not> int (length (fieldNames c)) \<le> v" using f by auto
  then show ?thesis
    using assms g by (simp add: chooseField_def f(4) helper_step_def core_inv_def same_config_def same_keys_def)
qed

lemma getValueBuffer_ok:
  assumes "core_inv c st" "0 \<le> n"
  shows "\<exists>buf pl. getValueBuffer n c = Ret (buf, c\<lparr>valuePool := pl\<rparr>) \<and> length buf = nat n"
  using assms
  by (auto simp: getValueBuffer_def core_inv_def pool_Get_def Let_def split: list.splits prod.splits)

lemma helper_step_pool: "core_inv c st \<Longrightarrow> helper_step c (c\<lparr>valuePool := pl\<rparr>) st"
  by (simp add: helper_step_def core_inv_def same_config_def same_keys_def)

lemma pool_fold_eq:
  "\<exists>pl. fold (\<lambda>(f, v) c. c\<lparr>valuePool := pool_Put v (valuePool c)\<rparr>) vals (c\<lparr>valuePool := p\<rparr>) = c\<lparr>valuePool := pl\<rparr>"
  by (induction vals arbitrary: p) (auto simp: case_prod_unfold)

lemma putValues_eq: "\<exists>pl. putValues vals c = c\<lparr>valuePool := pl\<rparr>"
  using pool_fold_eq [where c = c and p = "valuePool c"] by (simp add: putValues_def)

lemma helper_step_put: "core_inv c st \<Longrightarrow> helper_step c (putValues vals c) st"
  using putValues_eq [of vals c] helper_step_pool by metis


section \<open>Values\<close>

lemma length_deterministic_fill: "sz \<le> int (length (deterministic_fill sz b))"
proof (induction sz b rule: deterministic_fill.induct)
  case (1 sz b)
  then show ?case by (cases "int (length b) < sz") (simp_all add: deterministic_fill.simps [of sz b])
qed

lemma length_deterministic_bytes:
  assumes "0 \<le> sz"
  shows "int (length (deterministic_bytes sz key f)) = sz"
proof -
  have "nat sz \<le> length (deterministic_fill sz (to_bytes (key @ '':'' @ ToLower f)))"
    using length_deterministic_fill [of sz "to_bytes (key @ '':'' @ ToLower f)"] by linarith
  then show ?thesis using assms unfolding deterministic_bytes_def length_take min_def by simp
qed

text \<open>A value that the workload may write: its length is in the configured range, and with data
  integrity it is the deterministic value of its key and field.\<close>

definition value_ok :: "core \<Rightarrow> string \<Rightarrow> string \<Rightarrow> bytes \<Rightarrow> bool" where
  "value_ok c key f v \<longleftrightarrow> gen_lo (fieldLengthGenerator c) \<le> int (length v) \<and> int (length v) \<le> gen_hi (fieldLengthGenerator c) \<and>
     (dataIntegrity c \<longrightarrow> v = deterministic_bytes (gen_hi (fieldLengthGenerator c)) key f)"

definition row_good :: "core \<Rightarrow> string \<Rightarrow> row \<Rightarrow> bool" where
  "row_good c key vals \<longleftrightarrow> wf_map vals \<and> fst ` set vals \<subseteq> set (fieldNames c) \<and>
     (\<forall>f v. map_of vals f = Some v \<longrightarrow> value_ok c key f v)"

lemma value_ok_config: "same_config c d \<Longrightarrow> value_ok d = value_ok c"
  by (simp add: same_config_def value_ok_def fun_eq_iff)

lemma row_good_config: "same_config c d \<Longrightarrow> row_good d = row_good c"
  by (simp add: row_good_def fun_eq_iff value_ok_config same_configD)

lemma buildDeterministicValue_ok:
  assumes "core_inv c st"
  shows "\<exists>n c' st'. buildDeterministicValue E c st key f = Ret (deterministic_bytes n key f, c', st') \<and> helper_step c c' st' \<and>
    gen_lo (fieldLengthGenerator c) \<le> n \<and> n \<le> gen_hi (fieldLengthGenerator c)"
proof -
  obtain n c1 st1 where n: "fieldLength_Next E c st = Ret (n, c1, st1)" "helper_step c c1 st1"
    "gen_lo (fieldLengthGenerator c) \<le> n" "n \<le> gen_hi (fieldLengthGenerator c)"
    using fieldLength_Next_ok [OF assms] by blast
  have "0 \<le> n" "n + 21 \<le> max64" using n(3,4) assms by (simp_all add: core_inv_def)
  then have w: "0 \<le> wrap64 (n + 21)" "\<not> n < 0" by (simp_all add: wrap64_id in64_def)
  obtain buf pl where b: "getValueBuffer (wrap64 (n + 21)) c1 = Ret (buf, c1\<lparr>valuePool := pl\<rparr>)"
    using getValueBuffer_ok [OF helper_stepD(1) [OF n(2)] w(1)] by blast
  show ?thesis
    using n b w(2) helper_step_trans [OF n(2) helper_step_pool [OF helper_stepD(1) [OF n(2)]]]
    by (auto simp: buildDeterministicValue_def)
qed

lemma buildRandomValue_ok:
  assumes "core_inv c st"
  shows "\<exists>v c' st'. buildRandomValue E c st = Ret (v, c', st') \<and> helper_step c c' st' \<and> set v \<subseteq> set letters \<and>
    gen_lo (fieldLengthGenerator c) \<le> int (length v) \<and> int (length v) \<le> gen_hi (fieldLengthGenerator c)"
proof -
  obtain n c1 st1 where n: "fieldLength_Next E c st = Ret (n, c1, st1)" "helper_step c c1 st1"
    "gen_lo (fieldLengthGenerator c) \<le> n" "n \<le> gen_hi (fieldLengthGenerator c)"
    using fieldLength_Next_ok [OF assms] by blast
  have n0: "0 \<le> n" using n(3) assms by (simp add: core_inv_def)
  obtain buf pl where b: "getValueBuffer n c1 = Ret (buf, c1\<lparr>valuePool := pl\<rparr>)" "length buf = nat n"
    using getValueBuffer_ok [OF helper_stepD(1) [OF n(2)] n0] by blast
  obtain v r where v: "RandBytes (state_r st1) buf = Ret (v, r)" "length v = length buf" "set v \<subseteq> set letters"
    using RandBytes_total [of "state_r st1" buf] by blast
  have "core_inv c1 (st1\<lparr>state_r := r\<rparr>)" using helper_stepD(1) [OF n(2)] by (simp add: core_inv_def)
  then have "helper_step c (c1\<lparr>valuePool := pl\<rparr>) (st1\<lparr>state_r := r\<rparr>)"
    using helper_step_trans [OF n(2) helper_step_pool] by blast
  then show ?thesis using n b v n0 by (simp add: buildRandomValue_def)
qed

lemma buildValue_ok:
  assumes "core_inv c st"
  shows "\<exists>v c' st'. buildValue E c st key f = Ret (v, c', st') \<and> helper_step c c' st' \<and> value_ok c key f v"
proof (cases "dataIntegrity c")
  case True
  then have "gen_lo (fieldLengthGenerator c) = gen_hi (fieldLengthGenerator c)" "0 \<le> gen_lo (fieldLengthGenerator c)"
    using assms by (simp_all add: core_inv_def)
  with True show ?thesis
    using buildDeterministicValue_ok [OF assms, of E key f] length_deterministic_bytes
    by (fastforce simp: buildValue_def value_ok_def)
next
  case False
  then show ?thesis using buildRandomValue_ok [OF assms, of E] by (fastforce simp: buildValue_def value_ok_def)
qed

lemma build_fields_ok:
  assumes "core_inv c st" "set fs \<subseteq> set (fieldNames c)" "row_good c key vals"
  shows "\<exists>res c' st'. build_fields E key fs vals c st = Ret (res, c', st') \<and> helper_step c c' st' \<and>
    row_good c key res \<and> dom (map_of res) = dom (map_of vals) \<union> set fs"
  using assms
proof (induction fs arbitrary: c st vals)
  case Nil
  then show ?case by (simp add: helper_step_refl)
next
  case (Cons f fs)
  obtain v c1 st1 where v: "buildValue E c st key f = Ret (v, c1, st1)" "helper_step c c1 st1" "value_ok c key f v"
    using buildValue_ok [OF Cons.prems(1)] by blast
  note same = helper_stepD(2) [OF v(2)]
  have "row_good c key (AList.update f v vals)"
    using Cons.prems v(3) by (auto simp: row_good_def update_conv' dom_update set_update simp flip: dom_map_of_conv_image_fst)
  then have "row_good c1 key (AList.update f v vals)" by (simp only: row_good_config [OF same])
  moreover have "set fs \<subseteq> set (fieldNames c1)" using Cons.prems(2) same_configD(3) [OF same] by simp
  ultimately obtain res c2 st2 where "build_fields E key fs (AList.update f v vals) c1 st1 = Ret (res, c2, st2)"
    "helper_step c1 c2 st2" "row_good c1 key res" "dom (map_of res) = dom (map_of (AList.update f v vals)) \<union> set fs"
    using Cons.IH [OF helper_stepD(1) [OF v(2)]] by blast
  then show ?case
    using v(1) helper_step_trans [OF v(2)] row_good_config [OF same] by (auto simp: update_conv')
qed

lemma buildValues_ok:
  assumes "core_inv c st"
  shows "\<exists>vals c' st'. buildValues E c st key = Ret (vals, c', st') \<and> helper_step c c' st' \<and>
    row_good c key vals \<and> dom (map_of vals) = set (fieldNames c)"
proof -
  have "state_fieldNames st = fieldNames c" using assms by (simp add: core_inv_def)
  then show ?thesis
    using build_fields_ok [OF assms, of "fieldNames c" key "[]" E] by (simp add: buildValues_def row_good_def)
qed

lemma buildSingleValue_ok:
  assumes "core_inv c st"
  shows "\<exists>vals c' st'. buildSingleValue E c st key = Ret (vals, c', st') \<and> helper_step c c' st' \<and>
    row_good c key vals \<and> (\<exists>f. dom (map_of vals) = {f})"
proof -
  obtain f c1 st1 where f: "chooseField E c st = Ret (f, c1, st1)" "helper_step c c1 st1" "f \<in> set (fieldNames c)"
    using chooseField_ok [OF assms] by blast
  obtain v c2 st2 where v: "buildValue E c1 st1 key f = Ret (v, c2, st2)" "helper_step c1 c2 st2" "value_ok c1 key f v"
    using buildValue_ok [OF helper_stepD(1) [OF f(2)]] by blast
  have "row_good c key [(f, v)]"
    using f(3) v(3) value_ok_config [OF helper_stepD(2) [OF f(2)]] by (simp add: row_good_def)
  then show ?thesis using f v helper_step_trans [OF f(2) v(2)] by (auto simp: buildSingleValue_def)
qed

lemma writeValues_ok:
  assumes "core_inv c st"
  shows "\<exists>vals c' st'. writeValues E c st key = Ret (vals, c', st') \<and> helper_step c c' st' \<and> row_good c key vals"
  using buildValues_ok [OF assms, of E key] buildSingleValue_ok [OF assms, of E key] unfolding writeValues_def
  by (cases "writeAllFields c") auto

lemma readFields_ok:
  assumes "core_inv c st"
  shows "\<exists>fs c' st'. readFields E c st = Ret (fs, c', st') \<and> helper_step c c' st' \<and> set fs \<subseteq> set (fieldNames c)"
proof (cases "readAllFields c")
  case True
  then show ?thesis using assms helper_step_refl [OF assms] by (simp add: readFields_def core_inv_def)
next
  case False
  then show ?thesis using chooseField_ok [OF assms, of E] by (fastforce simp: readFields_def)
qed

text \<open>With a fixed length, \<^verbatim>\<open>verifyRow\<close> passes exactly the deterministic values.\<close>

lemma verify_fields_cases:
  assumes "core_inv c st" "gen_lo (fieldLengthGenerator c) = n" "gen_hi (fieldLengthGenerator c) = n"
  shows "(\<forall>(f, v) \<in> set vals. v = deterministic_bytes n key f) \<and>
      (\<exists>c' st'. verify_fields E key vals c st = Ret (c', st') \<and> helper_step c c' st') \<or>
    (\<exists>(f, v) \<in> set vals. v \<noteq> deterministic_bytes n key f) \<and>
      verify_fields E key vals c st = Exit ''unexpected deterministic value''"
  using assms
proof (induction vals arbitrary: c st)
  case Nil
  then show ?case by (simp add: helper_step_refl)
next
  case (Cons a vals)
  obtain f v where a: "a = (f, v)" by fastforce
  obtain c1 st1 where b: "buildDeterministicValue E c st key f = Ret (deterministic_bytes n key f, c1, st1)" "helper_step c c1 st1"
    using buildDeterministicValue_ok [OF Cons.prems(1), of E key f] Cons.prems(2,3) by fastforce
  have g: "gen_lo (fieldLengthGenerator c1) = n" "gen_hi (fieldLengthGenerator c1) = n"
    using helper_stepD(2) [OF b(2)] Cons.prems(2,3) by (simp_all add: same_config_def)
  show ?case
  proof (cases "v = deterministic_bytes n key f")
    case True
    then show ?thesis
      using Cons.IH [OF helper_stepD(1) [OF b(2)] g] b(1) helper_step_trans [OF b(2)] by (auto simp: a)
  qed (simp add: a b(1))
qed

lemma verifyRow_ok:
  assumes "core_inv c st" "dataIntegrity c" "\<And>f v. (f, v) \<in> set vals \<Longrightarrow> value_ok c key f v"
  shows "\<exists>c' st'. verifyRow E c st key vals = Ret (c', st') \<and> helper_step c c' st'"
proof -
  have "gen_lo (fieldLengthGenerator c) = gen_hi (fieldLengthGenerator c)" using assms(1,2) by (simp add: core_inv_def)
  moreover have "\<forall>(f, v) \<in> set vals. v = deterministic_bytes (gen_hi (fieldLengthGenerator c)) key f"
    using assms(2,3) by (auto simp: value_ok_def)
  ultimately have "\<exists>c' st'. verify_fields E key vals c st = Ret (c', st') \<and> helper_step c c' st'"
    using verify_fields_cases [OF assms(1) _ refl, of vals key E] by auto
  then show ?thesis using helper_step_refl [OF assms(1)] by (auto simp: verifyRow_def)
qed


section \<open>Key numbers\<close>

lemma nextKeyNum_ok:
  assumes "core_inv c st" "gen_ok (keyChooser c)"
  shows "\<exists>k c' st'. nextKeyNum E c st = Ret (k, c', st') \<and> core_inv c' st' \<and> same_config c c' \<and>
    keySequence c' = keySequence c \<and> transactionInsertKeySequence c' = transactionInsertKeySequence c \<and>
    gen_lo (keyChooser c) \<le> k \<and> k \<le> gen_hi (keyChooser c) \<and> gen_ok (keyChooser c') \<and>
    gen_lo (keyChooser c') = gen_lo (keyChooser c) \<and> gen_hi (keyChooser c') = gen_hi (keyChooser c)"
proof -
  obtain v g r where g: "gen_Next (env_math E) (Ack_Last (transactionInsertKeySequence c)) (keyChooser c) (state_r st) = Ret (v, g, r)"
    "gen_lo (keyChooser c) \<le> v" "v \<le> gen_hi (keyChooser c)" "gen_ok g"
    "gen_lo g = gen_lo (keyChooser c)" "gen_hi g = gen_hi (keyChooser c)"
    by (rule gen.next_obtain [OF assms(2)])
  then show ?thesis
    using assms gen_Next_not_Exponential [OF assms(2)] gen_Next_key_gen [OF g(1)]
    by (simp add: nextKeyNum_def core_inv_def same_config_def)
qed

text \<open>Whatever the chooser, drawing a key number leaves the configuration alone.\<close>

lemma nextKey_loop_inv:
  "core_inv c st \<Longrightarrow> nextKey_loop fuel E c st = Ret (k, c', st') \<Longrightarrow>
     core_inv c' st' \<and> same_config c c' \<and> keySequence c' = keySequence c \<and>
     transactionInsertKeySequence c' = transactionInsertKeySequence c \<and> 0 \<le> k \<and> in64 k"
proof (induction fuel arbitrary: c st)
  case (Suc fuel)
  let ?b = "Ack_Last (transactionInsertKeySequence c)"
  obtain v g r where g: "gen_Next (env_math E) ?b (keyChooser c) (state_r st) = Ret (v, g, r)"
    using Suc.prems(2) by (auto simp: obind_eq_Ret)
  have inv: "core_inv (c\<lparr>keyChooser := g\<rparr>) (st\<lparr>state_r := r\<rparr>)" using Suc.prems(1) by (simp add: core_inv_def)
  show ?case
  proof (cases "wrap64 (?b - v) < 0")
    case True
    then show ?thesis using Suc.IH [OF inv] Suc.prems(2) g gen_Next_key_gen [OF g] by (simp add: same_config_def)
  next
    case False
    then show ?thesis using Suc.prems inv g gen_Next_key_gen [OF g] by (auto simp: same_config_def)
  qed
qed simp

lemma nextKeyNum_inv:
  assumes "core_inv c st" "nextKeyNum E c st = Ret (k, c', st')"
  shows "core_inv c' st'" "same_config c c'" "keySequence c' = keySequence c"
    "transactionInsertKeySequence c' = transactionInsertKeySequence c" "key_gen (keyChooser c) \<Longrightarrow> in64 k"
proof -
  have "core_inv c' st' \<and> same_config c c' \<and> keySequence c' = keySequence c \<and>
      transactionInsertKeySequence c' = transactionInsertKeySequence c \<and> (key_gen (keyChooser c) \<longrightarrow> in64 k)"
  proof (cases "is_Exponential (keyChooser c)")
    case True
    then show ?thesis using assms(2) nextKey_loop_inv [OF assms(1)] by (simp add: nextKeyNum_def)
  next
    case False
    then obtain g r where "gen_Next (env_math E) (Ack_Last (transactionInsertKeySequence c)) (keyChooser c) (state_r st) = Ret (k, g, r)"
      "c' = c\<lparr>keyChooser := g\<rparr>" "st' = st\<lparr>state_r := r\<rparr>"
      using assms(2) by (auto simp: nextKeyNum_def obind_eq_Ret)
    then show ?thesis using assms(1) gen_Next_key_gen gen_Next_in64 by (simp add: core_inv_def same_config_def)
  qed
  then show "core_inv c' st'" "same_config c c'" "keySequence c' = keySequence c"
    "transactionInsertKeySequence c' = transactionInsertKeySequence c" "key_gen (keyChooser c) \<Longrightarrow> in64 k" by simp_all
qed

lemma length_buildKeyName:
  assumes "0 \<le> zeroPadding c" "zeroPadding c \<le> 1000000" "in64 n"
  shows "buildKeyName c n \<noteq> []"
    "length (buildKeyName c n) \<le> length (GetString (core_p c) prop_KeyPrefix prop_KeyPrefixDefault) + max (nat (zeroPadding c)) 20"
  using length_fmt_0d_le [OF assms(1,2), of n] length_fmt_0d_le [OF assms(1,2), of "Hash64 n"] assms(3)
  by (auto simp: buildKeyName_def Let_def)


section \<open>A workload that was just created\<close>

lemma core_Create_fields:
  assumes "core_Create E p = Ret c"
  shows "core_p c = p" "core_table c = GetString p prop_TableName prop_TableNameDefault"
    "fieldCount c = GetInt64 p prop_FieldCount prop_FieldCountDefault" "0 \<le> fieldCount c"
    "fieldNames c = field_names (nat (fieldCount c))"
    "getFieldLengthGenerator E p = Ret (fieldLengthGenerator c)"
    "dataIntegrity c \<longrightarrow> GetString p prop_FieldLengthDistribution prop_FieldLengthDistributionDefault = ''constant''"
    "fieldChooser c = GUniform (NewUniform 0 (wrap64 (fieldCount c - 1)))"
    "valuePool_New c = GetInt64 p prop_FieldLength prop_FieldLengthDefault"
    "insertionRetryLimit c = GetInt64 p prop_InsertionRetryLimit prop_InsertionRetryLimitDefault"
    "keySequence c = NewCounter (GetInt64 p prop_InsertStart prop_InsertStartDefault)"
    "zeroPadding c = GetInt64 p prop_ZeroPadding prop_ZeroPaddingDefault"
    "newKeyChooser E p (core_recordCount c) (GetInt64 p prop_InsertStart prop_InsertStartDefault)
       (GetInt64 p prop_InsertCount (wrap64 (core_recordCount c - GetInt64 p prop_InsertStart prop_InsertStartDefault)))
       (transactionInsertKeySequence c) = Ret (keyChooser c)"
    "dataIntegrity c = GetBool p prop_DataIntegrity prop_DataIntegrityDefault"
    "orderedInserts c = (GetString p prop_InsertOrder prop_InsertOrderDefault \<noteq> ''hashed'')"
    "core_recordCount c = (if GetInt64 p prop_RecordCount prop_RecordCountDefault = 0 then 2147483647
       else GetInt64 p prop_RecordCount prop_RecordCountDefault)"
  using assms by (auto simp: core_Create_def newFieldNames_def obind_eq_Ret Let_def split: if_splits)

lemma newKeyChooser_key_gen: "newKeyChooser E p n start cnt ack = Ret g \<Longrightarrow> key_gen g"
  by (auto simp: newKeyChooser_def Let_def split: if_splits)

lemma core_Create_inv:
  assumes "core_Create E p = Ret c" "0 < fieldCount c" "fieldCount c \<le> max64"
    and "GetString p prop_FieldLengthDistribution prop_FieldLengthDistributionDefault = ''constant''"
    and "GetInt64 p prop_FieldLength prop_FieldLengthDefault = len" "0 \<le> len" "len \<le> max64 - 21"
  shows "core_inv c (core_InitThread r c)" "gen_hi (fieldLengthGenerator c) = len"
proof -
  note f = core_Create_fields [OF assms(1)]
  have g: "fieldLengthGenerator c = GConstant (NewConstant len)"
    using f(6) assms(4,5) by (simp add: getFieldLengthGenerator_def ToLower_def lower_char_def)
  have w: "wrap64 (fieldCount c - 1) = fieldCount c - 1" using assms(2,3) by (intro wrap64_id) (simp add: in64_def)
  have "uniform_ok (NewUniform 0 (fieldCount c - 1))" using assms(2,3) by (intro NewUniform_ok) (simp_all add: in64_def)
  moreover have "length (field_names (nat (fieldCount c))) = nat (fieldCount c)" by (simp add: field_names_def)
  ultimately show "core_inv c (core_InitThread r c)"
    using assms(2,5-7) f(9) unfolding core_inv_def core_InitThread_def g f(8) w f(5)
    by (simp add: NewConstant_def in64_def NewUniform_def)
  show "gen_hi (fieldLengthGenerator c) = len" by (simp add: g NewConstant_def)
qed

end
