(* ===== verification/WorkloadProps.thy ===== *)
theory WorkloadProps
  imports WorkloadFacts
begin

text \<open>
  Properties of the core workload on its own: the keys and values it builds, the check of read rows, the
  insertion loop, and the configurations it refuses.
\<close>

section \<open>Keys in order\<close>

lemma decimal_val_Cons: "decimal_val (c # s) = digit_val c * 10 ^ length s + decimal_val s"
proof -
  have "foldl (\<lambda>a c. 10 * a + digit_val c) a s = a * 10 ^ length s + decimal_val s" for a
  proof (induction s rule: rev_induct)
    case (snoc x s)
    then show ?case by (simp add: decimal_val_def algebra_simps)
  qed (simp add: decimal_val_def)
  from this [of "digit_val c"] show ?thesis by (simp add: decimal_val_def)
qed

lemma decimal_val_bound: "(\<And>c. c \<in> set s \<Longrightarrow> digit_char c) \<Longrightarrow> decimal_val s < 10 ^ length s"
proof (induction s)
  case (Cons c s)
  have "digit_char c" using Cons.prems by simp
  then have "digit_val c \<le> 9" unfolding digit_val_def digit_char_def by linarith
  then have "digit_val c * 10 ^ length s \<le> 9 * 10 ^ length s" by (rule mult_right_mono) simp
  moreover have "decimal_val s < 10 ^ length s" using Cons by simp
  ultimately show ?case unfolding decimal_val_Cons length_Cons power_Suc by linarith
qed (simp add: decimal_val_def)

text \<open>Digit strings of the same length compare like the numbers.\<close>

lemma decimal_val_less:
  assumes "length s = length t" "\<And>c. c \<in> set s \<union> set t \<Longrightarrow> digit_char c" "decimal_val s < decimal_val t"
  shows "s < t"
  using assms
proof (induction s t rule: list_induct2)
  case (Cons c s d t)
  have digits: "digit_char x" if "x \<in> set s \<or> x \<in> set t \<or> x = c \<or> x = d" for x using Cons.prems(1) [of x] that by auto
  have b: "decimal_val s < 10 ^ length t" "decimal_val t < 10 ^ length t" "digit_char c" "digit_char d"
    using decimal_val_bound [of s] decimal_val_bound [of t] digits Cons.hyps by metis+
  have "digit_val c \<le> digit_val d"
  proof (rule ccontr)
    assume "\<not> ?thesis"
    then have "(digit_val d + 1) * 10 ^ length t \<le> digit_val c * 10 ^ length t" by (intro mult_right_mono) auto
    then show False
      using Cons.prems(2) b(1,2) unfolding decimal_val_Cons Cons.hyps distrib_right mult_1 by linarith
  qed
  then consider "digit_val c < digit_val d" | "digit_val c = digit_val d" by linarith
  then show ?case
  proof cases
    case 1
    then have "(of_char c :: nat) < of_char d" unfolding digit_val_def by linarith
    then have "c < d" by (simp add: less_char_def)
    then show ?thesis by simp
  next
    case 2
    then have "(of_char c :: nat) = of_char d" using b(3,4) unfolding digit_val_def digit_char_def by linarith
    then have "c = d" by (simp add: of_char_eq_iff)
    moreover have "decimal_val s < decimal_val t" using Cons.prems(2) 2 unfolding decimal_val_Cons Cons.hyps by simp
    then have "s < t" using digits by (intro Cons.IH) auto
    ultimately show ?thesis by simp
  qed
qed (simp add: decimal_val_def)

lemma fmt_0d_padded:
  assumes "0 < w" "w \<le> 1000000" "0 \<le> x" "x < 10 ^ nat w"
  shows "length (fmt_0d w x) = nat w" "decimal_val (fmt_0d w x) = nat x" "c \<in> set (fmt_0d w x) \<Longrightarrow> digit_char c"
proof -
  have "nat x < 10 ^ nat w" using assms(3,4) by (simp add: nat_less_iff)
  then have "length (decimal (nat x)) \<le> nat w" using assms(1) by (intro length_decimal) auto
  then show "length (fmt_0d w x) = nat w" using assms(1-3) by (simp add: fmt_0d_def Let_def)
  show "decimal_val (fmt_0d w x) = nat x" using assms(1-3) by (simp add: fmt_0d_def Let_def decimal_val_zeros)
  show "digit_char c" if "c \<in> set (fmt_0d w x)"
    using that assms(1-3) decimal_digits [of c "nat x"] by (auto simp: fmt_0d_def Let_def digit_char_def split: if_splits)
qed

lemma append_less_append: "s < t \<Longrightarrow> u @ s < u @ (t :: string)"
  by (induction u) simp_all

text \<open>(C34) With ordered inserts the keys of different records differ, and zero padding that is wide enough makes
  the byte order of the keys, which is the order of scans, the order of the key numbers.\<close>

theorem buildKeyName_ordered:
  assumes "orderedInserts c" "0 \<le> zeroPadding c" "zeroPadding c \<le> 1000000" "0 \<le> i" "0 \<le> j"
  shows "(buildKeyName c i = buildKeyName c j \<longleftrightarrow> i = j) \<and>
    (0 < zeroPadding c \<and> i < j \<and> j < 10 ^ nat (zeroPadding c) \<longrightarrow> buildKeyName c i < buildKeyName c j)"
proof -
  have "i = j" if "buildKeyName c i = buildKeyName c j"
    using that fmt_0d_inject [OF assms(2-5)] assms(1) by (simp add: buildKeyName_def)
  moreover have "fmt_0d (zeroPadding c) i < fmt_0d (zeroPadding c) j"
    if *: "0 < zeroPadding c" "i < j" "j < 10 ^ nat (zeroPadding c)"
  proof (rule decimal_val_less)
    have i: "i < 10 ^ nat (zeroPadding c)" using * by simp
    note f = fmt_0d_padded [OF *(1) assms(3)]
    show "length (fmt_0d (zeroPadding c) i) = length (fmt_0d (zeroPadding c) j)" using f(1) [OF assms(4) i] f(1) [OF assms(5) *(3)] by simp
    show "decimal_val (fmt_0d (zeroPadding c) i) < decimal_val (fmt_0d (zeroPadding c) j)"
      using f(2) [OF assms(4) i] f(2) [OF assms(5) *(3)] assms(4) *(2) by simp
    show "digit_char d" if "d \<in> set (fmt_0d (zeroPadding c) i) \<union> set (fmt_0d (zeroPadding c) j)" for d
      using that f(3) [OF assms(4) i] f(3) [OF assms(5) *(3)] by blast
  qed
  ultimately show ?thesis using assms(1) by (auto simp: buildKeyName_def intro: append_less_append)
qed

section \<open>Configuration\<close>

lemma newKeyChooser_cases:
  "(\<exists>g. newKeyChooser E p n s m a = Ret g) \<and> GetString p prop_RequestDistribution prop_RequestDistributionDefault
      \<in> {''uniform'', ''sequential'', ''zipfian'', ''latest'', ''hotspot'', ''exponential''} \<or>
    (\<exists>msg. newKeyChooser E p n s m a = Exit msg) \<and> GetString p prop_RequestDistribution prop_RequestDistributionDefault
      \<notin> {''uniform'', ''sequential'', ''zipfian'', ''latest'', ''hotspot'', ''exponential''}"
proof -
  define d where "d = GetString p prop_RequestDistribution prop_RequestDistributionDefault"
  show ?thesis unfolding newKeyChooser_def Let_def d_def [symmetric] insert_iff empty_iff by (simp split: if_split)
qed

lemma newScanLength_cases:
  "(\<exists>g. newScanLength E p = Ret g) \<and>
      GetString p prop_ScanLengthDistribution prop_ScanLengthDistributionDefault \<in> {''uniform'', ''zipfian''} \<or>
    (\<exists>msg. newScanLength E p = Exit msg) \<and>
      GetString p prop_ScanLengthDistribution prop_ScanLengthDistributionDefault \<notin> {''uniform'', ''zipfian''}"
  by (simp add: newScanLength_def Let_def)


text \<open>A configuration for the examples: three fields of twenty bytes, ordered keys, data integrity.\<close>

definition sample_env :: env where
  "sample_env = \<lparr>env_math = \<lparr>math_Pow = (\<lambda>x y. x), math_Log = (\<lambda>x. x)\<rparr>, env_readFile = (\<lambda>_. Inl ''no such file''),
     env_seed = (\<lambda>_ _. 0), env_fuel = 100\<rparr>"

definition sample_props :: properties where
  "sample_props = with_bools [(prop_DataIntegrity, True), (prop_DoTransactions, False)]
     (with_strings [(prop_InsertOrder, ''ordered'')]
       (with_ints [(prop_RecordCount, 4), (prop_FieldCount, 3), (prop_FieldLength, 20), (prop_ZeroPadding, 8), (prop_ThreadCount, 2),
          (prop_InsertionRetryLimit, 2)] no_properties))"

lemma sample_create: "\<exists>c. core_Create sample_env sample_props = Ret c"
  by (simp add: core_Create_def sample_props_def newFieldNames_def getFieldLengthGenerator_def newKeyChooser_def newScanLength_def
      ToLower_def lower_char_def wrap64_def)

definition sample_core :: core where
  "sample_core = (case core_Create sample_env sample_props of Ret c \<Rightarrow> c | _ \<Rightarrow> undefined)"

lemma sample_core: "core_Create sample_env sample_props = Ret sample_core"
  using sample_create by (auto simp: sample_core_def)

lemmas sample_core_fields = core_Create_fields [OF sample_core]

lemma sample_core_more: "orderedInserts sample_core" "dataIntegrity sample_core" "zeroPadding sample_core = 8"
  "insertionRetryLimit sample_core = 2" "fieldNames sample_core = field_names 3" "core_table sample_core = ''usertable''"
  using sample_core_fields(2,3,5,10,12,14,15) by (simp_all add: sample_props_def)

lemma sample_core_inv: "core_inv sample_core (core_InitThread r sample_core)" "gen_hi (fieldLengthGenerator sample_core) = 20"
  using core_Create_inv [OF sample_core, of 20] sample_core_fields(3) by (simp_all add: sample_props_def)


theorem buildKeyName_ordered_witness: "buildKeyName sample_core 9 < buildKeyName sample_core 10"
  using buildKeyName_ordered [of sample_core 9 10] sample_core_more by simp

section \<open>Deterministic values\<close>

text \<open>(C10) With data integrity, the row that one worker builds for a key has every field, each of the configured
  length, and another worker accepts a row that was read for the key exactly if every value in it is the
  built one. One wrong value ends the process.\<close>

theorem verifyRow_detects:
  assumes "core_inv c st" "core_inv d st'" "same_config c d" "dataIntegrity c"
  shows "\<exists>vals c' st2. buildValues E c st key = Ret (vals, c', st2) \<and> dom (map_of vals) = set (fieldNames c) \<and>
    (\<forall>v \<in> ran (map_of vals). int (length v) = gen_hi (fieldLengthGenerator c)) \<and>
    (\<forall>row. fst ` set row \<subseteq> set (fieldNames c) \<longrightarrow>
      (if \<forall>(f, v) \<in> set row. map_of vals f = Some v then \<exists>d' st3. verifyRow E d st' key row = Ret (d', st3) \<and> core_inv d' st3
       else \<exists>msg. verifyRow E d st' key row = Exit msg))"
proof -
  define n where "n = gen_hi (fieldLengthGenerator c)"
  have g: "gen_lo (fieldLengthGenerator c) = n" "0 \<le> n" "gen_lo (fieldLengthGenerator d) = n" "gen_hi (fieldLengthGenerator d) = n"
    using assms by (simp_all add: n_def core_inv_def same_config_def)
  obtain vals c' st2 where b: "buildValues E c st key = Ret (vals, c', st2)" "row_good c key vals" "dom (map_of vals) = set (fieldNames c)"
    using buildValues_ok [OF assms(1)] by blast
  have val: "v = deterministic_bytes n key f" if "map_of vals f = Some v" for f v
    using b(2) that assms(4) by (auto simp: row_good_def value_ok_def n_def)
  have iff: "(\<forall>(f, v) \<in> set row. map_of vals f = Some v) \<longleftrightarrow> (\<forall>(f, v) \<in> set row. v = deterministic_bytes n key f)"
    if "fst ` set row \<subseteq> set (fieldNames c)" for row
  proof -
    have "map_of vals f = Some v \<longleftrightarrow> v = deterministic_bytes n key f" if "(f, v) \<in> set row" for f v
    proof -
      have "f \<in> dom (map_of vals)" using that \<open>fst ` set row \<subseteq> _\<close> b(3) by force
      then show ?thesis using val [of f] by auto
    qed
    then show ?thesis by blast
  qed
  have "if \<forall>(f, v) \<in> set row. map_of vals f = Some v then \<exists>d' st3. verifyRow E d st' key row = Ret (d', st3) \<and> core_inv d' st3
      else \<exists>msg. verifyRow E d st' key row = Exit msg" if "fst ` set row \<subseteq> set (fieldNames c)" for row
    using verify_fields_cases [OF assms(2) g(3,4), of row key E] iff [OF that] helper_stepD(1) assms(2)
    by (auto simp: verifyRow_def)
  moreover have "int (length v) = n" if "v \<in> ran (map_of vals)" for v
    using that val length_deterministic_bytes [OF g(2)] by (auto simp: ran_def)
  ultimately show ?thesis using b(1,3) by (auto simp: n_def)
qed

theorem verifyRow_detects_witness:
  "\<exists>vals c' st2. buildValues sample_env sample_core (core_InitThread (\<lambda>_. 0) sample_core) ''user1'' = Ret (vals, c', st2) \<and>
     dom (map_of vals) = set (field_names 3) \<and> (\<forall>v \<in> ran (map_of vals). length v = 20)"
  using verifyRow_detects [OF sample_core_inv(1) sample_core_inv(1) same_config_refl, of sample_env "\<lambda>_. 0" "''user1''" "\<lambda>_. 0"]
    sample_core_more sample_core_inv(2)
  by fastforce

section \<open>The insertion loop\<close>

text \<open>(C33) The loop around an insertion breaks on an error and goes on after a success, the reverse of what a
  retry does: a failed insertion is not repeated, whatever the limit, and a successful one is repeated until
  the limit is used up, so that it is done once more than the limit.\<close>

theorem retry_insert_inverted:
  assumes "0 \<le> insertionRetryLimit c" "insertionRetryLimit c < max64"
  shows "(ins w = Ret (Some e, w') \<longrightarrow> retry_insert ins ctx c r w = Ret (Some e, r, w')) \<and>
    ((\<forall>w. ins w = Ret (None, f w)) \<and> (\<forall>k. ctx k \<noteq> Some Canceled) \<longrightarrow>
      (\<exists>r'. retry_insert ins ctx c r w = Ret (None, r', (f ^^ Suc (nat (insertionRetryLimit c))) w)))"
proof -
  have loop: "\<exists>r'. insert_loop (Suc n) ins ctx k m (m - int n) r w = Ret (None, r', (f ^^ Suc n) w)"
    if "\<forall>w. ins w = Ret (None, f w)" "\<forall>k. ctx k \<noteq> Some Canceled" "0 \<le> m - int n" "m < max64" for n k m r w
    using that
  proof (induction n arbitrary: k r w)
    case 0
    then show ?case by (simp add: wrap64_id in64_def)
  next
    case (Suc n)
    have "wrap64 (m - int (Suc n) + 1) = m - int n" using Suc.prems by (simp add: wrap64_id in64_def)
    then show ?case using Suc.IH [of "Suc k" "rand_rest r" "f w"] Suc.prems
      by (simp add: funpow_swap1 rand_rest_def del: insert_loop.simps add: insert_loop.simps(2) [of "Suc n"])
  qed
  show ?thesis using loop [of "insertionRetryLimit c" "nat (insertionRetryLimit c)" 0 r w] assms by (simp add: retry_insert_def)
qed

theorem retry_insert_inverted_witness:
  "retry_insert (\<lambda>n. Ret (Some ''timeout'', Suc n)) (\<lambda>_. None) sample_core (\<lambda>_. 0) 0 = Ret (Some ''timeout'', (\<lambda>_. 0), 1) \<and>
   (\<exists>r'. retry_insert (\<lambda>n. Ret (None, Suc n)) (\<lambda>_. None) sample_core (\<lambda>_. 0) 0 = Ret (None, r', 3))"
  using retry_insert_inverted [of sample_core "\<lambda>n. Ret (Some ''timeout'', Suc n)" 0 "''timeout''" 1 "\<lambda>_. None" "\<lambda>_. 0" Suc]
    retry_insert_inverted [of sample_core "\<lambda>n. Ret (None, Suc n)" 0 "''timeout''" 1 "\<lambda>_. None" "\<lambda>_. 0" Suc]
  by (simp add: sample_core_more eval_nat_numeral)

end
