(* ===== verification/Database.thy ===== *)
theory Database
  imports WorkloadFacts
begin

text \<open>
  What the workload relies on from a database layer, and what follows for the workload.

  The contract \<open>kv_database\<close> says that a layer is a table of rows: an insert replaces a row, an update
  overwrites fields of an existing row, a read gives the fields asked for. The measuring wrapper keeps
  the contract. In it, the operations of the workload keep every stored value deterministic when data
  integrity is on, so that no check of a read row fails, and records that were loaded are found.
\<close>

section \<open>No helper ends the process\<close>

lemma gen_Next_no_Exit: "gen_Next M b g r \<noteq> Exit s"
  by (cases g) (auto simp: Uniform_Next_def Int63n_def Sequential_Next_def i64_rem_def Hotspot_Next_def Histogram_Next_def
      ScrambledZipfian_Next_def Let_def split: prod.splits sum.splits)

lemma Discrete_Next_no_Exit: "Discrete_Next d r \<noteq> Exit s"
  by (auto simp: Discrete_Next_def split: prod.splits option.splits)

lemma Acknowledge_no_Exit: "Acknowledge v a \<noteq> Exit s"
  by (auto simp: Acknowledge_def Lock_def TryLock_def Let_def split: prod.splits)

lemma nextKey_loop_no_Exit: "nextKey_loop fuel E c st \<noteq> Exit s"
proof (induction fuel arbitrary: c st)
  case (Suc fuel)
  then show ?case
    using gen_Next_no_Exit [of "env_math E" "Ack_Last (transactionInsertKeySequence c)" "keyChooser c" "state_r st"]
    by (cases "gen_Next (env_math E) (Ack_Last (transactionInsertKeySequence c)) (keyChooser c) (state_r st)")
      (auto simp: Let_def split: prod.splits)
qed simp

lemma obind_Exit: "obind m f = Exit s \<longleftrightarrow> m = Exit s \<or> (\<exists>x. m = Ret x \<and> f x = Exit s)"
  by (cases m) auto

lemma nextKeyNum_no_Exit: "nextKeyNum E c st \<noteq> Exit s"
  by (auto simp: nextKeyNum_def nextKey_loop_no_Exit obind_Exit gen_Next_no_Exit split: prod.splits)


section \<open>The insertion loop\<close>

text \<open>If every insertion succeeds, the loop ends within its fuel, and what one insertion establishes holds
  at the end.\<close>

lemma insert_loop_succeeds:
  assumes "\<And>w. I w \<Longrightarrow> \<exists>w'. ins w = Ret (None, w') \<and> J w'" "\<And>w. J w \<Longrightarrow> I w"
    and "I w" "0 < fuel" "maxRetries < n + int fuel" "0 \<le> n" "maxRetries < max64" "n \<le> max 0 maxRetries"
  shows "\<exists>r' w'. insert_loop fuel ins ctx k maxRetries n r w = Ret (None, r', w') \<and> J w'"
  using assms(3-8)
proof (induction fuel arbitrary: k n r w)
  case (Suc fuel)
  obtain w1 where w1: "ins w = Ret (None, w1)" "J w1" using assms(1) Suc.prems(1) by blast
  have n: "wrap64 (n + 1) = n + 1" using Suc.prems by (intro wrap64_id) (auto simp: in64_def)
  show ?case
  proof (cases "ctx k = Some Canceled \<or> maxRetries < n + 1")
    case True
    then show ?thesis using w1 by (auto simp: n)
  next
    case False
    then show ?thesis
      using Suc.IH [of w1 "n + 1" "Suc k" "snd (rand_Float64 r)"] Suc.prems w1 assms(2) [OF w1(2)] by (simp add: n rand_rest_def)
  qed
qed simp

lemma retry_insert_succeeds:
  assumes "\<And>w. I w \<Longrightarrow> \<exists>w'. ins w = Ret (None, w') \<and> J w'" "\<And>w. J w \<Longrightarrow> I w"
    and "I w" "insertionRetryLimit c < max64"
  shows "\<exists>r' w'. retry_insert ins ctx c r w = Ret (None, r', w') \<and> J w'"
  unfolding retry_insert_def
  by (rule insert_loop_succeeds [of I]) (use assms in auto)


section \<open>The contract of a database layer\<close>

type_synonym tables = "string \<Rightarrow> string \<rightharpoonup> (string \<rightharpoonup> bytes)"

definition put_row :: "string \<Rightarrow> string \<Rightarrow> (string \<rightharpoonup> bytes) \<Rightarrow> tables \<Rightarrow> tables" where
  "put_row t k m T = T(t := (T t)(k \<mapsto> m))"

text \<open>The answer to a read of the fields \<open>fs\<close> of a schema with \<open>n\<close> fields.\<close>

definition read_result :: "nat \<Rightarrow> (string \<rightharpoonup> bytes) option \<Rightarrow> string list \<Rightarrow> goerror + row \<Rightarrow> bool" where
  "read_result n r fs res = (case r of
       Some m \<Rightarrow> (\<exists>row. res = Inr row \<and> wf_map row \<and> map_of row = m |` set (if fs = [] then field_names n else fs))
     | None \<Rightarrow> (\<exists>e. res = Inl e) \<or> res = Inr [])"

text \<open>An update of a missing row may create it or be refused.\<close>

definition update_result :: "string \<Rightarrow> string \<Rightarrow> row \<Rightarrow> tables \<Rightarrow> goerror option \<Rightarrow> tables \<Rightarrow> bool" where
  "update_result t k v T e T' = (case T t k of
       Some m \<Rightarrow> e = None \<and> T' = put_row t k (m ++ map_of v) T
     | None \<Rightarrow> T' = T \<or> T' = put_row t k (map_of v) T)"

text \<open>The rows of a schema with \<open>n\<close> fields whose values have at most \<open>vmax\<close> bytes.\<close>

definition row_fits :: "nat \<Rightarrow> int \<Rightarrow> row \<Rightarrow> bool" where
  "row_fits n vmax v \<longleftrightarrow> codec_row n v \<and> (\<forall>x \<in> snd ` set v. int (length x) \<le> vmax)"

text \<open>\<open>key_ok\<close> says which tables and keys a layer accepts.\<close>

locale kv_database =
  fixes nf :: nat
    and vmax :: int
    and key_ok :: "string \<Rightarrow> string \<Rightarrow> bool"
    and db :: "('c, 'w) DB"
    and db_inv :: "'w \<Rightarrow> bool"
    and content :: "'w \<Rightarrow> tables"
  assumes insert_ok: "db_inv w \<Longrightarrow> key_ok t k \<Longrightarrow> row_fits nf vmax v \<Longrightarrow>
      \<exists>w'. db_Insert db c t k v w = Ret (None, w') \<and> db_inv w' \<and> content w' = put_row t k (map_of v) (content w)"
    and read_ok: "db_inv w \<Longrightarrow> key_ok t k \<Longrightarrow> set fs \<subseteq> set (field_names nf) \<Longrightarrow>
      \<exists>res w'. db_Read db c t k fs w = Ret (res, w') \<and> db_inv w' \<and> content w' = content w \<and>
        read_result nf (content w t k) fs res"
    and update_ok: "db_inv w \<Longrightarrow> key_ok t k \<Longrightarrow> row_fits nf vmax v \<Longrightarrow>
      \<exists>e w'. db_Update db c t k v w = Ret (e, w') \<and> db_inv w' \<and> update_result t k v (content w) e (content w')"
    and init_ok: "db_inv w \<Longrightarrow> \<exists>c w'. db_InitThread db i m w = Ret (c, w') \<and> db_inv w' \<and> content w' = content w"
    and scan_ok: "db_inv w \<Longrightarrow> set fs \<subseteq> set (field_names nf) \<Longrightarrow>
      osafe (db_Scan db c t k n fs w) (\<lambda>(res, w'). db_inv w' \<and> content w' = content w) \<and>
      (0 \<le> n \<longrightarrow> is_ret (db_Scan db c t k n fs w))"

lemma measured_safe:
  assumes "measuring H rt" "osafe (call d) (\<lambda>(res, d'). P d')"
  shows "osafe (measured H op err call (rt, d)) (\<lambda>(res, rt', d'). measuring H rt' \<and> P d') \<and>
    (is_ret (call d) \<longrightarrow> is_ret (measured H op err call (rt, d)))"
proof (cases "call d")
  case (Ret x)
  then show ?thesis
    using measured_samples [OF assms(1), of call d "fst x" "snd x" op err] assms(2) by auto
qed (use assms(2) in \<open>auto simp: measured_def split: prod.splits\<close>)

text \<open>The wrapper around a layer with the contract has the contract again.\<close>

locale measured_database = kv_database nf vmax key_ok db db_inv content
  for nf :: nat and vmax :: int and key_ok :: "string \<Rightarrow> string \<Rightarrow> bool" and db :: "('c, 'd) DB" and db_inv :: "'d \<Rightarrow> bool" and content :: "'d \<Rightarrow> tables" +
  fixes H :: "'h hdrlib"

sublocale measured_database \<subseteq> wrapped: kv_database nf vmax key_ok "DbWrapper H db"
  "\<lambda>(rt, d). measuring H rt \<and> db_inv d" "\<lambda>(rt, d). content d"
proof (unfold_locales, goal_cases)
  case (1 w t k v c)
  obtain rt d where w: "w = (rt, d)" by fastforce
  obtain d' where d': "db_Insert db c t k v d = Ret (None, d')" "db_inv d'" "content d' = put_row t k (map_of v) (content d)"
    using insert_ok [of d t k v c] 1 w by auto
  show ?case using measured_samples [of H rt "db_Insert db c t k v", OF _ d'(1)] d' 1
    by (fastforce simp: w DbWrapper_def wrap_Insert_def)
next
  case (2 w t k fs c)
  obtain rt d where w: "w = (rt, d)" by fastforce
  obtain res d' where d': "db_Read db c t k fs d = Ret (res, d')" "db_inv d'" "content d' = content d" "read_result nf (content d t k) fs res"
    using read_ok [of d t k fs c] 2 w by auto
  show ?case using measured_samples [of H rt "db_Read db c t k fs", OF _ d'(1)] d' 2
    by (fastforce simp: w DbWrapper_def wrap_Read_def)
next
  case (3 w t k v c)
  obtain rt d where w: "w = (rt, d)" by fastforce
  obtain e d' where d': "db_Update db c t k v d = Ret (e, d')" "db_inv d'" "update_result t k v (content d) e (content d')"
    using update_ok [of d t k v c] 3 w by auto
  show ?case using measured_samples [of H rt "db_Update db c t k v", OF _ d'(1)] d' 3
    by (fastforce simp: w DbWrapper_def wrap_Update_def)
next
  case (4 w i m)
  then show ?case using init_ok [of "snd w" i m]
    by (auto simp: DbWrapper_def wrap_InitThread_def unmeasured_def case_prod_unfold)
next
  case (5 w fs c t k n)
  obtain rt d where w: "w = (rt, d)" by fastforce
  show ?case using measured_safe [of H rt "db_Scan db c t k n fs" d "\<lambda>d'. db_inv d' \<and> content d' = content d" "''SCAN''" err_of]
      scan_ok [of d fs c t k n] 5 by (simp add: w DbWrapper_def wrap_Scan_def case_prod_unfold)
qed

section \<open>The workload on a database\<close>

text \<open>Every value in the table of the workload is one that the workload may have written there.\<close>

definition stored :: "core \<Rightarrow> tables \<Rightarrow> bool" where
  "stored c T \<longleftrightarrow> (\<forall>k m f v. T (core_table c) k = Some m \<longrightarrow> m f = Some v \<longrightarrow> value_ok c k f v)"

lemma stored_config: "same_config c d \<Longrightarrow> stored d T = stored c T"
  by (simp add: stored_def value_ok_config same_configD)

lemma stored_put:
  "stored c T \<Longrightarrow> (\<And>f v. m f = Some v \<Longrightarrow> value_ok c k f v) \<Longrightarrow> stored c (put_row (core_table c) k m T)"
  by (auto simp: stored_def put_row_def)

lemma put_row_same [simp]: "put_row t k m (put_row t k m' T) = put_row t k m T"
  by (simp add: put_row_def)

lemma put_row_get: "put_row t k m T t k' = (if k' = k then Some m else T t k')"
  by (simp add: put_row_def)

lemma stored_get: "stored c T \<Longrightarrow> T (core_table c) k = Some m \<Longrightarrow> m f = Some v \<Longrightarrow> value_ok c k f v"
  by (auto simp: stored_def)

lemma stored_update:
  assumes "stored c T" "row_good c k v" "update_result (core_table c) k v T e T'"
  shows "stored c T'"
proof (cases "T (core_table c) k")
  case None
  then have "T' = T \<or> T' = put_row (core_table c) k (map_of v) T" using assms(3) by (simp add: update_result_def)
  then show ?thesis using assms(1,2) by (auto simp: row_good_def intro: stored_put)
next
  case (Some m)
  then have T': "T' = put_row (core_table c) k (m ++ map_of v) T" using assms(3) by (simp add: update_result_def)
  show ?thesis unfolding T'
    using assms(1,2) stored_get [OF assms(1) Some] by (intro stored_put) (auto simp: row_good_def map_add_Some_iff)
qed

lemma row_good_fits:
  assumes "core_inv c st" "fieldNames c = field_names n" "gen_hi (fieldLengthGenerator c) \<le> vmax" "row_good c key vals"
  shows "row_fits n vmax vals"
proof -
  have "int (length v) \<le> max64 \<and> int (length v) \<le> vmax" if "(f, v) \<in> set vals" for f v
  proof -
    have "map_of vals f = Some v" using assms(4) that by (simp add: row_good_def wf_map_of_Some_iff)
    then have "value_ok c key f v" using assms(4) by (auto simp: row_good_def)
    then show ?thesis using assms(1,3) by (auto simp: value_ok_def core_inv_def)
  qed
  then show ?thesis using assms(2,4) by (auto simp: row_good_def codec_row_def row_fits_def)
qed

lemma read_values_ok:
  assumes "stored c T" "read_result n (T (core_table c) k) fs (Inr row)" "(f, v) \<in> set row"
  shows "value_ok c k f v"
proof (cases "T (core_table c) k")
  case None
  then show ?thesis using assms(2,3) by (simp add: read_result_def)
next
  case (Some m)
  then have "wf_map row" "map_of row = m |` set (if fs = [] then field_names n else fs)"
    using assms(2) by (auto simp: read_result_def)
  then have "m f = Some v" using assms(3) wf_map_of_Some_iff [of row f v] by (metis restrict_map_def option.distinct(1))
  then show ?thesis using stored_get [OF assms(1) Some] by blast
qed

text \<open>Within the contract: the state in which the operations run, and what each of them keeps.\<close>

context kv_database
begin

definition ready :: "core \<Rightarrow> coreState \<Rightarrow> 'w \<Rightarrow> bool" where
  "ready c st w \<longleftrightarrow> core_inv c st \<and> fieldNames c = field_names nf \<and> db_inv w \<and> stored c (content w) \<and>
     (\<forall>n. in64 n \<longrightarrow> key_ok (core_table c) (buildKeyName c n)) \<and> key_gen (keyChooser c) \<and> gen_hi (fieldLengthGenerator c) \<le> vmax"

lemma readyD: "ready c st w \<Longrightarrow> core_inv c st" "ready c st w \<Longrightarrow> fieldNames c = field_names nf"
  "ready c st w \<Longrightarrow> db_inv w" "ready c st w \<Longrightarrow> stored c (content w)"
  "ready c st w \<Longrightarrow> in64 n \<Longrightarrow> key_ok (core_table c) (buildKeyName c n)"
  "ready c st w \<Longrightarrow> gen_hi (fieldLengthGenerator c) \<le> vmax" "ready c st w \<Longrightarrow> key_gen (keyChooser c)"
  by (simp_all add: ready_def)

lemma ready_step:
  "ready c st w \<Longrightarrow> same_config c c' \<Longrightarrow> core_inv c' st' \<Longrightarrow> ready c' st' w"
  by (simp add: ready_def stored_config same_configD buildKeyName_config)

lemma ready_helper: "ready c st w \<Longrightarrow> helper_step c c' st' \<Longrightarrow> ready c' st' w"
  using ready_step helper_stepD by blast

lemma ready_world:
  "ready c st w \<Longrightarrow> db_inv w' \<Longrightarrow> stored c (content w') \<Longrightarrow> ready c st w'"
  by (simp add: ready_def)

definition after :: "core \<Rightarrow> (goerror option \<times> core \<times> coreState \<times> 'w) \<Rightarrow> bool" where
  "after c = (\<lambda>(e, c', st', w'). ready c' st' w' \<and> same_config c c')"

lemma afterI: "ready c' st' w' \<Longrightarrow> same_config c c' \<Longrightarrow> after c (e, c', st', w')"
  by (simp add: after_def)

lemma same_key: "same_config c d \<Longrightarrow> buildKeyName c n = buildKeyName d n"
  by (simp add: buildKeyName_config)

lemma insert_ready:
  assumes "ready c st w" "row_good c k vals" "k = buildKeyName c n" "in64 n"
  shows "\<exists>w'. db_Insert db dc (core_table c) k vals w = Ret (None, w') \<and> ready c st w' \<and>
    content w' = put_row (core_table c) k (map_of vals) (content w)"
proof -
  note r = readyD [OF assms(1)]
  obtain w' where "db_Insert db dc (core_table c) k vals w = Ret (None, w')" "db_inv w'"
    "content w' = put_row (core_table c) k (map_of vals) (content w)"
    using insert_ok [OF r(3) r(5) [OF assms(4), folded assms(3)] row_good_fits [OF r(1,2,6) assms(2)]] by blast
  moreover have "stored c (put_row (core_table c) k (map_of vals) (content w))"
    using stored_put [OF r(4)] assms(2) by (auto simp: row_good_def)
  ultimately show ?thesis using ready_world [OF assms(1)] by auto
qed

lemma update_ready:
  assumes "ready c st w" "row_good c k vals" "k = buildKeyName c n" "in64 n"
  shows "\<exists>e w'. db_Update db dc (core_table c) k vals w = Ret (e, w') \<and> ready c st w'"
proof -
  note r = readyD [OF assms(1)]
  obtain e w' where "db_Update db dc (core_table c) k vals w = Ret (e, w')" "db_inv w'"
    "update_result (core_table c) k vals (content w) e (content w')"
    using update_ok [OF r(3) r(5) [OF assms(4), folded assms(3)] row_good_fits [OF r(1,2,6) assms(2)]] by blast
  then show ?thesis using ready_world [OF assms(1)] stored_update [OF r(4) assms(2)] by blast
qed

lemma ready_key: "ready c st w \<Longrightarrow> same_config c0 c \<Longrightarrow> in64 n \<Longrightarrow> key_ok (core_table c) (buildKeyName c0 n)"
  using readyD(5) [of c st w n] buildKeyName_config [of c0 c] by simp

lemma read_ready:
  assumes "ready c st w" "set fs \<subseteq> set (fieldNames c)" "key_ok (core_table c) k"
  shows "\<exists>res w'. db_Read db dc (core_table c) k fs w = Ret (res, w') \<and> ready c st w' \<and> content w' = content w \<and>
    read_result nf (content w (core_table c) k) fs res"
proof -
  note r = readyD [OF assms(1)]
  have "set fs \<subseteq> set (field_names nf)" using assms(2) r(2) by simp
  then obtain res w' where "db_Read db dc (core_table c) k fs w = Ret (res, w')" "db_inv w'" "content w' = content w"
    "read_result nf (content w (core_table c) k) fs res"
    using read_ok [OF r(3) assms(3)] by blast
  then show ?thesis using ready_world [OF assms(1)] r(4) by auto
qed

lemma Counter_Next_in64: "in64 (fst (Counter_Next c))"
  by (simp add: Counter_Next_def Let_def)

lemma DoInsert_ready:
  assumes "ready c st w" "insertionRetryLimit c < max64"
  shows "\<exists>c' st' w' m. DoInsert E ctx db dc c st w = Ret (None, c', st', w') \<and> ready c' st' w' \<and> same_config c c' \<and>
    keySequence c' = snd (Counter_Next (keySequence c)) \<and> keyChooser c' = keyChooser c \<and>
    content w' = put_row (core_table c) (buildKeyName c (fst (Counter_Next (keySequence c)))) m (content w) \<and>
    dom m = set (fieldNames c)"
proof -
  define k where "k = buildKeyName c (fst (Counter_Next (keySequence c)))"
  obtain c0 where c0: "keySequence_Next c = (fst (Counter_Next (keySequence c)), c0)"
    "c0 = c\<lparr>keySequence := snd (Counter_Next (keySequence c))\<rparr>"
    by (simp add: keySequence_Next_def case_prod_unfold Let_def)
  have same0: "same_config c c0" by (simp add: c0(2) same_config_def)
  have r0: "ready c0 st w"
    using ready_step [OF assms(1) same0] readyD(1) [OF assms(1)] by (simp add: c0(2) core_inv_def)
  have k: "buildKeyName c0 (fst (Counter_Next (keySequence c))) = k" by (simp add: k_def buildKeyName_config [OF same0])
  obtain vals c1 st1 where v: "buildValues E c0 st k = Ret (vals, c1, st1)" "helper_step c0 c1 st1"
    "row_good c0 k vals" "dom (map_of vals) = set (fieldNames c0)"
    using buildValues_ok [OF readyD(1) [OF r0]] by blast
  note same = same_config_trans [OF same0 helper_stepD(2) [OF v(2)]]
  have r1: "ready c1 st1 w" by (rule ready_helper [OF r0 v(2)])
  have good: "row_good c1 k vals" using v(3) row_good_config [OF helper_stepD(2) [OF v(2)]] by simp
  have k1: "k = buildKeyName c1 (fst (Counter_Next (keySequence c)))" unfolding k_def by (rule same_key [OF same])
  define J where "J w' \<longleftrightarrow> ready c1 st1 w' \<and> content w' = put_row (core_table c) k (map_of vals) (content w)" for w'
  have tab: "core_table c1 = core_table c" using same_configD(2) [OF same] .
  have "\<exists>r' w'. retry_insert (db_Insert db dc (core_table c1) k vals) ctx c1 (state_r st1) w = Ret (None, r', w') \<and> J w'"
  proof (rule retry_insert_succeeds [where I = "\<lambda>u. ready c1 st1 u \<and> (content u = content w \<or> J u)"])
    fix u assume u: "ready c1 st1 u \<and> (content u = content w \<or> J u)"
    show "\<exists>w'. db_Insert db dc (core_table c1) k vals u = Ret (None, w') \<and> J w'"
      using insert_ready [OF conjunct1 [OF u] good k1 Counter_Next_in64, of dc] u by (auto simp: J_def tab)
  qed (use r1 assms(2) same in \<open>auto simp: J_def same_config_def\<close>)
  then obtain r' w' where l: "retry_insert (db_Insert db dc (core_table c1) k vals) ctx c1 (state_r st1) w = Ret (None, r', w')" "J w'"
    by blast
  have "core_inv c1 (st1\<lparr>state_r := r'\<rparr>)" using readyD(1) [OF r1] by (simp add: core_inv_def)
  note h = helper_step_put [OF this, of vals]
  have "ready (putValues vals c1) (st1\<lparr>state_r := r'\<rparr>) w'"
    using l(2) ready_step [OF _ helper_stepD(2) [OF h] helper_stepD(1) [OF h]] by (auto simp: J_def)
  moreover have "keySequence (putValues vals c1) = snd (Counter_Next (keySequence c))" "keyChooser (putValues vals c1) = keyChooser c"
    using helper_stepD(3) [OF v(2)] helper_stepD(3) [OF h] by (simp_all add: same_keys_def c0(2))
  ultimately show ?thesis
    using l v same_config_trans [OF same helper_stepD(2) [OF h]] c0(1) k same_configD(3) [OF same0]
    by (auto simp: DoInsert_def J_def k_def)
qed

text \<open>The transactions never end the process.\<close>

lemma nextKeyNum_safe:
  assumes "ready c st w"
  shows "osafe (nextKeyNum E c st) (\<lambda>(k, c', st'). ready c' st' w \<and> same_config c c' \<and> in64 k)"
  using readyD(7) [OF assms] nextKeyNum_inv [OF readyD(1) [OF assms]] ready_step [OF assms] nextKeyNum_no_Exit
  by (intro osafe_RetI) auto

lemma osafe_total: "\<exists>a b d. m = Ret (a, b, d) \<and> P a b d \<Longrightarrow> osafe m (\<lambda>(a, b, d). P a b d)"
  by auto

lemma readFields_safe:
  assumes "ready c st w"
  shows "osafe (readFields E c st) (\<lambda>(fs, c', st'). ready c' st' w \<and> same_config c c' \<and> set fs \<subseteq> set (fieldNames c'))"
proof -
  obtain fs c1 st1 where h: "readFields E c st = Ret (fs, c1, st1)" "helper_step c c1 st1" "set fs \<subseteq> set (fieldNames c)"
    using readFields_ok [OF readyD(1) [OF assms]] by blast
  then show ?thesis using ready_helper [OF assms h(2)] helper_stepD(2) [OF h(2)] by (simp add: same_configD(3))
qed

lemma writeValues_safe:
  assumes "ready c st w"
  shows "osafe (writeValues E c st k) (\<lambda>(vals, c', st'). ready c' st' w \<and> same_config c c' \<and> row_good c' k vals)"
proof -
  obtain vals c1 st1 where h: "writeValues E c st k = Ret (vals, c1, st1)" "helper_step c c1 st1" "row_good c k vals"
    using writeValues_ok [OF readyD(1) [OF assms]] by blast
  then show ?thesis using ready_helper [OF assms h(2)] helper_stepD(2) [OF h(2)] by (simp add: row_good_config)
qed

lemma buildValues_safe:
  assumes "ready c st w"
  shows "osafe (buildValues E c st k) (\<lambda>(vals, c', st'). ready c' st' w \<and> same_config c c' \<and> row_good c' k vals)"
proof -
  obtain vals c1 st1 where h: "buildValues E c st k = Ret (vals, c1, st1)" "helper_step c c1 st1" "row_good c k vals"
    using buildValues_ok [OF readyD(1) [OF assms]] by blast
  then show ?thesis using ready_helper [OF assms h(2)] helper_stepD(2) [OF h(2)] by (simp add: row_good_config)
qed

text \<open>The check of a row that was read from the table.\<close>

lemma verify_after:
  assumes "ready c st w" "same_config c0 c" "\<And>f v. (f, v) \<in> set row \<Longrightarrow> value_ok c k f v"
  shows "osafe (if dataIntegrity c then obind (verifyRow E c st k row) (\<lambda>(c, st). Ret (None, c, st, w))
    else Ret (None, c, st, w)) (after c0)"
proof (cases "dataIntegrity c")
  case True
  obtain c' st' where "verifyRow E c st k row = Ret (c', st')" "helper_step c c' st'"
    using verifyRow_ok [OF readyD(1) [OF assms(1)] True assms(3)] by blast
  then show ?thesis
    using True ready_helper [OF assms(1)] same_config_trans [OF assms(2) helper_stepD(2)] by (simp add: afterI)
qed (use assms in \<open>simp add: afterI\<close>)

lemma ready_put: "ready c st w \<Longrightarrow> ready (putValues vals c) st w \<and> same_config c (putValues vals c)"
  using helper_step_put [OF readyD(1)] ready_helper helper_stepD(2) by blast

lemma same_config_step: "same_config a b \<Longrightarrow> same_config b c \<and> P \<Longrightarrow> same_config a c"
  using same_config_trans by blast

text \<open>The read and the check that follows it, at the end of a transaction.\<close>

lemma read_verify_safe:
  assumes "ready c st w" "set fs \<subseteq> set (fieldNames c)" "same_config c0 c" "key_ok (core_table c) k"
    and "\<And>row w'. ready c st w' \<Longrightarrow> (\<And>f v. (f, v) \<in> set row \<Longrightarrow> value_ok c k f v) \<Longrightarrow> osafe (f row w') (after c0)"
  shows "osafe (obind (db_Read db dc (core_table c) k fs w) (\<lambda>(res, w). case res of
    Inl err \<Rightarrow> Ret (Some err, c, st, w) | Inr row \<Rightarrow> f row w)) (after c0)"
proof -
  obtain res w' where r: "db_Read db dc (core_table c) k fs w = Ret (res, w')" "ready c st w'" "content w' = content w"
    "read_result nf (content w (core_table c) k) fs res"
    using read_ready [OF assms(1,2,4)] by blast
  show ?thesis
  proof (cases res)
    case (Inr row)
    then have "value_ok c k f v" if "(f, v) \<in> set row" for f v
      using read_values_ok [OF readyD(4) [OF assms(1)]] r(4) that by blast
    then show ?thesis using assms(5) [OF r(2)] by (simp add: r(1) Inr)
  qed (use r assms(3) in \<open>simp add: afterI\<close>)
qed

lemma doTransactionRead_safe:
  assumes "ready c st w"
  shows "osafe (doTransactionRead E db dc c st w) (after c)"
  unfolding doTransactionRead_def Let_def
proof (rule osafe_bind [OF nextKeyNum_safe [OF assms]], clarify, goal_cases)
  case (1 keyNum c1 st1)
  show ?case
  proof (rule osafe_bind [OF readFields_safe [OF 1(1)]], clarify, goal_cases)
    case (1 fs c2 st2)
    note same = same_config_trans [OF \<open>same_config c c1\<close> 1(2)]
    show ?case by (rule read_verify_safe [OF 1(1,3) same ready_key [OF 1(1,2) \<open>in64 keyNum\<close>]]) (rule verify_after [OF _ same])
  qed
qed

text \<open>A read of keys that are all in the table finds its row.\<close>

lemma doTransactionRead_found:
  assumes "ready c st w" "gen_ok (keyChooser c)"
    and "\<And>j. gen_lo (keyChooser c) \<le> j \<Longrightarrow> j \<le> gen_hi (keyChooser c) \<Longrightarrow> content w (core_table c) (buildKeyName c j) \<noteq> None"
  shows "\<exists>c' st' w'. doTransactionRead E db dc c st w = Ret (None, c', st', w') \<and> ready c' st' w' \<and> same_config c c' \<and> content w' = content w"
proof -
  obtain k c1 st1 where k: "nextKeyNum E c st = Ret (k, c1, st1)" "core_inv c1 st1" "same_config c c1"
    "gen_lo (keyChooser c) \<le> k" "k \<le> gen_hi (keyChooser c)"
    using nextKeyNum_ok [OF readyD(1) [OF assms(1)] assms(2)] by blast
  have k64: "in64 k" using nextKeyNum_inv(5) [OF readyD(1) [OF assms(1)] k(1) readyD(7) [OF assms(1)]] .
  have r1: "ready c1 st1 w" by (rule ready_step [OF assms(1) k(3,2)])
  obtain fs c2 st2 where f: "readFields E c1 st1 = Ret (fs, c2, st2)" "helper_step c1 c2 st2" "set fs \<subseteq> set (fieldNames c1)"
    using readFields_ok [OF readyD(1) [OF r1]] by blast
  note same = same_config_trans [OF k(3) helper_stepD(2) [OF f(2)]]
  have r2: "ready c2 st2 w" "set fs \<subseteq> set (fieldNames c2)"
    using ready_helper [OF r1 f(2)] f(3) same_configD(3) [OF helper_stepD(2) [OF f(2)]] by simp_all
  obtain res w' where r: "db_Read db dc (core_table c2) (buildKeyName c1 k) fs w = Ret (res, w')" "ready c2 st2 w'" "content w' = content w"
    "read_result nf (content w (core_table c2) (buildKeyName c1 k)) fs res"
    using read_ready [OF r2 ready_key [OF r2(1) helper_stepD(2) [OF f(2)] k64]] by blast
  moreover have "content w (core_table c2) (buildKeyName c1 k) \<noteq> None"
    using assms(3) [OF k(4,5)] same_configD(2) [OF same] buildKeyName_config [OF k(3)] by simp
  ultimately obtain row where row: "res = Inr row" by (auto simp: read_result_def)
  have vals: "value_ok c2 (buildKeyName c1 k) f v" if "(f, v) \<in> set row" for f v
    using read_values_ok [OF readyD(4) [OF r2(1)] r(4) [unfolded row] that] .
  show ?thesis
  proof (cases "dataIntegrity c2")
    case True
    obtain c3 st3 where v: "verifyRow E c2 st2 (buildKeyName c1 k) row = Ret (c3, st3)" "helper_step c2 c3 st3"
      using verifyRow_ok [OF readyD(1) [OF r2(1)] True vals] by blast
    show ?thesis
      using k(1) f(1) r(1,3) v(1) True ready_helper [OF r(2) v(2)] same_config_trans [OF same helper_stepD(2) [OF v(2)]]
      by (simp add: doTransactionRead_def row Let_def)
  qed (use k(1) f(1) r(1,2,3) same in \<open>simp add: doTransactionRead_def row Let_def\<close>)
qed

lemma put_after: "ready c st w \<Longrightarrow> same_config c0 c \<Longrightarrow> after c0 (e, putValues vals c, st, w)"
  using ready_put [of c st w vals] same_config_trans by (blast intro: afterI)

lemma doTransactionUpdate_safe:
  assumes "ready c st w"
  shows "osafe (doTransactionUpdate E db dc c st w) (after c)"
  unfolding doTransactionUpdate_def Let_def
proof (rule osafe_bind [OF nextKeyNum_safe [OF assms]], clarify, goal_cases)
  case (1 keyNum c1 st1)
  then show ?case
  proof (intro osafe_bind [OF writeValues_safe [OF 1(1)]], clarify, goal_cases)
    case (1 vals c2 st2)
    then obtain e w' where "db_Update db dc (core_table c2) (buildKeyName c1 keyNum) vals w = Ret (e, w')" "ready c2 st2 w'"
      using update_ready [OF _ _ same_key \<open>in64 keyNum\<close>] by blast
    then show ?case using put_after [OF _ same_config_trans [OF \<open>same_config c c1\<close> \<open>same_config c1 c2\<close>]] by auto
  qed
qed

lemma insertSequence_Next_ready:
  assumes "ready c st w" "insertSequence_Next c = (k, c')"
  shows "ready c' st w" "same_config c c'" "in64 k"
proof -
  obtain a where c': "c' = c\<lparr>transactionInsertKeySequence := a\<rparr>"
    using assms(2) by (auto simp: insertSequence_Next_def split: prod.splits)
  show "in64 k" using assms(2) by (auto simp: insertSequence_Next_def Ack_Next_def Counter_Next_def Let_def)
  show "same_config c c'" by (simp add: c' same_config_def)
  with assms(1) show "ready c' st w" by (rule ready_step) (use readyD(1) [OF assms(1)] in \<open>simp add: c' core_inv_def\<close>)
qed

lemma insertSequence_Ack_safe:
  assumes "ready c st w" "same_config c0 c"
  shows "osafe (insertSequence_Ack k c) (\<lambda>c'. ready c' st w \<and> same_config c0 c')"
proof -
  have "ready (c\<lparr>transactionInsertKeySequence := a\<rparr>) st w \<and> same_config c0 (c\<lparr>transactionInsertKeySequence := a\<rparr>)" for a
  proof -
    have "same_config c (c\<lparr>transactionInsertKeySequence := a\<rparr>)" "core_inv (c\<lparr>transactionInsertKeySequence := a\<rparr>) st"
      using readyD(1) [OF assms(1)] by (simp_all add: same_config_def core_inv_def)
    then show ?thesis using ready_step [OF assms(1)] same_config_trans [OF assms(2)] by blast
  qed
  then show ?thesis
    using Acknowledge_no_Exit by (cases "Acknowledge k (transactionInsertKeySequence c)") (auto simp: insertSequence_Ack_def)
qed

lemma doTransactionInsert_safe:
  assumes "ready c st w"
  shows "osafe (doTransactionInsert E db dc c st w) (after c)"
proof -
  obtain k c1 where k: "insertSequence_Next c = (k, c1)" by fastforce
  note r1 = insertSequence_Next_ready [OF assms k]
  have "osafe (obind (buildValues E c1 st (buildKeyName c1 k)) (\<lambda>(vals, c, st).
      obind (db_Insert db dc (core_table c) (buildKeyName c1 k) vals w) (\<lambda>(err, w).
      obind (insertSequence_Ack k (putValues vals c)) (\<lambda>c. Ret (err, c, st, w))))) (after c)"
  proof (rule osafe_bind [OF buildValues_safe [OF r1(1)]], clarify, goal_cases)
    case (1 vals c2 st2)
    obtain w' where w': "db_Insert db dc (core_table c2) (buildKeyName c1 k) vals w = Ret (None, w')" "ready c2 st2 w'"
      using insert_ready [OF 1(1,3) same_key [OF 1(2)] r1(3)] by blast
    then show ?case
      using insertSequence_Ack_safe [of "putValues vals c2" st2 w' c k] ready_put [OF w'(2), of vals]
        same_config_trans [OF r1(2) same_config_trans [OF 1(2)]]
      by (auto intro!: osafe_bind [of "insertSequence_Ack k (putValues vals c2)"] afterI)
  qed
  then show ?thesis by (simp add: doTransactionInsert_def k Let_def)
qed

lemma doTransactionScan_safe:
  assumes "ready c st w"
  shows "osafe (doTransactionScan E db dc c st w) (after c)"
  unfolding doTransactionScan_def Let_def
proof (rule osafe_bind [OF nextKeyNum_safe [OF assms]], clarify, goal_cases)
  case (1 keyNum c1 st1)
  show ?case
  proof (rule osafe_bind [where P = "\<lambda>_. True"])
    show "osafe (gen_Next (env_math E) 0 (scanLength c1) (state_r st1)) (\<lambda>_. True)"
      using gen_Next_no_Exit by (intro osafe_RetI) auto
  next
    fix x :: "int \<times> generator \<times> rand"
    obtain n g r where x: "x = (n, g, r)" by (cases x) auto
    define c2 st2 where "c2 = c1\<lparr>scanLength := g\<rparr>" and "st2 = st1\<lparr>state_r := r\<rparr>"
    have s2: "same_config c1 c2" by (simp add: c2_def same_config_def)
    have r2: "ready c2 st2 w"
      by (rule ready_step [OF 1(1) s2]) (use readyD(1) [OF 1(1)] in \<open>simp add: c2_def st2_def core_inv_def\<close>)
    have "osafe (obind (readFields E c2 st2) (\<lambda>(flds, c, st).
        obind (db_Scan db dc (core_table c) (buildKeyName c1 keyNum) n flds w) (\<lambda>(res, w). Ret (err_of res, c, st, w)))) (after c)"
    proof (rule osafe_bind [OF readFields_safe [OF r2]], clarify, goal_cases)
      case (1 fs c3 st3)
      have "set fs \<subseteq> set (field_names nf)" using 1(3) readyD(2) [OF 1(1)] by simp
      then have "osafe (db_Scan db dc (core_table c3) (buildKeyName c1 keyNum) n fs w) (\<lambda>(res, w'). db_inv w' \<and> content w' = content w)"
        using scan_ok [OF readyD(3) [OF 1(1)]] by blast
      then show ?case
      proof (rule osafe_bind, clarify, goal_cases)
        case (1 res w')
        then show ?case
          using ready_world [OF \<open>ready c3 st3 w\<close>] readyD(4) [OF \<open>ready c3 st3 w\<close>] \<open>same_config c c1\<close> s2 \<open>same_config c2 c3\<close>
          by (auto intro!: afterI elim!: same_config_trans)
      qed
    qed
    then show "osafe (case x of (scanLen, g, r) \<Rightarrow> obind (readFields E (c1\<lparr>scanLength := g\<rparr>) (st1\<lparr>state_r := r\<rparr>)) (\<lambda>(flds, c, st).
        obind (db_Scan db dc (core_table c) (buildKeyName c1 keyNum) scanLen flds w) (\<lambda>(res, w). Ret (err_of res, c, st, w)))) (after c)"
      by (simp add: x c2_def st2_def)
  qed
qed

end

text \<open>Through the measuring wrapper.\<close>

context measured_database
begin

abbreviation wdb :: "('c, ('h, 'd) world) DB" where
  "wdb \<equiv> DbWrapper H db"

lemma ready_runtime:
  "wrapped.ready c st (rt, d) \<Longrightarrow> measuring H rt' \<Longrightarrow> wrapped.ready c st (rt', d)"
  by (auto simp: wrapped.ready_def)

lemma ready_measuring: "wrapped.ready c st (rt, d) \<Longrightarrow> measuring H rt"
  by (auto simp: wrapped.ready_def)

lemma doTransactionReadModifyWrite_safe:
  assumes "wrapped.ready c st w"
  shows "osafe (doTransactionReadModifyWrite H E wdb dc c st w) (wrapped.after c)"
proof -
  obtain rt d where w: "w = (rt, d)" by fastforce
  obtain start rt0 where t: "time_Now rt = (start, rt0)" by fastforce
  have r0: "wrapped.ready c st (rt0, d)"
    using ready_runtime assms time_Now_measuring(1) [OF ready_measuring t] by (auto simp: w)
  have finish: "osafe (let c' = putValues vals c'; (rt, d) = w'; (now, rt) = time_Now rt
      in obind (Measure H ''READ_MODIFY_WRITE'' start (time_Sub now start) rt) (\<lambda>rt. Ret (e, c', st', rt, d))) (wrapped.after c)"
    if after: "wrapped.after c (e, c', st', w')" for e c' st' w' vals
  proof -
    obtain rt1 d1 now rt2 where w': "w' = (rt1, d1)" "time_Now rt1 = (now, rt2)" by (metis surj_pair)
    have a: "wrapped.ready c' st' (rt1, d1)" "same_config c c'" using after by (simp_all add: wrapped.after_def w')
    obtain rt3 where rt3: "Measure H ''READ_MODIFY_WRITE'' start (time_Sub now start) rt2 = Ret rt3" "measuring H rt3"
      using Measure_measuring [OF time_Now_measuring(1) [OF ready_measuring [OF a(1)] w'(2)]] by blast
    have "wrapped.after c (e, putValues vals c', st', rt3, d1)"
      by (rule wrapped.put_after [OF ready_runtime [OF a(1) rt3(2)] a(2)])
    then show ?thesis by (simp add: w' rt3(1) Let_def)
  qed
  show ?thesis
    unfolding doTransactionReadModifyWrite_def w t prod.case Let_def [of "(rt, d)"] Let_def [of "(start, rt0)"] Let_def [of "(rt0, d)"]
  proof (rule osafe_bind [OF wrapped.nextKeyNum_safe [OF r0]], clarify, goal_cases)
    case (1 keyNum c1 st1)
    show ?case
      unfolding Let_def [of "buildKeyName c1 keyNum"]
    proof (rule osafe_bind [OF wrapped.readFields_safe [OF 1(1)]], clarify, goal_cases)
      case (1 fs c2 st2)
      show ?case
      proof (rule osafe_bind [OF wrapped.writeValues_safe [OF 1(1)]], clarify, goal_cases)
        case (1 vals c3 st3)
        have same: "same_config c c3" using \<open>same_config c c1\<close> \<open>same_config c1 c2\<close> 1(2) same_config_trans by blast
        have same1: "same_config c1 c3" using \<open>same_config c1 c2\<close> 1(2) same_config_trans by blast
        have key: "key_ok (core_table c3) (buildKeyName c1 keyNum)" by (rule wrapped.ready_key [OF 1(1) same1 \<open>in64 keyNum\<close>])
        have fs: "set fs \<subseteq> set (fieldNames c3)" using \<open>set fs \<subseteq> set (fieldNames c2)\<close> 1(2) by (simp add: same_configD(3))
        show ?case
        proof (rule osafe_bind [where P = "wrapped.after c"], rule wrapped.read_verify_safe [OF 1(1) fs same key], goal_cases)
          case (1 row w')
          then obtain e w2 where u: "db_Update wdb dc (core_table c3) (buildKeyName c1 keyNum) vals w' = Ret (e, w2)" "wrapped.ready c3 st3 w2"
            using wrapped.update_ready [OF 1(1) \<open>row_good c3 (buildKeyName c1 keyNum) vals\<close> wrapped.same_key [OF same1] \<open>in64 keyNum\<close>] by blast
          then show ?case
            using wrapped.verify_after [OF u(2) same 1(2)] same by (cases e) (auto intro!: wrapped.afterI)
        next
          case (2 x)
          then show ?case using finish by (cases x) auto
        qed
      qed
    qed
  qed
qed

lemma DoTransaction_safe:
  assumes "wrapped.ready c st w"
  shows "osafe (DoTransaction H E wdb dc c st w) (wrapped.after c)"
  unfolding DoTransaction_def
proof (rule osafe_bind [where P = "\<lambda>(op, c', st'). wrapped.ready c' st' w \<and> same_config c c'"], goal_cases)
  case 1
  have "wrapped.ready (c\<lparr>operationChooser := d\<rparr>) (st\<lparr>state_r := r\<rparr>) w \<and> same_config c (c\<lparr>operationChooser := d\<rparr>)" for d r
  proof -
    have "same_config c (c\<lparr>operationChooser := d\<rparr>)" "core_inv (c\<lparr>operationChooser := d\<rparr>) (st\<lparr>state_r := r\<rparr>)"
      using wrapped.readyD(1) [OF assms] by (simp_all add: same_config_def core_inv_def)
    then show ?thesis using wrapped.ready_step [OF assms] by blast
  qed
  then show ?case
    using Discrete_Next_no_Exit
    by (cases "Discrete_Next (operationChooser c) (state_r st)") (auto simp: operationChooser_Next_def)
next
  case (2 x)
  obtain op c' st' where x: "x = (op, c', st')" "wrapped.ready c' st' w" "same_config c c'" using 2 by (cases x) auto
  have "wrapped.after c y" if "wrapped.after c' y" for y
    using that same_config_trans [OF x(3)] by (auto simp: wrapped.after_def)
  note weaken = osafe_mono [OF _ this]
  show ?case
    using weaken [OF wrapped.doTransactionRead_safe [OF x(2)]] weaken [OF wrapped.doTransactionUpdate_safe [OF x(2)]]
      weaken [OF wrapped.doTransactionInsert_safe [OF x(2)]] weaken [OF wrapped.doTransactionScan_safe [OF x(2)]]
      weaken [OF doTransactionReadModifyWrite_safe [OF x(2)]]
    by (simp add: x(1))
qed

end

end
