(* ===== verification/RowStore.thy ===== *)
theory RowStore
  imports Database
begin

text \<open>
  Layers that keep each row as the bytes of the row codec under one key: what the bytes of all tables
  mean as tables of rows, and how reads, inserts and updates of encoded rows act on them. The layers for
  BoltDB, Badger and TiKV share these facts.
\<close>

section \<open>The size of an encoded row\<close>

lemma length_PutUvarint: "unat x < 2 ^ (7 * n) \<Longrightarrow> 0 < n \<Longrightarrow> length (PutUvarint x) \<le> n"
proof (induction x arbitrary: n rule: PutUvarint.induct)
  case (1 x)
  show ?case
  proof (cases "x < 128")
    case False
    then have "128 \<le> unat x" by (simp add: word_less_nat_alt)
    then have "n \<noteq> 1" using 1(2) by auto
    with 1(3) obtain m where n: "n = Suc m" "0 < m" by (metis One_nat_def gr0_implies_Suc neq0_conv)
    have "unat (drop_bit 7 x) = unat x div 128" unfolding unat_drop_bit_eq by (simp add: drop_bit_eq_div)
    moreover have "unat x < 2 ^ (7 * m) * 128" using 1(2) by (simp add: n(1) power_add)
    ultimately have "unat (drop_bit 7 x) < 2 ^ (7 * m)" using less_mult_imp_div_less by simp
    then show ?thesis using 1(1) [OF False _ n(2)] False by (simp add: n(1) PutUvarint.simps [of x])
  qed (use 1(3) in \<open>simp add: PutUvarint.simps [of x]\<close>)
qed

lemma length_PutVarint: "length (PutVarint x) \<le> 10"
proof -
  have "length (PutUvarint y) \<le> 10" for y :: "64 word"
    using unsigned_less [of y, where 'a = nat] by (intro length_PutUvarint) simp_all
  then show ?thesis by (simp add: PutVarint_def Let_def)
qed

lemma length_encode_col: "int (length v) \<le> vmax \<Longrightarrow> int (length (encode_col (i, v))) \<le> vmax + 22"
  using length_PutVarint [of i] length_PutVarint [of "int (length v)"] by (simp add: encode_col_def)

lemma length_encoded:
  assumes "row_fits n vmax v" "0 \<le> vmax" "0 < n" "Encode (field_codec n) buf v = Inr b"
  shows "int (length b) \<le> int n * (vmax + 22)"
proof -
  have codec: "wf_map v" "fst ` set v \<subseteq> set (field_names n)" using assms(1) by (simp_all add: row_fits_def codec_row_def)
  have "length v \<le> n"
  proof -
    have "length v = card (fst ` set v)" using codec(1) by (metis wf_map_def distinct_card length_map set_map)
    also have "\<dots> \<le> card (set (field_names n))" by (rule card_mono [OF _ codec(2)]) simp
    also have "\<dots> = n" using distinct_card [OF distinct_field_names, of n] by (simp add: field_names_def)
    finally show ?thesis .
  qed
  moreover have "int (length (concat (map encode_col (columns n v)))) \<le> int (length v) * (vmax + 22)"
    using assms(1) unfolding row_fits_def
  proof (induction v)
    case (Cons a v)
    obtain f x where a: "a = (f, x)" by fastforce
    have "int (length (concat (map encode_col (columns n v)))) \<le> int (length v) * (vmax + 22)"
      using Cons.IH Cons.prems by (auto simp: codec_row_def a)
    moreover have "int (length x) \<le> vmax" using Cons.prems by (simp add: a)
    ultimately show ?case
      using length_encode_col [of x vmax "map_index 0 (fieldIndices (field_codec n)) f"]
      by (simp add: a columns_def algebra_simps)
  qed (simp add: columns_def)
  moreover have "int (length v) * (vmax + 22) \<le> int n * (vmax + 22)"
    using \<open>length v \<le> n\<close> assms(2) by (intro mult_right_mono) auto
  moreover have "1 \<le> int n * (vmax + 22)" using mult_mono [of 1 "int n" 1 "vmax + 22"] assms(2,3) by simp
  ultimately show ?thesis using assms(4) by (auto simp: Encode_columns EncodeRow_columns split: if_splits)
qed

section \<open>Tables of encoded rows\<close>

type_synonym raw_tables = "string \<Rightarrow> string \<rightharpoonup> bytes"

text \<open>Every value is the encoding of a row of the schema.\<close>

definition encoded :: "nat \<Rightarrow> int \<Rightarrow> raw_tables \<Rightarrow> bool" where
  "encoded n vmax raw \<longleftrightarrow> (\<forall>t k b. raw t k = Some b \<longrightarrow> (\<exists>v. row_fits n vmax v \<and> Encode (field_codec n) [] v = Inr b))"

definition decoded :: "nat \<Rightarrow> bytes \<Rightarrow> (string \<rightharpoonup> bytes)" where
  "decoded n b = (case Decode (field_codec n) b [] of Ret (Inr row) \<Rightarrow> map_of row | _ \<Rightarrow> Map.empty)"

definition rows_of :: "nat \<Rightarrow> raw_tables \<Rightarrow> tables" where
  "rows_of n raw = (\<lambda>t k. map_option (decoded n) (raw t k))"

lemma encodedD:
  assumes "encoded n vmax raw" "raw t k = Some b"
  obtains v where "row_fits n vmax v" "Encode (field_codec n) [] v = Inr b"
  using assms unfolding encoded_def by blast

text \<open>The sizes that a layer works with: the schema, the longest value and the room for an encoded row.\<close>

definition sizes_ok :: "nat \<Rightarrow> int \<Rightarrow> int \<Rightarrow> bool" where
  "sizes_ok n vmax room \<longleftrightarrow> 0 < n \<and> n \<le> nat max64 \<and> 0 \<le> vmax \<and> vmax \<le> max64 \<and> int n * (vmax + 22) \<le> room"

lemma sizes_ok_encoded:
  "sizes_ok n vmax room \<Longrightarrow> row_fits n vmax v \<Longrightarrow> Encode (field_codec n) buf v = Inr b \<Longrightarrow> int (length b) \<le> room"
  using length_encoded [of n vmax v buf b] by (simp add: sizes_ok_def)

lemma decoded_Encode:
  assumes "n \<le> nat max64" "row_fits n vmax v" "Encode (field_codec n) buf v = Inr b"
  shows "decoded n b = map_of v"
  using fc.dec_all [of n v buf b] assms by (auto simp: decoded_def row_fits_def)

lemma encoded_put:
  assumes "encoded n vmax raw" "row_fits n vmax v" "Encode (field_codec n) [] v = Inr b"
  shows "encoded n vmax (raw(t := (raw t)(k \<mapsto> b)))"
  using assms by (auto simp: encoded_def)

lemma rows_of_put:
  assumes "n \<le> nat max64" "row_fits n vmax v" "Encode (field_codec n) [] v = Inr b"
  shows "rows_of n (raw(t := (raw t)(k \<mapsto> b))) = put_row t k (map_of v) (rows_of n raw)"
  by (auto simp: rows_of_def put_row_def fun_eq_iff decoded_Encode [OF assms])

lemma rows_of_get: "rows_of n raw t k = map_option (decoded n) (raw t k)"
  by (simp add: rows_of_def)

text \<open>Reading an encoded row.\<close>

lemma Decode_encoded:
  assumes "sizes_ok n vmax room" "encoded n vmax raw" "raw t k = Some b" "set fs \<subseteq> set (field_names n)"
  shows "\<exists>row. Decode (field_codec n) b fs = Ret (Inr row) \<and> wf_map row \<and>
    map_of row = decoded n b |` set (if fs = [] then field_names n else fs)"
proof -
  obtain v where v: "row_fits n vmax v" "Encode (field_codec n) [] v = Inr b" by (rule encodedD [OF assms(2,3)])
  have n: "n \<le> nat max64" using assms(1) by (simp add: sizes_ok_def)
  show ?thesis using fc.dec_enc [of n v fs "[]" b] v n assms(4) decoded_Encode [OF n v] by (simp add: row_fits_def)
qed

lemma read_encoded:
  assumes "sizes_ok n vmax room" "encoded n vmax raw" "raw t k = Some b" "set fs \<subseteq> set (field_names n)"
  shows "\<exists>row. Decode (field_codec n) b fs = Ret (Inr row) \<and> read_result n (rows_of n raw t k) fs (Inr row)"
  using Decode_encoded [OF assms] by (auto simp: read_result_def rows_of_get assms(3))

text \<open>Updating: the decoded row with the new values is again a row of the schema.\<close>

lemma row_fits_assign:
  assumes "row_fits n vmax v" "row_fits n vmax w"
  shows "row_fits n vmax (map_assign v w)"
proof -
  have wf: "wf_map v" "wf_map w" "wf_map (map_assign v w)" using assms by (simp_all add: row_fits_def codec_row_def)
  have "(f, x) \<in> set v \<or> (f, x) \<in> set w" if "(f, x) \<in> set (map_assign v w)" for f x
  proof -
    have "map_of (map_assign v w) f = Some x" using that wf(3) by (simp add: wf_map_of_Some_iff)
    then show ?thesis using map_of_map_assign [OF wf(2)] by (auto simp: map_add_Some_iff dest: map_of_SomeD)
  qed
  then have "set (map_assign v w) \<subseteq> set v \<union> set w" by auto
  then have f: "fst ` set (map_assign v w) \<subseteq> fst ` set v \<union> fst ` set w"
    and g: "snd ` set (map_assign v w) \<subseteq> snd ` set v \<union> snd ` set w"
    by (metis image_Un image_mono)+
  have "fst ` set v \<subseteq> set (field_names n)" "fst ` set w \<subseteq> set (field_names n)"
    and "\<forall>x \<in> snd ` set v \<union> snd ` set w. int (length x) \<le> max64 \<and> int (length x) \<le> vmax"
    using assms by (auto simp: row_fits_def codec_row_def simp del: in_field_names)
  then show ?thesis unfolding row_fits_def codec_row_def using wf(3) f g by (meson Un_least subset_eq)
qed

lemma row_fits_map_of:
  assumes "row_fits n vmax v" "wf_map w" "map_of w = map_of v"
  shows "row_fits n vmax w"
proof -
  have "set w = set v" using assms map_of_inject_set [of w v] by (simp add: row_fits_def codec_row_def wf_map_def)
  then show ?thesis using assms by (simp add: row_fits_def codec_row_def)
qed

lemma update_encoded:
  assumes "sizes_ok n vmax room" "encoded n vmax raw" "raw t k = Some b" "row_fits n vmax vals"
  shows "\<exists>data b'. Decode (field_codec n) b [] = Ret (Inr data) \<and> Encode (field_codec n) [] (map_assign data vals) = Inr b' \<and>
    int (length b') \<le> room \<and> encoded n vmax (raw(t := (raw t)(k \<mapsto> b'))) \<and>
    rows_of n (raw(t := (raw t)(k \<mapsto> b'))) = put_row t k (decoded n b ++ map_of vals) (rows_of n raw)"
proof -
  have n: "n \<le> nat max64" using assms(1) by (simp add: sizes_ok_def)
  obtain v where v: "row_fits n vmax v" "Encode (field_codec n) [] v = Inr b" by (rule encodedD [OF assms(2,3)])
  have "codec_row n v \<and> n \<le> nat max64" using v(1) n by (simp add: row_fits_def)
  then obtain data where d: "Decode (field_codec n) b [] = Ret (Inr data)" "wf_map data" "map_of data = map_of v"
    using fc.dec_all [OF _ v(2)] by blast
  have fits: "row_fits n vmax (map_assign data vals)"
    by (rule row_fits_assign [OF row_fits_map_of [OF v(1) d(2,3)] assms(4)])
  obtain b' where b': "Encode (field_codec n) [] (map_assign data vals) = Inr b'" using fc.enc_obtain by blast
  have "map_of (map_assign data vals) = decoded n b ++ map_of vals"
    using map_of_map_assign [of vals data] assms(4) d(3) decoded_Encode [OF n v] by (simp add: row_fits_def codec_row_def)
  then show ?thesis
    using d(1) b' sizes_ok_encoded [OF assms(1) fits b'] encoded_put [OF assms(2) fits b'] rows_of_put [OF n fits b'] by auto
qed

lemma insert_encoded:
  assumes "sizes_ok n vmax room" "encoded n vmax raw" "row_fits n vmax vals"
  shows "\<exists>b. Encode (field_codec n) [] vals = Inr b \<and> int (length b) \<le> room \<and>
    encoded n vmax (raw(t := (raw t)(k \<mapsto> b))) \<and>
    rows_of n (raw(t := (raw t)(k \<mapsto> b))) = put_row t k (map_of vals) (rows_of n raw)"
proof -
  obtain b where b: "Encode (field_codec n) [] vals = Inr b" using fc.enc_obtain by blast
  have "n \<le> nat max64" using assms(1) by (simp add: sizes_ok_def)
  then show ?thesis using b sizes_ok_encoded [OF assms(1,3) b] encoded_put [OF assms(2,3) b] rows_of_put [OF _ assms(3) b] by blast
qed

section \<open>Scans\<close>

text \<open>The loop of \<^verbatim>\<open>Scan\<close>: \<open>n\<close> is the number of rows still wanted.\<close>

fun scan_rows :: "RowCodec \<Rightarrow> string list \<Rightarrow> nat \<Rightarrow> (string \<times> bytes) list \<Rightarrow> (goerror + row list) outcome" where
  "scan_rows r flds 0 es = Ret (Inr [])"
| "scan_rows r flds (Suc n) [] = Ret (Inr [])"
| "scan_rows r flds (Suc n) ((k, v) # es) = obind (Decode r v flds) (\<lambda>res. case res of
       Inl err \<Rightarrow> Ret (Inl err)
     | Inr m \<Rightarrow> obind (scan_rows r flds n es) (\<lambda>res. case res of
           Inl err \<Rightarrow> Ret (Inl err)
         | Inr ms \<Rightarrow> Ret (Inr (m # ms))))"

text \<open>The result has \<open>n\<close> entries; those behind the last key stay nil.\<close>

definition pad_rows :: "int \<Rightarrow> row list \<Rightarrow> row list" where
  "pad_rows n rows = rows @ replicate (nat n - length rows) []"

lemma scan_rows_total:
  assumes "\<And>k v. (k, v) \<in> set es \<Longrightarrow> \<exists>row. Decode r v fs = Ret (Inr row)"
  shows "\<exists>rows. scan_rows r fs m es = Ret (Inr rows) \<and>
    list_all2 (\<lambda>(k, v) row. Decode r v fs = Ret (Inr row)) (take m es) rows"
  using assms
proof (induction es arbitrary: m)
  case Nil
  then show ?case by (cases m) simp_all
next
  case (Cons e es)
  obtain k v where e: "e = (k, v)" by fastforce
  obtain row where row: "Decode r v fs = Ret (Inr row)" using Cons.prems [of k v] by (auto simp: e)
  show ?case
  proof (cases m)
    case (Suc m')
    obtain rows where "scan_rows r fs m' es = Ret (Inr rows)"
      "list_all2 (\<lambda>(k, v) row. Decode r v fs = Ret (Inr row)) (take m' es) rows"
      using Cons.IH [of m'] Cons.prems by auto
    then show ?thesis using row by (simp add: Suc e)
  qed simp
qed

end
