(* ===== verification/Client.thy ===== *)
theory Client
  imports Workload
begin

text \<open>
  The client (\<^verbatim>\<open>pkg/client/client.go\<close>): the workers and the run of all of them.

  A worker runs its loop in a goroutine of its own. One round of the loop, that is one operation of the
  workload, is a step; a schedule says which worker makes the next step, what the context answers inside
  the operation, and whether it is done at the end of the round. Sleeping and throttling take time but
  change nothing; \<open>throttle\<close> gives the time to wait.
\<close>

record worker =
  doTransactions :: bool
  doBatch :: bool
  batchSize :: int
  opCount :: int
  targetOpsPerMs :: float64
  threadID :: int
  targetOpsTickNs :: int
  opsDone :: int

definition totalOpCount :: "properties \<Rightarrow> int" where
  "totalOpCount p =
     (if GetBool p prop_DoTransactions True then GetInt64 p prop_OperationCount 0
      else case PropGet p prop_InsertCount of
        Some _ \<Rightarrow> GetInt64 p prop_InsertCount 0
      | None \<Rightarrow> GetInt64 p prop_RecordCount 0)"

definition newWorker :: "properties \<Rightarrow> int \<Rightarrow> int \<Rightarrow> worker outcome" where
  "newWorker p tid threadCount =
     (let total = totalOpCount p; bsize = GetInt p prop_BatchSize prop_DefaultBatchSize
      in if total < threadCount then Exit ''totalOpCount should be bigger than threadCount''
         else obind (i64_div total threadCount) (\<lambda>q. obind (i64_rem total threadCount) (\<lambda>rest.
           let count = (if tid < rest then wrap64 (q + 1) else q);
               v = GetInt64 p prop_Target 0;
               perms = (if v > 0 then f64_of_int v / f64_of_int threadCount / f64_lit 1000 else f64_of_int (- 1));
               throttled = f64_lt (f64_lit 0) perms
           in Ret \<lparr>doTransactions = GetBool p prop_DoTransactions True, doBatch = (bsize > 1), batchSize = bsize,
                opCount = count, targetOpsPerMs = (if throttled then perms else f64_lit 0), threadID = tid,
                targetOpsTickNs = (if throttled then f64_to_int (f64_lit 1000000 / perms) else 0), opsDone = 0\<rparr>)))"

text \<open>The time that a worker waits after an operation; \<open>None\<close> where it goes on at once.\<close>

definition throttle :: "worker \<Rightarrow> int \<Rightarrow> int \<Rightarrow> int option" where
  "throttle w start now =
     (if f64_le (targetOpsPerMs w) (f64_lit 0) then None
      else let d = wrap64 (opsDone w * targetOpsTickNs w); d = time_Sub (start + d) now
           in if d < 0 then None else Some d)"

text \<open>The random wait before the first operation.\<close>

definition initial_wait :: "worker \<Rightarrow> rand \<Rightarrow> int outcome" where
  "initial_wait w r =
     (if f64_lt (f64_lit 0) (targetOpsPerMs w) \<and> f64_le (targetOpsPerMs w) (f64_lit 1)
      then obind (Int63n (targetOpsTickNs w) r) (\<lambda>(d, r). Ret d) else Ret 0)"

definition worker_active :: "worker \<Rightarrow> bool" where
  "worker_active w \<longleftrightarrow> opCount w = 0 \<or> opsDone w < opCount w"

text \<open>The operation of a round and the number of operations it counts for.\<close>

definition worker_op :: "'h hdrlib \<Rightarrow> env \<Rightarrow> ctx \<Rightarrow> ('c, ('h, 'd) world) DB \<Rightarrow> 'c \<Rightarrow> worker \<Rightarrow> core \<Rightarrow> coreState \<Rightarrow>
    ('h, 'd) world \<Rightarrow> ('h, 'd) world coreop" where
  "worker_op H E ctx db dc w c st wd =
     (if doTransactions w then
        (if doBatch w then DoBatchTransaction E (batchSize w) db dc c st wd else DoTransaction H E db dc c st wd)
      else
        (if doBatch w then DoBatchInsert E ctx (batchSize w) db dc c st wd else DoInsert E ctx db dc c st wd))"

definition opsCount :: "worker \<Rightarrow> int" where
  "opsCount w = (if doBatch w then batchSize w else 1)"

text \<open>One round of \<^verbatim>\<open>run\<close>: the error of the operation is at most printed.\<close>

definition worker_round :: "'h hdrlib \<Rightarrow> env \<Rightarrow> ctx \<Rightarrow> ('c, ('h, 'd) world) DB \<Rightarrow> 'c \<Rightarrow> worker \<Rightarrow> core \<Rightarrow> coreState \<Rightarrow>
    ('h, 'd) world \<Rightarrow> (goerror option \<times> worker \<times> core \<times> coreState \<times> ('h, 'd) world) outcome" where
  "worker_round H E ctx db dc w c st wd = obind (worker_op H E ctx db dc w c st wd) (\<lambda>(err, c, st, wd).
     Ret (err, if IsWarmUpFinished (fst wd) then w\<lparr>opsDone := wrap64 (opsDone w + opsCount w)\<rparr> else w, c, st, wd))"


section \<open>All workers\<close>

record 'c thread =
  th_worker :: worker
  th_state :: coreState
  th_ctx :: 'c
  th_done :: bool

record ('c, 'h, 'd) client =
  cl_core :: core
  cl_threads :: "'c thread list"
  cl_world :: "('h, 'd) world"

text \<open>The start of the goroutines: a worker, its part of the workload and its part of the database. \<open>rs\<close> gives
  the random streams.\<close>

definition start_thread :: "properties \<Rightarrow> ('c, ('h, 'd) world) DB \<Rightarrow> int \<Rightarrow> (nat \<Rightarrow> rand) \<Rightarrow> nat \<Rightarrow> ('c, 'h, 'd) client \<Rightarrow>
    ('c, 'h, 'd) client outcome" where
  "start_thread p db threadCount rs i s = obind (newWorker p (int i) threadCount) (\<lambda>w.
     let st = core_InitThread (rs i) (cl_core s)
     in obind (db_InitThread db (int i) threadCount (cl_world s)) (\<lambda>(dc, wd).
       Ret (s\<lparr>cl_threads := cl_threads s @ [\<lparr>th_worker = w, th_state = st, th_ctx = dc, th_done = False\<rparr>], cl_world := wd\<rparr>)))"

definition start_threads :: "properties \<Rightarrow> ('c, ('h, 'd) world) DB \<Rightarrow> (nat \<Rightarrow> rand) \<Rightarrow> ('c, 'h, 'd) client \<Rightarrow>
    ('c, 'h, 'd) client outcome" where
  "start_threads p db rs s =
     (let threadCount = GetInt p prop_ThreadCount 1
      in if threadCount < 0 then Panic ''sync: negative WaitGroup counter''
         else ofold (start_thread p db threadCount rs) [0..<nat threadCount] s)"

text \<open>A step of worker \<open>i\<close>, if it still runs.\<close>

definition client_step :: "'h hdrlib \<Rightarrow> env \<Rightarrow> ('c, ('h, 'd) world) DB \<Rightarrow> nat \<times> ctx \<times> bool \<Rightarrow> ('c, 'h, 'd) client \<Rightarrow>
    ('c, 'h, 'd) client outcome" where
  "client_step H E db = (\<lambda>(i, ctx, cancelled) s.
     if i < length (cl_threads s) \<and> \<not> th_done (cl_threads s ! i) \<and> worker_active (th_worker (cl_threads s ! i)) then
       let th = cl_threads s ! i
       in obind (worker_round H E ctx db (th_ctx th) (th_worker th) (cl_core s) (th_state th) (cl_world s)) (\<lambda>(err, w, c, st, wd).
            Ret (s\<lparr>cl_core := c, cl_world := wd,
              cl_threads := (cl_threads s)[i := th\<lparr>th_worker := w, th_state := st, th_done := cancelled\<rparr>]\<rparr>))
     else Ret s)"

definition client_run :: "'h hdrlib \<Rightarrow> env \<Rightarrow> ('c, ('h, 'd) world) DB \<Rightarrow> (nat \<times> ctx \<times> bool) list \<Rightarrow> ('c, 'h, 'd) client \<Rightarrow>
    ('c, 'h, 'd) client outcome" where
  "client_run H E db sched s = ofold (client_step H E db) sched s"

text \<open>The wait group: every worker has left its loop.\<close>

definition client_done :: "('c, 'h, 'd) client \<Rightarrow> bool" where
  "client_done s \<longleftrightarrow> (\<forall>th \<in> set (cl_threads s). th_done th \<or> \<not> worker_active (th_worker th))"

text \<open>The end of \<^verbatim>\<open>Run\<close>: the workers clean up, and after a load the table is analysed.\<close>

definition finish_run :: "properties \<Rightarrow> ('c, ('h, 'd) world) DB \<Rightarrow> 'c \<Rightarrow> ('c, 'h, 'd) client \<Rightarrow> ('c, 'h, 'd) client outcome" where
  "finish_run p db dc s =
     obind (ofold (\<lambda>th wd. db_CleanupThread db (th_ctx th) wd) (cl_threads s) (cl_world s)) (\<lambda>wd.
       if \<not> GetBool p prop_DoTransactions True then
         (case db_Analyze db of
            Some analyze \<Rightarrow> obind (analyze dc (GetString p prop_TableName prop_TableNameDefault) wd) (\<lambda>(e, wd). Ret (s\<lparr>cl_world := wd\<rparr>))
          | None \<Rightarrow> Ret (s\<lparr>cl_world := wd\<rparr>))
       else Ret (s\<lparr>cl_world := wd\<rparr>))"

text \<open>The goroutine that measures: it waits for the warm-up of a transaction phase, then ends it. \<open>None\<close> is
  the context that is done before that.\<close>

definition end_warm_up :: "properties \<Rightarrow> bool \<Rightarrow> 'h runtime \<Rightarrow> 'h runtime option" where
  "end_warm_up p cancelled rt =
     (if GetBool p prop_DoTransactions True \<and> cancelled then None else Some (EnableWarmUp False rt))"

end
