(* ===== verification/ClientFacts.thy ===== *)
theory ClientFacts
  imports Client Database
begin

text \<open>
  Facts about the client: how the operations are divided among the workers, what a schedule of loading
  workers does to the table, and that no schedule of workers on a database with the contract ends the
  process.
\<close>

section \<open>The division of the operations\<close>

lemma newWorker_eq:
  assumes "1 \<le> tc" "in64 (totalOpCount p)" "tc \<le> totalOpCount p" "0 \<le> tid"
  shows "\<exists>w. newWorker p tid tc = Ret w \<and> threadID w = tid \<and> opsDone w = 0 \<and>
    opCount w = totalOpCount p div tc + (if tid < totalOpCount p mod tc then 1 else 0) \<and>
    doTransactions w = GetBool p prop_DoTransactions True \<and>
    batchSize w = GetInt p prop_BatchSize prop_DefaultBatchSize \<and> doBatch w = (batchSize w > 1)"
proof -
  define n where "n = totalOpCount p"
  have n: "1 \<le> tc" "tc \<le> n" "in64 n" using assms by (simp_all add: n_def)
  have d: "i64_div n tc = Ret (n div tc)" "i64_rem n tc = Ret (n mod tc)"
    using n by (simp_all add: i64_div_nonneg i64_rem_nonneg)
  have "wrap64 (n div tc + 1) = n div tc + 1" if "0 < n mod tc"
  proof -
    have "n div tc + 1 \<le> n"
    proof (cases "tc = 1")
      case False
      then have "n div tc \<le> n div 2" using n by (intro zdiv_mono2) auto
      then show ?thesis using n by (cases "n = 1") auto
    qed (use that in simp)
    moreover have "0 \<le> n div tc" using n by (simp add: pos_imp_zdiv_nonneg_iff)
    ultimately show ?thesis using n(3) by (intro wrap64_id) (auto simp: in64_def)
  qed
  moreover have "0 < n mod tc" if "tid < n mod tc" using that assms(4) by simp
  ultimately show ?thesis
    using n d by (auto simp: newWorker_def n_def [symmetric] Let_def)
qed

lemma sum_opCount:
  fixes n tc :: int
  assumes "1 \<le> tc"
  shows "(\<Sum>i<nat tc. n div tc + (if int i < n mod tc then 1 else 0)) = n"
proof -
  have m: "0 \<le> n mod tc" "n mod tc < tc" using assms by simp_all
  have "{i. i < nat tc \<and> int i < n mod tc} = {..<nat (n mod tc)}" using m by auto
  then have "(\<Sum>i<nat tc. if int i < n mod tc then 1 else 0 :: int) = n mod tc"
    using m by (simp add: sum.If_cases Int_def lessThan_def conj_commute cong: conj_cong)
  then show ?thesis using assms by (simp add: sum.distrib)
qed


section \<open>Schedules\<close>

lemma core_inv_other: "core_inv c st \<Longrightarrow> state_fieldNames st' = fieldNames c \<Longrightarrow> core_inv c st'"
  by (simp add: core_inv_def)

lemma sum_list_update_int:
  fixes xs :: "int list"
  shows "i < length xs \<Longrightarrow> sum_list (xs[i := x]) = sum_list xs - xs ! i + x"
proof (induction xs arbitrary: i)
  case (Cons a xs)
  then show ?case by (cases i) auto
qed simp

text \<open>The operations that the workers have done and have to do.\<close>

definition ops_done :: "('c, 'h, 'd) client \<Rightarrow> int list" where
  "ops_done s = map (\<lambda>th. opsDone (th_worker th)) (cl_threads s)"

definition ops_total :: "('c, 'h, 'd) client \<Rightarrow> int list" where
  "ops_total s = map (\<lambda>th. opCount (th_worker th)) (cl_threads s)"

text \<open>A workload whose rows have \<open>nf\<close> fields of a constant length that a database layer with values of up to
  \<open>vmax\<close> bytes accepts.\<close>

definition workload_fits :: "env \<Rightarrow> properties \<Rightarrow> nat \<Rightarrow> int \<Rightarrow> core \<Rightarrow> bool" where
  "workload_fits E p nf vmax c \<longleftrightarrow> core_Create E p = Ret c \<and> fieldCount c = int nf \<and>
     GetString p prop_FieldLengthDistribution prop_FieldLengthDistributionDefault = ''constant'' \<and>
     0 \<le> GetInt64 p prop_FieldLength prop_FieldLengthDefault \<and> GetInt64 p prop_FieldLength prop_FieldLengthDefault \<le> max64 - 21 \<and>
     GetInt64 p prop_FieldLength prop_FieldLengthDefault \<le> vmax"

lemma workload_fitsD:
  assumes "workload_fits E p nf vmax c"
  shows "core_Create E p = Ret c" "fieldCount c = int nf"
    "GetString p prop_FieldLengthDistribution prop_FieldLengthDistributionDefault = ''constant''"
    "0 \<le> GetInt64 p prop_FieldLength prop_FieldLengthDefault" "GetInt64 p prop_FieldLength prop_FieldLengthDefault \<le> max64 - 21"
    "GetInt64 p prop_FieldLength prop_FieldLengthDefault \<le> vmax"
  using assms by (simp_all add: workload_fits_def)

text \<open>The settings of the client: at least as many operations as workers, no batches, a retry limit that can be
  counted to.\<close>

definition client_settings :: "properties \<Rightarrow> bool" where
  "client_settings p \<longleftrightarrow> 1 \<le> GetInt p prop_ThreadCount 1 \<and> GetInt p prop_ThreadCount 1 \<le> totalOpCount p \<and>
     in64 (totalOpCount p) \<and> GetInt p prop_BatchSize prop_DefaultBatchSize \<le> 1 \<and>
     GetInt64 p prop_InsertionRetryLimit prop_InsertionRetryLimitDefault < max64"

text \<open>A schedule in which no worker is cancelled and each of \<open>tc\<close> workers has \<open>n\<close> turns.\<close>

definition fair_schedule :: "(nat \<times> ctx \<times> bool) list \<Rightarrow> int \<Rightarrow> int \<Rightarrow> bool" where
  "fair_schedule sched tc n \<longleftrightarrow> (\<forall>(i, ctx, cancelled) \<in> set sched. \<not> cancelled) \<and>
     (\<forall>i < nat tc. n \<le> int (count_list (map fst sched) i))"

text \<open>A workload that fits the layer, workers and measurement, for a run and for a load.\<close>

definition layer_setup :: "'h hdrlib \<Rightarrow> env \<Rightarrow> properties \<Rightarrow> nat \<Rightarrow> int \<Rightarrow> core \<Rightarrow> 'h runtime \<Rightarrow> bool" where
  "layer_setup H E p nf vmax c rt \<longleftrightarrow> workload_fits E p nf vmax c \<and> client_settings p \<and> measuring H rt \<and> 0 < nf \<and> nf \<le> nat max64"

abbreviation insert_start :: "properties \<Rightarrow> int" where
  "insert_start p \<equiv> GetInt64 p prop_InsertStart prop_InsertStartDefault"

definition load_settings :: "properties \<Rightarrow> (nat \<times> ctx \<times> bool) list \<Rightarrow> bool" where
  "load_settings p sched \<longleftrightarrow> \<not> GetBool p prop_DoTransactions True \<and> 0 \<le> insert_start p \<and> insert_start p + totalOpCount p \<le> max64 \<and>
     fair_schedule sched (GetInt p prop_ThreadCount 1) (totalOpCount p)"

text \<open>Every key of the inserted range is there with all its fields.\<close>

definition loaded_all :: "properties \<Rightarrow> core \<Rightarrow> tables \<Rightarrow> bool" where
  "loaded_all p c T \<longleftrightarrow> (\<forall>j. insert_start p \<le> j \<and> j < insert_start p + totalOpCount p \<longrightarrow>
     (\<exists>m. T (core_table c) (buildKeyName c j) = Some m \<and> dom m = set (fieldNames c)))"

lemma client_settingsD:
  assumes "client_settings p"
  shows "1 \<le> GetInt p prop_ThreadCount 1" "GetInt p prop_ThreadCount 1 \<le> totalOpCount p" "in64 (totalOpCount p)"
    "GetInt p prop_BatchSize prop_DefaultBatchSize \<le> 1" "GetInt64 p prop_InsertionRetryLimit prop_InsertionRetryLimitDefault < max64"
  using assms by (simp_all add: client_settings_def)

lemma stored_empty: "T (core_table c) = Map.empty \<Longrightarrow> stored c T"
  by (simp add: stored_def)

context measured_database
begin

text \<open>All workers are ready, and none works in batches.\<close>

definition client_ready :: "('c, 'h, 'd) client \<Rightarrow> bool" where
  "client_ready s \<longleftrightarrow> (\<forall>th \<in> set (cl_threads s). wrapped.ready (cl_core s) (th_state th) (cl_world s) \<and> \<not> doBatch (th_worker th))"

lemma client_ready_nth:
  "client_ready s \<Longrightarrow> i < length (cl_threads s) \<Longrightarrow> wrapped.ready (cl_core s) (th_state (cl_threads s ! i)) (cl_world s)"
  by (auto simp: client_ready_def)

lemma ready_other:
  assumes "wrapped.ready c st w" "wrapped.ready c' st' w'" "same_config c c'"
  shows "wrapped.ready c' st w'"
proof -
  have "state_fieldNames st = fieldNames c'"
    using wrapped.readyD(1) [OF assms(1)] assms(3) by (simp add: core_inv_def same_configD(3))
  then have "core_inv c' st" using core_inv_other [OF wrapped.readyD(1) [OF assms(2)]] by blast
  then show ?thesis using assms(2) by (simp add: wrapped.ready_def)
qed

lemma client_ready_step:
  assumes "client_ready s" "i < length (cl_threads s)" "wrapped.ready c st wd" "same_config (cl_core s) c"
    and "doBatch w = doBatch (th_worker (cl_threads s ! i))"
  shows "client_ready (s\<lparr>cl_core := c, cl_world := wd,
    cl_threads := (cl_threads s)[i := (cl_threads s ! i)\<lparr>th_worker := w, th_state := st, th_done := b\<rparr>]\<rparr>)"
  unfolding client_ready_def
proof
  fix th
  assume "th \<in> set (cl_threads (s\<lparr>cl_core := c, cl_world := wd,
    cl_threads := (cl_threads s)[i := (cl_threads s ! i)\<lparr>th_worker := w, th_state := st, th_done := b\<rparr>]\<rparr>))"
  then consider "th = (cl_threads s ! i)\<lparr>th_worker := w, th_state := st, th_done := b\<rparr>" | "th \<in> set (cl_threads s)"
    using set_update_subset_insert [of "cl_threads s" i] by auto
  then show "wrapped.ready (cl_core (s\<lparr>cl_core := c, cl_world := wd,
      cl_threads := (cl_threads s)[i := (cl_threads s ! i)\<lparr>th_worker := w, th_state := st, th_done := b\<rparr>]\<rparr>)) (th_state th)
      (cl_world (s\<lparr>cl_core := c, cl_world := wd,
      cl_threads := (cl_threads s)[i := (cl_threads s ! i)\<lparr>th_worker := w, th_state := st, th_done := b\<rparr>]\<rparr>)) \<and> \<not> doBatch (th_worker th)"
  proof cases
    case 1
    then show ?thesis using assms by (auto simp: client_ready_def)
  next
    case 2
    then have "wrapped.ready (cl_core s) (th_state th) (cl_world s)" "\<not> doBatch (th_worker th)"
      using assms(1) by (auto simp: client_ready_def)
    then show ?thesis using ready_other [OF _ assms(3,4)] by simp
  qed
qed

lemma DoInsert_safe:
  assumes "wrapped.ready c st w" "insertionRetryLimit c < max64"
  shows "osafe (DoInsert E ctx wdb dc c st w) (wrapped.after c)"
  using wrapped.DoInsert_ready [OF assms, of E ctx dc] by (auto intro: wrapped.afterI)

lemma worker_op_safe:
  assumes "wrapped.ready c st w" "insertionRetryLimit c < max64" "\<not> doBatch wk"
  shows "osafe (worker_op H E ctx wdb dc wk c st w) (wrapped.after c)"
  using DoInsert_safe [OF assms(1,2)] DoTransaction_safe [OF assms(1)] assms(3) by (simp add: worker_op_def)

lemma client_step_safe:
  assumes "client_ready s" "insertionRetryLimit (cl_core s) < max64"
  shows "osafe (client_step H E wdb a s) (\<lambda>s'. client_ready s' \<and> same_config (cl_core s) (cl_core s') \<and> length (cl_threads s') = length (cl_threads s))"
proof -
  obtain i ctx b where a: "a = (i, ctx, b)" by (cases a) auto
  show ?thesis
  proof (cases "i < length (cl_threads s) \<and> \<not> th_done (cl_threads s ! i) \<and> worker_active (th_worker (cl_threads s ! i))")
    case True
    define th where "th = cl_threads s ! i"
    have r: "wrapped.ready (cl_core s) (th_state th) (cl_world s)" "\<not> doBatch (th_worker th)"
      using assms(1) True by (auto simp: client_ready_def th_def)
    note op = worker_op_safe [OF r(1) assms(2) r(2), of E ctx "th_ctx th"]
    show ?thesis
    proof (cases "worker_op H E ctx wdb (th_ctx th) (th_worker th) (cl_core s) (th_state th) (cl_world s)")
      case (Ret x)
      obtain e c st wd where x: "x = (e, c, st, wd)" by (cases x) auto
      have "wrapped.ready c st wd" "same_config (cl_core s) c" using op by (simp_all add: Ret x wrapped.after_def)
      moreover define wk where "wk = (if IsWarmUpFinished (fst wd)
        then (th_worker th)\<lparr>opsDone := wrap64 (opsDone (th_worker th) + opsCount (th_worker th))\<rparr> else th_worker th)"
      moreover have "doBatch wk = doBatch (th_worker th)" by (simp add: wk_def)
      ultimately show ?thesis
        using True client_ready_step [OF assms(1), of i c st wd wk b]
        by (simp add: a client_step_def worker_round_def th_def [symmetric] Ret x wk_def [symmetric])
    qed (use op True in \<open>auto simp: a client_step_def worker_round_def th_def\<close>)
  next
    case False
    then show ?thesis using assms by (auto simp: a client_step_def)
  qed
qed

text \<open>No schedule ends the process.\<close>

lemma client_run_safe:
  assumes "client_ready s" "insertionRetryLimit (cl_core s) < max64"
  shows "osafe (client_run H E wdb sched s)
    (\<lambda>s'. client_ready s' \<and> same_config (cl_core s) (cl_core s') \<and> length (cl_threads s') = length (cl_threads s))"
  using assms unfolding client_run_def
proof (induction sched arbitrary: s)
  case (Cons a sched)
  have "osafe (ofold (client_step H E wdb) sched x)
      (\<lambda>s'. client_ready s' \<and> same_config (cl_core s) (cl_core s') \<and> length (cl_threads s') = length (cl_threads s))"
    if x: "client_ready x \<and> same_config (cl_core s) (cl_core x) \<and> length (cl_threads x) = length (cl_threads s)" for x
  proof (rule osafe_mono [OF Cons.IH])
    show "insertionRetryLimit (cl_core x) < max64" using x Cons.prems(2) by (simp add: same_config_def)
  qed (use x same_config_trans in auto)
  then show ?case using osafe_bind [OF client_step_safe [OF Cons.prems], of "ofold (client_step H E wdb) sched"] by simp
qed simp

section \<open>Loading\<close>

text \<open>The state of a load from the key \<open>start\<close> on: as many keys are in the table as operations are done.\<close>

definition loading :: "int \<Rightarrow> ('c, 'h, 'd) client \<Rightarrow> bool" where
  "loading start s \<longleftrightarrow> client_ready s \<and> insertionRetryLimit (cl_core s) < max64 \<and>
     (\<forall>th \<in> set (cl_threads s). \<not> doTransactions (th_worker th) \<and> \<not> th_done th \<and> 0 < opCount (th_worker th) \<and>
        0 \<le> opsDone (th_worker th) \<and> opsDone (th_worker th) \<le> opCount (th_worker th)) \<and>
     0 \<le> start \<and> start + sum_list (ops_total s) \<le> max64 \<and>
     counter (keySequence (cl_core s)) = start + sum_list (ops_done s) \<and>
     (\<forall>j. start \<le> j \<and> j < start + sum_list (ops_done s) \<longrightarrow>
        (\<exists>m. content (snd (cl_world s)) (core_table (cl_core s)) (buildKeyName (cl_core s) j) = Some m \<and>
           dom m = set (fieldNames (cl_core s))))"

lemma loadingD:
  assumes "loading start s"
  shows "client_ready s" "insertionRetryLimit (cl_core s) < max64"
    "\<And>th. th \<in> set (cl_threads s) \<Longrightarrow> \<not> doTransactions (th_worker th) \<and> \<not> th_done th \<and> 0 < opCount (th_worker th) \<and>
        0 \<le> opsDone (th_worker th) \<and> opsDone (th_worker th) \<le> opCount (th_worker th)"
    "0 \<le> start" "start + sum_list (ops_total s) \<le> max64"
    "counter (keySequence (cl_core s)) = start + sum_list (ops_done s)"
    "\<And>j. start \<le> j \<Longrightarrow> j < start + sum_list (ops_done s) \<Longrightarrow>
        \<exists>m. content (snd (cl_world s)) (core_table (cl_core s)) (buildKeyName (cl_core s) j) = Some m \<and>
           dom m = set (fieldNames (cl_core s))"
  using assms by (simp_all add: loading_def)

lemma ops_done_le:
  assumes "loading start s"
  shows "0 \<le> sum_list (ops_done s)" "sum_list (ops_done s) \<le> sum_list (ops_total s)"
proof -
  show "0 \<le> sum_list (ops_done s)"
    using loadingD(3) [OF assms] by (intro sum_list_nonneg) (auto simp: ops_done_def)
  show "sum_list (ops_done s) \<le> sum_list (ops_total s)"
    unfolding ops_done_def ops_total_def using loadingD(3) [OF assms] by (intro sum_list_mono) auto
qed

lemma ops_done_less:
  assumes "loading start s" "i < length (cl_threads s)" "opsDone (th_worker (cl_threads s ! i)) < opCount (th_worker (cl_threads s ! i))"
  shows "sum_list (ops_done s) < sum_list (ops_total s)"
proof -
  have "sum_list ((ops_done s)[i := opCount (th_worker (cl_threads s ! i))]) \<le> sum_list (ops_total s)"
    unfolding sum_list_sum_nth
    using assms(1,2) loadingD(3) [OF assms(1)]
    by (auto simp: ops_done_def ops_total_def nth_list_update intro!: sum_mono)
  moreover have "i < length (ops_done s)" "ops_done s ! i = opsDone (th_worker (cl_threads s ! i))"
    using assms(2) by (simp_all add: ops_done_def)
  ultimately show ?thesis using assms(3) sum_list_update_int [of i "ops_done s"] by simp
qed

text \<open>One insertion by worker \<open>i\<close>: the next state of the client, and that the load goes on.\<close>

definition load_next :: "nat \<Rightarrow> core \<Rightarrow> coreState \<Rightarrow> ('h, 'd) world \<Rightarrow> ('c, 'h, 'd) client \<Rightarrow> ('c, 'h, 'd) client" where
  "load_next i c st w s = (let th = cl_threads s ! i in s\<lparr>cl_core := c, cl_world := w,
     cl_threads := (cl_threads s)[i := th\<lparr>th_worker := (th_worker th)\<lparr>opsDone := opsDone (th_worker th) + 1\<rparr>,
       th_state := st, th_done := False\<rparr>]\<rparr>)"

lemma load_next_ops:
  assumes "i < length (cl_threads s)"
  shows "ops_total (load_next i c st w s) = ops_total s" "ops_done (load_next i c st w s) = (ops_done s)[i := ops_done s ! i + 1]"
    "sum_list (ops_done (load_next i c st w s)) = sum_list (ops_done s) + 1"
proof -
  show "ops_total (load_next i c st w s) = ops_total s"
    using assms by (auto simp: ops_total_def load_next_def Let_def nth_list_update intro!: nth_equalityI)
  show d: "ops_done (load_next i c st w s) = (ops_done s)[i := ops_done s ! i + 1]"
    using assms by (simp add: ops_done_def load_next_def Let_def map_update)
  show "sum_list (ops_done (load_next i c st w s)) = sum_list (ops_done s) + 1"
    unfolding d using assms sum_list_update_int [of i "ops_done s"] by (simp add: ops_done_def)
qed

lemma load_next_threads:
  assumes "loading start s" "i < length (cl_threads s)" "t \<in> set (cl_threads (load_next i c st w s))"
    and "opsDone (th_worker (cl_threads s ! i)) < opCount (th_worker (cl_threads s ! i))"
  shows "\<not> doTransactions (th_worker t) \<and> \<not> th_done t \<and> 0 < opCount (th_worker t) \<and>
    0 \<le> opsDone (th_worker t) \<and> opsDone (th_worker t) \<le> opCount (th_worker t)"
proof -
  have "cl_threads s ! i \<in> set (cl_threads s)" using assms(2) by simp
  note w = loadingD(3) [OF assms(1) this]
  have "t \<in> set (cl_threads s) \<or> (th_worker t = (th_worker (cl_threads s ! i))\<lparr>opsDone := opsDone (th_worker (cl_threads s ! i)) + 1\<rparr> \<and> \<not> th_done t)"
    using assms(3) by (auto simp: load_next_def Let_def dest!: subsetD [OF set_update_subset_insert])
  then show ?thesis using loadingD(3) [OF assms(1)] w assms(4) by auto
qed

lemma loading_next:
  assumes "loading start s" "i < length (cl_threads s)" "n = start + sum_list (ops_done s)"
    and "opsDone (th_worker (cl_threads s ! i)) < opCount (th_worker (cl_threads s ! i))"
    and d: "wrapped.ready c' st' w'" "same_config (cl_core s) c'" "counter (keySequence c') = n + 1"
      "content (snd w') = put_row (core_table (cl_core s)) (buildKeyName (cl_core s) n) m (content (snd (cl_world s)))"
      "dom m = set (fieldNames (cl_core s))"
  shows "loading start (load_next i c' st' w' s)"
  unfolding loading_def
proof (intro conjI allI impI ballI)
  note l = loadingD [OF assms(1)]
  show "client_ready (load_next i c' st' w' s)" unfolding load_next_def Let_def
    by (rule client_ready_step [OF l(1) assms(2) d(1)]) (use d(2) in simp_all)
  show "insertionRetryLimit (cl_core (load_next i c' st' w' s)) < max64"
    using l(2) d(2) by (simp add: load_next_def Let_def same_config_def)
  show "counter (keySequence (cl_core (load_next i c' st' w' s))) = start + sum_list (ops_done (load_next i c' st' w' s))"
    using d(3) load_next_ops(3) [OF assms(2)] by (simp add: load_next_def Let_def assms(3))
  show "0 \<le> start" "start + sum_list (ops_total (load_next i c' st' w' s)) \<le> max64"
    using l(4,5) load_next_ops(1) [OF assms(2)] by simp_all
  fix j assume j: "start \<le> j \<and> j < start + sum_list (ops_done (load_next i c' st' w' s))"
  have "content (snd w') (core_table c') (buildKeyName c' j) =
      (if buildKeyName (cl_core s) j = buildKeyName (cl_core s) n then Some m
       else content (snd (cl_world s)) (core_table (cl_core s)) (buildKeyName (cl_core s) j))"
    by (simp add: d(4) put_row_get buildKeyName_config [OF d(2)] same_configD(2) [OF d(2)])
  moreover have "j = n \<or> j < n" using j load_next_ops(3) [OF assms(2)] by (auto simp: assms(3))
  ultimately show "\<exists>m. content (snd (cl_world (load_next i c' st' w' s))) (core_table (cl_core (load_next i c' st' w' s)))
      (buildKeyName (cl_core (load_next i c' st' w' s)) j) = Some m \<and> dom m = set (fieldNames (cl_core (load_next i c' st' w' s)))"
    using l(7) [of j] j d(5) same_configD(3) [OF d(2)] by (auto simp: load_next_def Let_def assms(3))
qed (use load_next_threads [OF assms(1,2) _ assms(4)] in blast)+

lemma load_round:
  assumes "loading start s" "i < length (cl_threads s)"
    and "opsDone (th_worker (cl_threads s ! i)) < opCount (th_worker (cl_threads s ! i))"
  shows "\<exists>s'. client_step H E wdb (i, ctx, False) s = Ret s' \<and> loading start s' \<and> ops_total s' = ops_total s \<and>
    ops_done s' = (ops_done s)[i := ops_done s ! i + 1] \<and> same_config (cl_core s) (cl_core s')"
proof -
  define th c n where "th = cl_threads s ! i" and "c = cl_core s" and "n = start + sum_list (ops_done s)"
  note l = loadingD [OF assms(1)]
  have th: "th \<in> set (cl_threads s)" using assms(2) by (simp add: th_def)
  note w = l(3) [OF th]
  have r: "wrapped.ready c (th_state th) (cl_world s)" "\<not> doBatch (th_worker th)"
    using l(1) th by (auto simp: client_ready_def c_def)
  have n: "0 \<le> n" "n < max64" "counter (keySequence c) = n"
    using ops_done_le [OF assms(1)] ops_done_less [OF assms] l(4,5,6) by (auto simp: n_def c_def)
  then have "wrap64 (n + 1) = n + 1" "wrap64 (n + 1 - 1) = n" by (auto intro!: wrap64_id simp: in64_def)
  then have k: "fst (Counter_Next (keySequence c)) = n" "counter (snd (Counter_Next (keySequence c))) = n + 1"
    by (simp_all add: Counter_Next_def n(3) Let_def)
  obtain c' st' w' m where d: "DoInsert E ctx wdb (th_ctx th) c (th_state th) (cl_world s) = Ret (None, c', st', w')"
    "wrapped.ready c' st' w'" "same_config c c'" "counter (keySequence c') = n + 1"
    "content (snd w') = put_row (core_table c) (buildKeyName c n) m (content (snd (cl_world s)))" "dom m = set (fieldNames c)"
    using wrapped.DoInsert_ready [OF r(1), of E ctx "th_ctx th"] l(2) k by (auto simp: c_def case_prod_unfold)
  have "opCount (th_worker th) \<le> sum_list (ops_total s)"
    using th l(3) unfolding ops_total_def by (intro member_le_sum_list) (auto simp: less_imp_le)
  then have "wrap64 (opsDone (th_worker th) + opsCount (th_worker th)) = opsDone (th_worker th) + 1"
    using w assms(3) l(4,5) r(2) by (auto simp: opsCount_def in64_def th_def intro!: wrap64_id)
  moreover have "IsWarmUpFinished (fst w')"
    using wrapped.readyD(3) [OF d(2)] by (simp add: measuring_def case_prod_unfold)
  ultimately have step: "client_step H E wdb (i, ctx, False) s = Ret (load_next i c' st' w' s)"
    using assms(2,3) w r(2) d(1)
    by (simp add: client_step_def worker_active_def worker_round_def worker_op_def th_def [symmetric] c_def [symmetric] load_next_def)
  have "loading start (load_next i c' st' w' s)"
    by (rule loading_next [OF assms(1,2) n_def assms(3) d(2) d(3) [unfolded c_def] d(4) d(5,6) [unfolded c_def]])
  then show ?thesis using step load_next_ops [OF assms(2)] d(3) by (auto simp: load_next_def Let_def c_def)
qed

lemma length_ops [simp]: "length (ops_done s) = length (cl_threads s)" "length (ops_total s) = length (cl_threads s)"
  by (simp_all add: ops_done_def ops_total_def)

text \<open>A schedule of \<open>n\<close> rounds for worker \<open>k\<close> takes it \<open>n\<close> operations further, up to its last one.\<close>

lemma load_run:
  assumes "loading start s" "\<forall>(i, ctx, b) \<in> set sched. \<not> b"
  shows "\<exists>s'. client_run H E wdb sched s = Ret s' \<and> loading start s' \<and> ops_total s' = ops_total s \<and>
    same_config (cl_core s) (cl_core s') \<and>
    (\<forall>k < length (cl_threads s). ops_done s' ! k = min (ops_total s ! k) (ops_done s ! k + int (count_list (map fst sched) k)))"
  using assms unfolding client_run_def
proof (induction sched arbitrary: s)
  case Nil
  have "ops_done s ! k \<le> ops_total s ! k" if "k < length (cl_threads s)" for k
    using loadingD(3) [OF Nil(1) nth_mem [OF that]] that by (simp add: ops_done_def ops_total_def)
  then show ?case using Nil by simp
next
  case (Cons a sched)
  obtain i ctx where a: "a = (i, ctx, False)" using Cons.prems(2) by (cases a) auto
  have rest: "\<forall>(i, ctx, b) \<in> set sched. \<not> b" using Cons.prems(2) by simp
  show ?case
  proof (cases "i < length (cl_threads s) \<and> ops_done s ! i < ops_total s ! i")
    case True
    then obtain s1 where s1: "client_step H E wdb (i, ctx, False) s = Ret s1" "loading start s1" "ops_total s1 = ops_total s"
      "ops_done s1 = (ops_done s)[i := ops_done s ! i + 1]" "same_config (cl_core s) (cl_core s1)"
      using load_round [OF Cons.prems(1), of i E ctx] by (auto simp: ops_done_def ops_total_def)
    have len: "length (cl_threads s1) = length (cl_threads s)" using arg_cong [OF s1(3), of length] by simp
    show ?thesis
      using Cons.IH [OF s1(2) rest] s1 same_config_trans [OF s1(5)] True
      by (fastforce simp: a len nth_list_update)
  next
    case False
    have "client_step H E wdb (i, ctx, False) s = Ret s"
      using False loadingD(3) [OF Cons.prems(1) nth_mem [of i]]
      by (auto simp: client_step_def worker_active_def ops_done_def ops_total_def)
    moreover have "ops_total s ! i \<le> ops_done s ! i" if "i < length (cl_threads s)" using False that by simp
    ultimately show ?thesis using Cons.IH [OF Cons.prems(1) rest] by (fastforce simp: a)
  qed
qed

text \<open>The load is complete when every worker has left its loop.\<close>

lemma load_done:
  assumes "loading start s" "client_done s"
  shows "sum_list (ops_done s) = sum_list (ops_total s)"
proof -
  have "opsDone (th_worker th) = opCount (th_worker th)" if "th \<in> set (cl_threads s)" for th
    using loadingD(3) [OF assms(1) that] assms(2) that by (auto simp: client_done_def worker_active_def)
  then show ?thesis by (simp add: ops_done_def ops_total_def cong: map_cong)
qed

section \<open>Starting the workers\<close>

lemma start_thread_ok:
  assumes "wrapped.ready (cl_core s) (core_InitThread (rs i) (cl_core s)) (cl_world s)" "newWorker p (int i) tc = Ret w"
  shows "\<exists>dc wd. start_thread p wdb tc rs i s = Ret (s\<lparr>cl_threads := cl_threads s @ [\<lparr>th_worker = w,
      th_state = core_InitThread (rs i) (cl_core s), th_ctx = dc, th_done = False\<rparr>], cl_world := wd\<rparr>) \<and>
    (case wd of (rt, d) \<Rightarrow> measuring H rt \<and> db_inv d) \<and> (\<lambda>(rt, d). content d) wd = (\<lambda>(rt, d). content d) (cl_world s)"
proof -
  obtain dc wd where "db_InitThread wdb (int i) tc (cl_world s) = Ret (dc, wd)" "case wd of (rt, d) \<Rightarrow> measuring H rt \<and> db_inv d"
    "(\<lambda>(rt, d). content d) wd = (\<lambda>(rt, d). content d) (cl_world s)"
    using wrapped.init_ok [OF wrapped.readyD(3) [OF assms(1)]] by blast
  then show ?thesis by (intro exI [of _ dc] exI [of _ wd]) (simp add: start_thread_def assms(2))
qed

text \<open>The workers that \<open>start_threads\<close> makes.\<close>

definition started :: "properties \<Rightarrow> int \<Rightarrow> nat \<Rightarrow> ('c, 'h, 'd) client \<Rightarrow> bool" where
  "started p tc m s \<longleftrightarrow> length (cl_threads s) = m \<and> (\<forall>i < m. newWorker p (int i) tc = Ret (th_worker (cl_threads s ! i)) \<and>
     \<not> th_done (cl_threads s ! i) \<and> wrapped.ready (cl_core s) (th_state (cl_threads s ! i)) (cl_world s))"

lemma start_threads_started:
  assumes "\<And>r. wrapped.ready c (core_InitThread r c) wd" "\<And>i. i < m \<Longrightarrow> \<exists>w. newWorker p (int i) tc = Ret w"
  shows "\<exists>s. ofold (start_thread p wdb tc rs) [0..<m] \<lparr>cl_core = c, cl_threads = [], cl_world = wd\<rparr> = Ret s \<and>
    started p tc m s \<and> cl_core s = c \<and> (\<forall>r. wrapped.ready c (core_InitThread r c) (cl_world s))"
  using assms(2)
proof (induction m)
  case 0
  then show ?case using assms(1) by (simp add: started_def)
next
  case (Suc m)
  then obtain s where s: "ofold (start_thread p wdb tc rs) [0..<m] \<lparr>cl_core = c, cl_threads = [], cl_world = wd\<rparr> = Ret s"
    "started p tc m s" "cl_core s = c" "\<forall>r. wrapped.ready c (core_InitThread r c) (cl_world s)" by auto
  obtain w where w: "newWorker p (int m) tc = Ret w" using Suc.prems [of m] by auto
  obtain dc wd' where t: "start_thread p wdb tc rs m s = Ret (s\<lparr>cl_threads := cl_threads s @ [\<lparr>th_worker = w,
      th_state = core_InitThread (rs m) c, th_ctx = dc, th_done = False\<rparr>], cl_world := wd'\<rparr>)"
    "case wd' of (rt, d) \<Rightarrow> measuring H rt \<and> db_inv d" "(\<lambda>(rt, d). content d) wd' = (\<lambda>(rt, d). content d) (cl_world s)"
    using start_thread_ok [of s rs m p tc w] s(3,4) w by auto
  have "wrapped.ready c st wd'" if "wrapped.ready c st (cl_world s)" for st
    by (rule wrapped.ready_world [OF that]) (use t(2,3) wrapped.readyD(4) [OF that] in simp_all)
  then show ?case using s t w by (auto simp: ofold_append started_def nth_append less_Suc_eq)
qed

lemma started_loading:
  assumes "started p tc (nat tc) s" "1 \<le> tc" "in64 (totalOpCount p)" "tc \<le> totalOpCount p"
    and "\<not> GetBool p prop_DoTransactions True" "GetInt p prop_BatchSize prop_DefaultBatchSize \<le> 1"
    and "insertionRetryLimit (cl_core s) < max64" "counter (keySequence (cl_core s)) = start" "0 \<le> start" "start + totalOpCount p \<le> max64"
  shows "loading start s" "sum_list (ops_total s) = totalOpCount p" "\<forall>k < nat tc. ops_total s ! k \<le> totalOpCount p \<and> ops_done s ! k = 0"
proof -
  let ?n = "totalOpCount p"
  have len: "length (cl_threads s) = nat tc" using assms(1) by (simp add: started_def)
  have w: "opsDone (th_worker (cl_threads s ! i)) = 0 \<and> opCount (th_worker (cl_threads s ! i)) = ?n div tc + (if int i < ?n mod tc then 1 else 0) \<and>
      \<not> doTransactions (th_worker (cl_threads s ! i)) \<and> \<not> doBatch (th_worker (cl_threads s ! i)) \<and> \<not> th_done (cl_threads s ! i) \<and>
      wrapped.ready (cl_core s) (th_state (cl_threads s ! i)) (cl_world s)" if "i < nat tc" for i
    using newWorker_eq [OF assms(2-4), of "int i"] assms(1,5,6) that by (auto simp: started_def)
  have q: "1 \<le> ?n div tc" using assms(2,4) zdiv_mono1 [of tc ?n tc] by simp
  have tot: "ops_total s = map (\<lambda>i. ?n div tc + (if int i < ?n mod tc then 1 else 0)) [0..<nat tc]"
    using w len by (auto simp: ops_total_def intro!: nth_equalityI)
  have don: "ops_done s = map (\<lambda>i. 0) [0..<nat tc]" using w len by (auto simp: ops_done_def intro!: nth_equalityI)
  show sum: "sum_list (ops_total s) = ?n"
    unfolding tot by (simp add: interv_sum_list_conv_sum_set_nat atLeast0LessThan sum_opCount [OF assms(2)])
  have pos: "0 \<le> x" if "x \<in> set (ops_total s)" for x using that q by (auto simp: tot)
  have "x \<le> ?n" if "x \<in> set (ops_total s)" for x using member_le_sum_list [OF that] pos sum by auto
  then show "\<forall>k < nat tc. ops_total s ! k \<le> ?n \<and> ops_done s ! k = 0" using len by (auto simp: don)
  have th: "\<exists>i < nat tc. th = cl_threads s ! i" if "th \<in> set (cl_threads s)" for th
    using that len by (metis in_set_conv_nth)
  have "client_ready s" unfolding client_ready_def using th w by blast
  moreover have "\<forall>th \<in> set (cl_threads s). \<not> doTransactions (th_worker th) \<and> \<not> th_done th \<and> 0 < opCount (th_worker th) \<and>
      0 \<le> opsDone (th_worker th) \<and> opsDone (th_worker th) \<le> opCount (th_worker th)"
    using th w q by fastforce
  moreover have "sum_list (ops_done s) = 0" by (simp add: don sum_list_0)
  ultimately show "loading start s" using assms(7-10) sum by (auto simp: loading_def)
qed

text \<open>The whole load: whatever the schedule, if every worker gets enough rounds then all of them leave their
  loops and all keys are in the table.\<close>

lemma load_all:
  assumes ready: "\<And>r. wrapped.ready c (core_InitThread r c) wd"
    and tc: "GetInt p prop_ThreadCount 1 = tc" "1 \<le> tc" "tc \<le> totalOpCount p" "in64 (totalOpCount p)"
    and load: "\<not> GetBool p prop_DoTransactions True" "GetInt p prop_BatchSize prop_DefaultBatchSize \<le> 1" "insertionRetryLimit c < max64"
    and start: "counter (keySequence c) = start" "0 \<le> start" "start + totalOpCount p \<le> max64"
    and sched: "\<forall>(i, ctx, b) \<in> set sched. \<not> b" "\<forall>i < nat tc. totalOpCount p \<le> int (count_list (map fst sched) i)"
  shows "\<exists>s0 s. start_threads p wdb rs \<lparr>cl_core = c, cl_threads = [], cl_world = wd\<rparr> = Ret s0 \<and>
    client_run H E wdb sched s0 = Ret s \<and> client_done s \<and> (\<forall>r. wrapped.ready c (core_InitThread r c) (cl_world s)) \<and>
    (\<forall>j. start \<le> j \<and> j < start + totalOpCount p \<longrightarrow>
       (\<exists>m. content (snd (cl_world s)) (core_table c) (buildKeyName c j) = Some m \<and> dom m = set (fieldNames c)))"
proof -
  have workers: "\<exists>w. newWorker p (int i) tc = Ret w" if "i < nat tc" for i
    using newWorker_eq [OF tc(2,4,3), of "int i"] by auto
  obtain s0 where s0: "ofold (start_thread p wdb tc rs) [0..<nat tc] \<lparr>cl_core = c, cl_threads = [], cl_world = wd\<rparr> = Ret s0"
    "started p tc (nat tc) s0" "cl_core s0 = c"
    using start_threads_started [OF ready workers] by blast
  note l0 = started_loading [OF s0(2) tc(2,4,3) load(1,2), of start, unfolded s0(3), OF load(3) start]
  have len: "length (cl_threads s0) = nat tc" using s0(2) by (simp add: started_def)
  obtain s where s: "client_run H E wdb sched s0 = Ret s" "loading start s" "ops_total s = ops_total s0" "same_config c (cl_core s)"
    "\<forall>k < nat tc. ops_done s ! k = min (ops_total s0 ! k) (ops_done s0 ! k + int (count_list (map fst sched) k))"
    using load_run [OF l0(1) sched(1), of E] s0(3) len by auto
  have len': "length (cl_threads s) = nat tc" using arg_cong [OF s(3), of length] len by simp
  have "ops_done s ! k = ops_total s ! k" if "k < nat tc" for k
  proof -
    have "ops_total s0 ! k \<le> int (count_list (map fst sched) k)"
      using l0(3) [rule_format, OF that] sched(2) [rule_format, OF that] by linarith
    then show ?thesis using s(3,5) l0(3) that by simp
  qed
  then have "opsDone (th_worker th) = opCount (th_worker th)" if "th \<in> set (cl_threads s)" for th
    using that len' by (auto simp: in_set_conv_nth ops_done_def ops_total_def)
  then have fin: "client_done s" using loadingD(3) [OF s(2)] by (fastforce simp: client_done_def worker_active_def)
  have "sum_list (ops_done s) = totalOpCount p" using load_done [OF s(2) fin] s(3) l0(2) by simp
  then have "\<forall>j. start \<le> j \<and> j < start + totalOpCount p \<longrightarrow>
      (\<exists>m. content (snd (cl_world s)) (core_table c) (buildKeyName c j) = Some m \<and> dom m = set (fieldNames c))"
    using loadingD(7) [OF s(2)] buildKeyName_config [OF s(4)] same_configD(2,3) [OF s(4)] by simp
  moreover have "start_threads p wdb rs \<lparr>cl_core = c, cl_threads = [], cl_world = wd\<rparr> = Ret s0"
    using s0(1) tc(1,2) by (simp add: start_threads_def)
  moreover have "wrapped.ready c (core_InitThread r c) (cl_world s)" for r
    using wrapped.ready_step [OF client_ready_nth [OF loadingD(1) [OF s(2)], of 0] same_config_sym [OF s(4)] wrapped.readyD(1) [OF ready]]
      len' tc(2) by simp
  ultimately show ?thesis using s(1) fin by blast
qed

text \<open>From the properties to the running workers.\<close>

lemma ready_created:
  assumes "workload_fits E p nf vmax c" "0 < nf" "nf \<le> nat max64" "\<And>n. in64 n \<Longrightarrow> key_ok (core_table c) (buildKeyName c n)"
    and "measuring H rt" "db_inv d" "stored c (content d)"
  shows "wrapped.ready c (core_InitThread r c) (rt, d)"
proof -
  note w = workload_fitsD [OF assms(1)]
  have n: "0 < fieldCount c" "fieldCount c \<le> max64" using w(2) assms(2,3) by simp_all
  note i = core_Create_inv [OF w(1) n w(3) refl w(4,5)]
  have "key_gen (keyChooser c)" using newKeyChooser_key_gen core_Create_fields(13) [OF w(1)] by blast
  moreover have "fieldNames c = field_names nf" using core_Create_fields(5) [OF w(1)] w(2) by simp
  ultimately show ?thesis using i assms(4-7) w(6) by (simp add: wrapped.ready_def)
qed

lemma workers_start:
  assumes "\<And>r. wrapped.ready c (core_InitThread r c) wd" "GetInt p prop_ThreadCount 1 = tc" "1 \<le> tc" "tc \<le> totalOpCount p"
    and "in64 (totalOpCount p)" "GetInt p prop_BatchSize prop_DefaultBatchSize \<le> 1"
  shows "\<exists>s. start_threads p wdb rs \<lparr>cl_core = c, cl_threads = [], cl_world = wd\<rparr> = Ret s \<and> started p tc (nat tc) s \<and>
    cl_core s = c \<and> client_ready s"
proof -
  have workers: "\<exists>w. newWorker p (int i) tc = Ret w \<and> \<not> doBatch w" if "i < nat tc" for i
    using newWorker_eq [OF assms(3,5,4), of "int i"] assms(6) by fastforce
  obtain s where s: "ofold (start_thread p wdb tc rs) [0..<nat tc] \<lparr>cl_core = c, cl_threads = [], cl_world = wd\<rparr> = Ret s"
    "started p tc (nat tc) s" "cl_core s = c"
    using start_threads_started [OF assms(1), of "nat tc" p tc] workers by blast
  have "wrapped.ready (cl_core s) (th_state th) (cl_world s) \<and> \<not> doBatch (th_worker th)" if "th \<in> set (cl_threads s)" for th
  proof -
    obtain i where i: "i < nat tc" "th = cl_threads s ! i" using \<open>th \<in> _\<close> s(2) by (auto simp: started_def in_set_conv_nth)
    then show ?thesis using s(2) workers [OF i(1)] by (fastforce simp: started_def)
  qed
  then have "client_ready s" by (simp add: client_ready_def)
  then show ?thesis using s assms(2,3) by (auto simp: start_threads_def)
qed

text \<open>A run with any mix of operations keeps the database layer's invariant and only values that pass the check.\<close>

lemma run_safe:
  assumes "\<And>r. wrapped.ready c (core_InitThread r c) wd" "GetInt p prop_ThreadCount 1 = tc" "1 \<le> tc" "tc \<le> totalOpCount p"
    and "in64 (totalOpCount p)" "GetInt p prop_BatchSize prop_DefaultBatchSize \<le> 1" "insertionRetryLimit c < max64"
  shows "osafe (obind (start_threads p wdb rs \<lparr>cl_core = c, cl_threads = [], cl_world = wd\<rparr>) (client_run H E wdb sched))
    (\<lambda>s. db_inv (snd (cl_world s)) \<and> stored c (content (snd (cl_world s))))"
proof -
  obtain s0 where s0: "start_threads p wdb rs \<lparr>cl_core = c, cl_threads = [], cl_world = wd\<rparr> = Ret s0" "started p tc (nat tc) s0"
    "cl_core s0 = c" "client_ready s0"
    using workers_start [OF assms(1-6)] by blast
  have "db_inv (snd (cl_world s)) \<and> stored c (content (snd (cl_world s)))"
    if s: "client_ready s" "same_config c (cl_core s)" "length (cl_threads s) = nat tc" for s
  proof -
    have "wrapped.ready (cl_core s) (th_state (cl_threads s ! 0)) (cl_world s)" using client_ready_nth [OF s(1), of 0] s(3) assms(3) by simp
    then show ?thesis
      using wrapped.readyD(3,4) [of "cl_core s" "th_state (cl_threads s ! 0)" "cl_world s"] stored_config [OF s(2)]
      by (cases "cl_world s") auto
  qed
  moreover have "length (cl_threads s0) = nat tc" using s0(2) by (simp add: started_def)
  ultimately show ?thesis
    using client_run_safe [OF s0(4), of E sched] assms(7) s0(1,3) by (auto elim: osafe_mono)
qed


text \<open>The two results for a workload as the client creates it.\<close>

lemma ready_layer:
  assumes "layer_setup H E p nf vmax c rt" "\<And>n. in64 n \<Longrightarrow> key_ok (core_table c) (buildKeyName c n)" "db_inv d" "stored c (content d)"
  shows "wrapped.ready c (core_InitThread r c) (rt, d)"
proof -
  have l: "workload_fits E p nf vmax c" "measuring H rt" "0 < nf" "nf \<le> nat max64" using assms(1) by (simp_all add: layer_setup_def)
  show ?thesis by (rule ready_created [OF l(1,3,4) assms(2) l(2) assms(3,4)])
qed

lemma load_layer:
  assumes "layer_setup H E p nf vmax c rt" "\<And>n. in64 n \<Longrightarrow> key_ok (core_table c) (buildKeyName c n)" "db_inv d"
    and "content d (core_table c) = Map.empty" "load_settings p sched"
  shows "\<exists>s0 s. start_threads p wdb rs \<lparr>cl_core = c, cl_threads = [], cl_world = (rt, d)\<rparr> = Ret s0 \<and>
    client_run H E wdb sched s0 = Ret s \<and> client_done s \<and> (\<forall>r. wrapped.ready c (core_InitThread r c) (cl_world s)) \<and>
    loaded_all p c (content (snd (cl_world s)))"
proof -
  have p: "client_settings p" "core_Create E p = Ret c" using assms(1) by (simp_all add: layer_setup_def workload_fits_def)
  note cs = client_settingsD [OF p(1)] and cf = core_Create_fields [OF p(2)]
  have lim: "insertionRetryLimit c < max64" using cs(5) cf(10) by simp
  have start: "counter (keySequence c) = insert_start p" using cf(11) by (simp add: NewCounter_def)
  have l: "\<not> GetBool p prop_DoTransactions True" "0 \<le> insert_start p" "insert_start p + totalOpCount p \<le> max64"
    "\<forall>(i, ctx, b) \<in> set sched. \<not> b" "\<forall>i < nat (GetInt p prop_ThreadCount 1). totalOpCount p \<le> int (count_list (map fst sched) i)"
    using assms(5) by (simp_all add: load_settings_def fair_schedule_def)
  note ready = ready_layer [OF assms(1,2,3) stored_empty, OF _ assms(4)]
  show ?thesis
    using load_all [OF ready refl cs(1-3) l(1) cs(4) lim start l(2-5), of rs E] unfolding loaded_all_def by blast
qed

lemma safe_layer:
  assumes "layer_setup H E p nf vmax c rt" "\<And>n. in64 n \<Longrightarrow> key_ok (core_table c) (buildKeyName c n)" "db_inv d" "stored c (content d)"
  shows "osafe (obind (start_threads p wdb rs \<lparr>cl_core = c, cl_threads = [], cl_world = (rt, d)\<rparr>) (client_run H E wdb sched))
    (\<lambda>s. db_inv (snd (cl_world s)) \<and> stored c (content (snd (cl_world s))))"
proof -
  have p: "client_settings p" "core_Create E p = Ret c" using assms(1) by (simp_all add: layer_setup_def workload_fits_def)
  note cs = client_settingsD [OF p(1)]
  have lim: "insertionRetryLimit c < max64" using cs(5) core_Create_fields(10) [OF p(2)] by simp
  show ?thesis by (rule run_safe [OF ready_layer [OF assms] refl cs(1-4) lim])
qed

end

end
