(* ===== verification/BoltDB.thy ===== *)
theory BoltDB
  imports RowStore ClientFacts "HOL-Library.Finite_Map"
begin

text \<open>
  The BoltDB layer (\<^verbatim>\<open>db/boltdb/db.go\<close>). The bolt library is third-party code: its operations are the
  record \<open>boltlib\<close> on the state \<open>'s\<close> of a database or of a transaction. \<^verbatim>\<open>View\<close> and \<^verbatim>\<open>Update\<close> run a function in
  a transaction; a transaction whose function fails is rolled back. The documented behaviour that the
  layer relies on is \<open>bolt_laws\<close>.
\<close>

record boltOptions =
  bolt_Path :: string
  bolt_FileMode :: int
  bolt_Timeout :: int
  bolt_NoGrowSync :: bool
  bolt_ReadOnly :: bool
  bolt_MmapFlags :: int
  bolt_InitialMmapSize :: int

text \<open>The first argument of \<^verbatim>\<open>Open\<close> says that the files at the path have been removed before.\<close>

record 's boltlib =
  bolt_Open :: "bool \<Rightarrow> boltOptions \<Rightarrow> goerror + 's"
  bolt_Close :: "'s \<Rightarrow> goerror option \<times> 's"
  bolt_Begin :: "bool \<Rightarrow> 's \<Rightarrow> goerror + 's"
  bolt_Commit :: "'s \<Rightarrow> 's \<Rightarrow> goerror option \<times> 's"
  tx_Bucket :: "string \<Rightarrow> 's \<Rightarrow> bool"
  tx_CreateBucketIfNotExists :: "string \<Rightarrow> 's \<Rightarrow> goerror + 's"
  tx_DeleteBucket :: "string \<Rightarrow> 's \<Rightarrow> goerror option \<times> 's"
  bucket_Get :: "string \<Rightarrow> string \<Rightarrow> 's \<Rightarrow> bytes option"
  bucket_Put :: "string \<Rightarrow> string \<Rightarrow> bytes \<Rightarrow> 's \<Rightarrow> goerror option \<times> 's"
  bucket_Delete :: "string \<Rightarrow> string \<Rightarrow> 's \<Rightarrow> goerror option \<times> 's"
  bucket_KeyN :: "string \<Rightarrow> 's \<Rightarrow> int"
  cursor_Seek :: "string \<Rightarrow> string \<Rightarrow> 's \<Rightarrow> (string \<times> bytes) list"

text \<open>\<^verbatim>\<open>View\<close> and \<^verbatim>\<open>Update\<close> as they are documented; \<open>x\<close> is a variable that the function captures.\<close>

definition bolt_View :: "'s boltlib \<Rightarrow> ('s \<Rightarrow> (goerror + 'a) outcome) \<Rightarrow> 's \<Rightarrow> (goerror + 'a) outcome" where
  "bolt_View B f s = (case bolt_Begin B False s of Inl err \<Rightarrow> Ret (Inl err) | Inr tx \<Rightarrow> f tx)"

definition bolt_Update :: "'s boltlib \<Rightarrow> ('s \<Rightarrow> 'x \<Rightarrow> (goerror option \<times> 's \<times> 'x) outcome) \<Rightarrow> 's \<Rightarrow> 'x \<Rightarrow>
    (goerror option \<times> 's \<times> 'x) outcome" where
  "bolt_Update B f s x = (case bolt_Begin B True s of
       Inl err \<Rightarrow> Ret (Some err, s, x)
     | Inr tx \<Rightarrow> obind (f tx x) (\<lambda>(e, tx, x). case e of
           Some err \<Rightarrow> Ret (Some err, s, x)
         | None \<Rightarrow> let (e, s) = bolt_Commit B s tx in Ret (e, s, x)))"

record 's boltDB =
  bolt_db :: 's
  bolt_r :: RowCodec
  bolt_bufPool :: pool

definition bolt_getOptions :: "properties \<Rightarrow> boltOptions" where
  "bolt_getOptions p = \<lparr>bolt_Path = GetString p ''bolt.path'' ''/tmp/boltdb'', bolt_FileMode = 384,
     bolt_Timeout = GetDuration p ''bolt.timeout'' 0, bolt_NoGrowSync = GetBool p ''bolt.no_grow_sync'' False,
     bolt_ReadOnly = GetBool p ''bolt.read_only'' False, bolt_MmapFlags = GetInt p ''bolt.mmap_flags'' 0,
     bolt_InitialMmapSize = GetInt p ''bolt.initial_mmap_size'' 0\<rparr>"

definition bolt_Create :: "'s boltlib \<Rightarrow> properties \<Rightarrow> (goerror + 's boltDB) outcome" where
  "bolt_Create B p =
     (case bolt_Open B (GetBool p prop_DropData prop_DropDataDefault) (bolt_getOptions p) of
        Inl err \<Rightarrow> Ret (Inl err)
      | Inr s \<Rightarrow> obind (NewRowCodec p) (\<lambda>r. Ret (Inr \<lparr>bolt_db = s, bolt_r = r, bolt_bufPool = NewBufPool\<rparr>)))"

definition boltDB_Close :: "'s boltlib \<Rightarrow> ('s boltDB, goerror option) dbop" where
  "boltDB_Close B d = (let (e, s) = bolt_Close B (bolt_db d) in Ret (e, d\<lparr>bolt_db := s\<rparr>))"

definition boltDB_InitThread :: "int \<Rightarrow> int \<Rightarrow> ('s boltDB, unit) dbop" where
  "boltDB_InitThread i n d = Ret ((), d)"

definition boltDB_CleanupThread :: "unit \<Rightarrow> 's boltDB \<Rightarrow> 's boltDB outcome" where
  "boltDB_CleanupThread c d = Ret d"

definition table_not_found :: "string \<Rightarrow> goerror" where
  "table_not_found table = ''table not found: '' @ table"

definition key_not_found :: "string \<Rightarrow> string \<Rightarrow> goerror" where
  "key_not_found table key = ''key not found: '' @ table @ ''.'' @ key"

definition boltDB_Read :: "'s boltlib \<Rightarrow> unit \<Rightarrow> string \<Rightarrow> string \<Rightarrow> string list \<Rightarrow> ('s boltDB, goerror + row) dbop" where
  "boltDB_Read B c table key flds d = obind (bolt_View B (\<lambda>tx.
       if \<not> tx_Bucket B table tx then Ret (Inl (table_not_found table))
       else case bucket_Get B table key tx of
           None \<Rightarrow> Ret (Inl (key_not_found table key))
         | Some row \<Rightarrow> Decode (bolt_r d) row flds) (bolt_db d)) (\<lambda>res. Ret (res, d))"

definition boltDB_Scan :: "'s boltlib \<Rightarrow> unit \<Rightarrow> string \<Rightarrow> string \<Rightarrow> int \<Rightarrow> string list \<Rightarrow>
    ('s boltDB, goerror + row list) dbop" where
  "boltDB_Scan B c table startKey n flds d =
     (if n < 0 then Panic ''makeslice: len out of range''
      else obind (bolt_View B (\<lambda>tx.
        if \<not> tx_Bucket B table tx then Ret (Inl (table_not_found table))
        else obind (scan_rows (bolt_r d) flds (nat n) (cursor_Seek B table startKey tx)) (\<lambda>res. case res of
            Inl err \<Rightarrow> Ret (Inl err)
          | Inr rows \<Rightarrow> Ret (Inr (pad_rows n rows)))) (bolt_db d)) (\<lambda>res. Ret (res, d)))"

text \<open>Encode a row into a pooled buffer and put it; the deferred function gives the buffer back.\<close>

definition boltDB_put :: "'s boltlib \<Rightarrow> RowCodec \<Rightarrow> string \<Rightarrow> string \<Rightarrow> row \<Rightarrow> 's \<Rightarrow> pool \<Rightarrow>
    (goerror option \<times> 's \<times> pool) outcome" where
  "boltDB_put B r table key vals tx pl =
     (let (buf, pl) = BufPool_Get pl
      in case Encode r buf vals of
           Inl err \<Rightarrow> Ret (Some err, tx, BufPool_Put [] pl)
         | Inr buf \<Rightarrow> let (e, tx) = bucket_Put B table key buf tx in Ret (e, tx, BufPool_Put buf pl))"

definition boltDB_Update :: "'s boltlib \<Rightarrow> unit \<Rightarrow> string \<Rightarrow> string \<Rightarrow> row \<Rightarrow> ('s boltDB, goerror option) dbop" where
  "boltDB_Update B c table key vals d = obind (bolt_Update B (\<lambda>tx pl.
       if \<not> tx_Bucket B table tx then Ret (Some (table_not_found table), tx, pl)
       else case bucket_Get B table key tx of
           None \<Rightarrow> Ret (Some (key_not_found table key), tx, pl)
         | Some value \<Rightarrow> obind (Decode (bolt_r d) value []) (\<lambda>res. case res of
               Inl err \<Rightarrow> Ret (Some err, tx, pl)
             | Inr data \<Rightarrow> boltDB_put B (bolt_r d) table key (map_assign data vals) tx pl)) (bolt_db d) (bolt_bufPool d))
     (\<lambda>(e, s, pl). Ret (e, d\<lparr>bolt_db := s, bolt_bufPool := pl\<rparr>))"

definition boltDB_Insert :: "'s boltlib \<Rightarrow> unit \<Rightarrow> string \<Rightarrow> string \<Rightarrow> row \<Rightarrow> ('s boltDB, goerror option) dbop" where
  "boltDB_Insert B c table key vals d = obind (bolt_Update B (\<lambda>tx pl. case tx_CreateBucketIfNotExists B table tx of
         Inl err \<Rightarrow> Ret (Some err, tx, pl)
       | Inr tx \<Rightarrow> boltDB_put B (bolt_r d) table key vals tx pl) (bolt_db d) (bolt_bufPool d))
     (\<lambda>(e, s, pl). Ret (e, d\<lparr>bolt_db := s, bolt_bufPool := pl\<rparr>))"

definition boltDB_Delete :: "'s boltlib \<Rightarrow> unit \<Rightarrow> string \<Rightarrow> string \<Rightarrow> ('s boltDB, goerror option) dbop" where
  "boltDB_Delete B c table key d = obind (bolt_Update B (\<lambda>tx pl.
       if \<not> tx_Bucket B table tx then Ret (None, tx, pl)
       else case bucket_Delete B table key tx of
           (Some err, tx) \<Rightarrow> Ret (Some err, tx, pl)
         | (None, tx) \<Rightarrow> Ret (None, if bucket_KeyN B table tx = 0 then snd (tx_DeleteBucket B table tx) else tx, pl))
       (bolt_db d) (bolt_bufPool d))
     (\<lambda>(e, s, pl). Ret (e, d\<lparr>bolt_db := s, bolt_bufPool := pl\<rparr>))"

definition boltDB_DB :: "'s boltlib \<Rightarrow> (unit, 's boltDB) DB" where
  "boltDB_DB B = \<lparr>db_Close = boltDB_Close B, db_InitThread = boltDB_InitThread, db_CleanupThread = boltDB_CleanupThread,
     db_Read = boltDB_Read B, db_Scan = boltDB_Scan B, db_Update = boltDB_Update B, db_Insert = boltDB_Insert B,
     db_Delete = boltDB_Delete B, db_Batch = None, db_Analyze = None, db_Count = None, db_Clean = None\<rparr>"

section \<open>The bolt library\<close>

definition bolt_raw :: "'s boltlib \<Rightarrow> 's \<Rightarrow> raw_tables" where
  "bolt_raw B s = (\<lambda>t k. if tx_Bucket B t s then bucket_Get B t k s else None)"

text \<open>
  The documented behaviour: a transaction starts from the state of the database and its commit makes it
  the new one; a bucket that is created is empty; a key that is put is found, and nothing else changes,
  for keys of 1 to 32768 bytes and values of less than 2 GiB; a cursor walks the keys in byte order.
\<close>

definition bolt_laws :: "'s boltlib \<Rightarrow> bool" where
  "bolt_laws B \<longleftrightarrow> (\<forall>b s. bolt_Begin B b s = Inr s) \<and> (\<forall>s tx. bolt_Commit B s tx = (None, tx)) \<and>
     (\<forall>t s. t \<noteq> [] \<longrightarrow> (\<exists>s'. tx_CreateBucketIfNotExists B t s = Inr s' \<and> tx_Bucket B t s' \<and> bolt_raw B s' = bolt_raw B s)) \<and>
     (\<forall>t k v s. tx_Bucket B t s \<longrightarrow> k \<noteq> [] \<longrightarrow> length k \<le> 32768 \<longrightarrow> int (length v) \<le> 2147483646 \<longrightarrow>
        (\<exists>s'. bucket_Put B t k v s = (None, s') \<and> bolt_raw B s' = (bolt_raw B s)(t := (bolt_raw B s t)(k \<mapsto> v)))) \<and>
     (\<forall>t k s. tx_Bucket B t s \<longrightarrow>
        (\<exists>s'. bucket_Delete B t k s = (None, s') \<and> tx_Bucket B t s' \<and> bolt_raw B s' = (bolt_raw B s)(t := (bolt_raw B s t)(k := None)))) \<and>
     (\<forall>t s. tx_Bucket B t s \<longrightarrow> bucket_KeyN B t s = 0 \<longrightarrow> bolt_raw B (snd (tx_DeleteBucket B t s)) = bolt_raw B s) \<and>
     (\<forall>t k s. tx_Bucket B t s \<longrightarrow> sorted_wrt (<) (map fst (cursor_Seek B t k s)) \<and>
        (\<forall>k' v. (k', v) \<in> set (cursor_Seek B t k s) \<longleftrightarrow> k \<le> k' \<and> bolt_raw B s t k' = Some v))"

lemmas bolt_lawsD =
  bolt_laws_def [THEN iffD1, THEN conjunct1, rule_format]
  bolt_laws_def [THEN iffD1, THEN conjunct2, THEN conjunct1, rule_format]
  bolt_laws_def [THEN iffD1, THEN conjunct2, THEN conjunct2, THEN conjunct1, rule_format]
  bolt_laws_def [THEN iffD1, THEN conjunct2, THEN conjunct2, THEN conjunct2, THEN conjunct1, rule_format]
  bolt_laws_def [THEN iffD1, THEN conjunct2, THEN conjunct2, THEN conjunct2, THEN conjunct2, THEN conjunct1, rule_format]
  bolt_laws_def [THEN iffD1, THEN conjunct2, THEN conjunct2, THEN conjunct2, THEN conjunct2, THEN conjunct2, THEN conjunct1, rule_format]
  bolt_laws_def [THEN iffD1, THEN conjunct2, THEN conjunct2, THEN conjunct2, THEN conjunct2, THEN conjunct2, THEN conjunct2, rule_format, THEN conjunct1]
  bolt_laws_def [THEN iffD1, THEN conjunct2, THEN conjunct2, THEN conjunct2, THEN conjunct2, THEN conjunct2, THEN conjunct2, rule_format, THEN conjunct2, rule_format]

definition bolt_key_ok :: "string \<Rightarrow> string \<Rightarrow> bool" where
  "bolt_key_ok t k \<longleftrightarrow> t \<noteq> [] \<and> k \<noteq> [] \<and> length k \<le> 32768"

definition bolt_inv :: "nat \<Rightarrow> int \<Rightarrow> 's boltlib \<Rightarrow> 's boltDB \<Rightarrow> bool" where
  "bolt_inv n vmax B d \<longleftrightarrow> bolt_laws B \<and> sizes_ok n vmax 2147483646 \<and> bolt_r d = field_codec n \<and>
     encoded n vmax (bolt_raw B (bolt_db d))"

lemma bolt_invD:
  assumes "bolt_inv n vmax B d"
  shows "bolt_laws B" "sizes_ok n vmax 2147483646" "bolt_r d = field_codec n" "encoded n vmax (bolt_raw B (bolt_db d))"
  using assms by (simp_all add: bolt_inv_def)


section \<open>The layer meets the contract\<close>

text \<open>Putting an encoded row into an existing bucket.\<close>

lemma boltDB_put_ok:
  assumes "bolt_laws B" "tx_Bucket B t tx" "bolt_key_ok t k" "Encode r [] vals = Inr b" "int (length b) \<le> 2147483646"
  shows "\<exists>tx' pl'. boltDB_put B r t k vals tx pl = Ret (None, tx', pl') \<and> bolt_raw B tx' = (bolt_raw B tx)(t := (bolt_raw B tx t)(k \<mapsto> b))"
proof -
  obtain pl1 where pl: "BufPool_Get pl = ([], pl1)" by (metis BufPool_Get_empty prod.collapse)
  obtain tx' where "bucket_Put B t k b tx = (None, tx')" "bolt_raw B tx' = (bolt_raw B tx)(t := (bolt_raw B tx t)(k \<mapsto> b))"
    using bolt_lawsD(4) [OF assms(1,2)] assms(3,5) unfolding bolt_key_ok_def by blast
  then show ?thesis by (simp add: boltDB_put_def pl assms(4))
qed

lemma boltDB_Insert_ok:
  assumes "bolt_inv n vmax B d" "bolt_key_ok t k" "row_fits n vmax v"
  shows "\<exists>d'. boltDB_Insert B c t k v d = Ret (None, d') \<and> bolt_inv n vmax B d' \<and>
    rows_of n (bolt_raw B (bolt_db d')) = put_row t k (map_of v) (rows_of n (bolt_raw B (bolt_db d)))"
proof -
  note d = bolt_invD [OF assms(1)]
  obtain tx where tx: "tx_CreateBucketIfNotExists B t (bolt_db d) = Inr tx" "tx_Bucket B t tx" "bolt_raw B tx = bolt_raw B (bolt_db d)"
    using bolt_lawsD(3) [OF d(1)] assms(2) unfolding bolt_key_ok_def by blast
  obtain b where b: "Encode (field_codec n) [] v = Inr b" "int (length b) \<le> 2147483646"
    "encoded n vmax ((bolt_raw B tx)(t := (bolt_raw B tx t)(k \<mapsto> b)))"
    "rows_of n ((bolt_raw B tx)(t := (bolt_raw B tx t)(k \<mapsto> b))) = put_row t k (map_of v) (rows_of n (bolt_raw B tx))"
    using insert_encoded [OF d(2,4) assms(3), of t k] by (auto simp: tx(3))
  obtain tx' pl' where "boltDB_put B (field_codec n) t k v tx (bolt_bufPool d) = Ret (None, tx', pl')"
    "bolt_raw B tx' = (bolt_raw B tx)(t := (bolt_raw B tx t)(k \<mapsto> b))"
    using boltDB_put_ok [OF d(1) tx(2) assms(2) b(1,2)] by blast
  then show ?thesis
    using b(3,4) tx d by (auto simp: boltDB_Insert_def bolt_Update_def bolt_lawsD [OF d(1)] bolt_inv_def)
qed

lemma boltDB_Update_ok:
  assumes "bolt_inv n vmax B d" "bolt_key_ok t k" "row_fits n vmax v"
  shows "\<exists>e d'. boltDB_Update B c t k v d = Ret (e, d') \<and> bolt_inv n vmax B d' \<and>
    update_result t k v (rows_of n (bolt_raw B (bolt_db d))) e (rows_of n (bolt_raw B (bolt_db d')))"
proof -
  note d = bolt_invD [OF assms(1)]
  let ?raw = "bolt_raw B (bolt_db d)"
  show ?thesis
  proof (cases "?raw t k")
    case None
    then have "\<exists>e. boltDB_Update B c t k v d = Ret (Some e, d)"
      by (auto simp: bolt_raw_def boltDB_Update_def bolt_Update_def bolt_lawsD [OF d(1)] split: if_splits)
    then show ?thesis using assms(1) None by (auto simp: update_result_def rows_of_get)
  next
    case (Some b)
    then have bk: "tx_Bucket B t (bolt_db d)" "bucket_Get B t k (bolt_db d) = Some b"
      by (auto simp: bolt_raw_def split: if_splits)
    obtain data b' where b': "Decode (field_codec n) b [] = Ret (Inr data)" "Encode (field_codec n) [] (map_assign data v) = Inr b'"
      "int (length b') \<le> 2147483646" "encoded n vmax (?raw(t := (?raw t)(k \<mapsto> b')))"
      "rows_of n (?raw(t := (?raw t)(k \<mapsto> b'))) = put_row t k (decoded n b ++ map_of v) (rows_of n ?raw)"
      using update_encoded [OF d(2,4) Some assms(3)] by blast
    obtain tx' pl' where "boltDB_put B (field_codec n) t k (map_assign data v) (bolt_db d) (bolt_bufPool d) = Ret (None, tx', pl')"
      "bolt_raw B tx' = ?raw(t := (?raw t)(k \<mapsto> b'))"
      using boltDB_put_ok [OF d(1) bk(1) assms(2) b'(2,3)] by blast
    then show ?thesis
      using b' bk d Some by (auto simp: boltDB_Update_def bolt_Update_def bolt_lawsD [OF d(1)] bolt_inv_def update_result_def rows_of_get)
  qed
qed

lemma boltDB_Read_ok:
  assumes "bolt_inv n vmax B d" "set fs \<subseteq> set (field_names n)"
  shows "\<exists>res. boltDB_Read B c t k fs d = Ret (res, d) \<and> read_result n (rows_of n (bolt_raw B (bolt_db d)) t k) fs res"
proof -
  note d = bolt_invD [OF assms(1)]
  show ?thesis
  proof (cases "bolt_raw B (bolt_db d) t k")
    case None
    then have "\<exists>e. boltDB_Read B c t k fs d = Ret (Inl e, d)"
      by (auto simp: bolt_raw_def boltDB_Read_def bolt_View_def bolt_lawsD [OF d(1)] split: if_splits)
    then show ?thesis using None by (auto simp: read_result_def rows_of_get)
  next
    case (Some b)
    then have bk: "tx_Bucket B t (bolt_db d)" "bucket_Get B t k (bolt_db d) = Some b"
      by (auto simp: bolt_raw_def split: if_splits)
    show ?thesis
      using read_encoded [OF d(2,4) Some assms(2)] bk d(3)
      by (auto simp: boltDB_Read_def bolt_View_def bolt_lawsD [OF d(1)])
  qed
qed

text \<open>The scan decodes the entries that the cursor gives.\<close>

lemma scan_rows_ok:
  assumes "sizes_ok n vmax room" "encoded n vmax raw" "\<forall>(k, v) \<in> set es. raw t k = Some v" "set fs \<subseteq> set (field_names n)"
  shows "\<exists>rows. scan_rows (field_codec n) fs m es = Ret (Inr rows) \<and>
    list_all2 (\<lambda>(k, v) row. read_result n (rows_of n raw t k) fs (Inr row)) (take m es) rows"
proof -
  have row: "\<exists>row. Decode (field_codec n) v fs = Ret (Inr row) \<and> read_result n (rows_of n raw t k) fs (Inr row)"
    if "(k, v) \<in> set es" for k v
    using read_encoded [OF assms(1,2) _ assms(4)] assms(3) that by blast
  then obtain rows where r: "scan_rows (field_codec n) fs m es = Ret (Inr rows)"
    "list_all2 (\<lambda>(k, v) row. Decode (field_codec n) v fs = Ret (Inr row)) (take m es) rows"
    using scan_rows_total [of es "field_codec n" fs m] by blast
  have "list_all2 (\<lambda>(k, v) row. read_result n (rows_of n raw t k) fs (Inr row)) (take m es) rows"
    by (rule list.rel_mono_strong [OF r(2)]) (use row in \<open>fastforce dest: in_set_takeD\<close>)
  then show ?thesis using r(1) by blast
qed

lemma boltDB_Scan_rows:
  assumes "bolt_inv nf vmax B d" "set fs \<subseteq> set (field_names nf)" "0 \<le> n" "tx_Bucket B t (bolt_db d)"
  shows "\<exists>rows. boltDB_Scan B c t k n fs d = Ret (Inr (pad_rows n rows), d) \<and>
    list_all2 (\<lambda>(k, v) row. read_result nf (rows_of nf (bolt_raw B (bolt_db d)) t k) fs (Inr row))
      (take (nat n) (cursor_Seek B t k (bolt_db d))) rows"
proof -
  note d = bolt_invD [OF assms(1)]
  have "\<forall>(k, v) \<in> set (cursor_Seek B t k (bolt_db d)). bolt_raw B (bolt_db d) t k = Some v"
    using bolt_lawsD(8) [OF d(1) assms(4)] by blast
  then obtain rows where "scan_rows (field_codec nf) fs (nat n) (cursor_Seek B t k (bolt_db d)) = Ret (Inr rows)"
    "list_all2 (\<lambda>(k, v) row. read_result nf (rows_of nf (bolt_raw B (bolt_db d)) t k) fs (Inr row))
      (take (nat n) (cursor_Seek B t k (bolt_db d))) rows"
    using scan_rows_ok [OF d(2,4) _ assms(2)] by blast
  then show ?thesis
    using assms(3,4) by (auto simp: boltDB_Scan_def bolt_View_def bolt_lawsD(1) [OF d(1)] d(3))
qed

lemma boltDB_Scan_ok:
  assumes "bolt_inv nf vmax B d" "set fs \<subseteq> set (field_names nf)"
  shows "n < 0 \<and> boltDB_Scan B c t k n fs d = Panic ''makeslice: len out of range'' \<or>
    0 \<le> n \<and> (\<exists>res. boltDB_Scan B c t k n fs d = Ret (res, d))"
proof (cases "n < 0 \<or> tx_Bucket B t (bolt_db d)")
  case True
  then show ?thesis using boltDB_Scan_rows [OF assms, of n t c k] by (cases "n < 0") (auto simp: boltDB_Scan_def)
next
  case False
  then show ?thesis using bolt_lawsD(1) [OF bolt_invD(1) [OF assms(1)]] by (simp add: boltDB_Scan_def bolt_View_def)
qed

interpretation bolt: kv_database nf vmax bolt_key_ok "boltDB_DB B" "bolt_inv nf vmax B"
  "\<lambda>d. rows_of nf (bolt_raw B (bolt_db d))"
proof (unfold_locales, goal_cases)
  case (1 w t k v c)
  then show ?case using boltDB_Insert_ok by (simp add: boltDB_DB_def)
next
  case (2 w t k fs c)
  then show ?case using boltDB_Read_ok [OF 2(1,3), of c t k] by (auto simp: boltDB_DB_def)
next
  case (3 w t k v c)
  then show ?case using boltDB_Update_ok by (simp add: boltDB_DB_def)
next
  case (4 w i m)
  then show ?case by (simp add: boltDB_DB_def boltDB_InitThread_def)
next
  case (5 w fs c t k n)
  then show ?case using boltDB_Scan_ok [OF 5, of n c t k] by (auto simp: boltDB_DB_def)
qed

interpretation boltm: measured_database nf vmax bolt_key_ok "boltDB_DB B" "bolt_inv nf vmax B"
  "\<lambda>d. rows_of nf (bolt_raw B (bolt_db d))" H
  for nf vmax and B :: "'s boltlib" and H :: "'h hdrlib"
  by unfold_locales

section \<open>A concrete store\<close>

text \<open>The laws can hold: buckets as finite maps from keys to values.\<close>

definition map_bolt :: "(string, (string, bytes) fmap) fmap boltlib" where
  "map_bolt =
     \<lparr>bolt_Open = (\<lambda>_ _. Inr fmempty), bolt_Close = (\<lambda>s. (None, s)), bolt_Begin = (\<lambda>_ s. Inr s), bolt_Commit = (\<lambda>_ tx. (None, tx)),
      tx_Bucket = (\<lambda>t s. fmlookup s t \<noteq> None),
      tx_CreateBucketIfNotExists = (\<lambda>t s. if t = [] then Inl ''bucket name required''
        else if fmlookup s t = None then Inr (fmupd t fmempty s) else Inr s),
      tx_DeleteBucket = (\<lambda>t s. (None, fmdrop t s)),
      bucket_Get = (\<lambda>t k s. case fmlookup s t of None \<Rightarrow> None | Some b \<Rightarrow> fmlookup b k),
      bucket_Put = (\<lambda>t k v s. (None, fmupd t (fmupd k v (the (fmlookup s t))) s)),
      bucket_Delete = (\<lambda>t k s. (None, fmupd t (fmdrop k (the (fmlookup s t))) s)),
      bucket_KeyN = (\<lambda>t s. int (fcard (fmdom (the (fmlookup s t))))),
      cursor_Seek = (\<lambda>t k s. filter (\<lambda>(k', v). k \<le> k') (sorted_list_of_fmap (the (fmlookup s t))))\<rparr>"

lemma map_bolt_raw: "bolt_raw map_bolt s = (\<lambda>t k. case fmlookup s t of None \<Rightarrow> None | Some b \<Rightarrow> fmlookup b k)"
  by (auto simp: bolt_raw_def map_bolt_def fun_eq_iff split: option.splits)

lemma map_bolt_simps [simp]:
  "bolt_Begin map_bolt b s = Inr s" "bolt_Commit map_bolt s tx = (None, tx)" "tx_Bucket map_bolt t s \<longleftrightarrow> fmlookup s t \<noteq> None"
  "tx_CreateBucketIfNotExists map_bolt t s = (if t = [] then Inl ''bucket name required''
     else if fmlookup s t = None then Inr (fmupd t fmempty s) else Inr s)"
  "tx_DeleteBucket map_bolt t s = (None, fmdrop t s)"
  "bucket_Put map_bolt t k v s = (None, fmupd t (fmupd k v (the (fmlookup s t))) s)"
  "bucket_Delete map_bolt t k s = (None, fmupd t (fmdrop k (the (fmlookup s t))) s)"
  "bucket_KeyN map_bolt t s = int (fcard (fmdom (the (fmlookup s t))))"
  "cursor_Seek map_bolt t k s = filter (\<lambda>(k', v). k \<le> k') (sorted_list_of_fmap (the (fmlookup s t)))"
  by (simp_all add: map_bolt_def)

lemma sorted_list_of_fmap_sorted: "sorted_wrt (<) (map fst (sorted_list_of_fmap m))"
  by (simp add: sorted_list_of_fmap_def o_def strict_sorted_iff sorted_list_of_fset.rep_eq)

lemma set_sorted_list_of_fmap: "(k, v) \<in> set (sorted_list_of_fmap m) \<longleftrightarrow> fmlookup m k = Some v"
  by (auto simp: sorted_list_of_fmap_def sorted_list_of_fset.rep_eq fmlookup_dom_iff)

lemma sorted_wrt_filter_fst: "sorted_wrt (<) (map fst xs) \<Longrightarrow> sorted_wrt (<) (map fst (filter P xs))"
  by (induction xs) auto

lemma bolt_laws_map_bolt: "bolt_laws map_bolt"
  unfolding bolt_laws_def
proof (intro conjI allI impI)
  fix t k s assume "tx_Bucket map_bolt t s"
  then obtain b where b: "fmlookup s t = Some b" by auto
  show "sorted_wrt (<) (map fst (cursor_Seek map_bolt t k s))"
    using sorted_list_of_fmap_sorted [of b] by (auto simp: b intro: sorted_wrt_filter_fst)
  show "((k', v) \<in> set (cursor_Seek map_bolt t k s)) = (k \<le> k' \<and> bolt_raw map_bolt s t k' = Some v)" for k' v
    using set_sorted_list_of_fmap [of k' v b] by (auto simp: map_bolt_raw b)
next
  fix t s assume "tx_Bucket map_bolt t s" "bucket_KeyN map_bolt t s = 0"
  then obtain b where b: "fmlookup s t = Some b" "fmdom b = {||}" by auto
  then have "fmlookup b k = None" for k using fmdom_notD [of k b] by simp
  with b(1) have "fmlookup s t = Some fmempty" by (metis fmap_ext fmempty_lookup)
  then show "bolt_raw map_bolt (snd (tx_DeleteBucket map_bolt t s)) = bolt_raw map_bolt s"
    by (auto simp: map_bolt_raw fun_eq_iff)
qed (auto simp: map_bolt_raw fun_eq_iff)

section \<open>Properties\<close>

lemma boltDB_Delete_ok:
  assumes "bolt_inv n vmax B d"
  shows "\<exists>d'. boltDB_Delete B c t k d = Ret (None, d') \<and> bolt_inv n vmax B d' \<and>
    rows_of n (bolt_raw B (bolt_db d')) = (rows_of n (bolt_raw B (bolt_db d)))(t := (rows_of n (bolt_raw B (bolt_db d)) t)(k := None))"
proof (cases "tx_Bucket B t (bolt_db d)")
  case True
  note d = bolt_invD [OF assms]
  obtain s where s: "bucket_Delete B t k (bolt_db d) = (None, s)" "tx_Bucket B t s"
    "bolt_raw B s = (bolt_raw B (bolt_db d))(t := (bolt_raw B (bolt_db d) t)(k := None))"
    using bolt_lawsD(5) [OF d(1) True] by blast
  define s' where "s' = (if bucket_KeyN B t s = 0 then snd (tx_DeleteBucket B t s) else s)"
  have raw: "bolt_raw B s' = (bolt_raw B (bolt_db d))(t := (bolt_raw B (bolt_db d) t)(k := None))"
    using bolt_lawsD(6) [OF d(1) s(2)] s(3) by (simp add: s'_def)
  have "encoded n vmax (bolt_raw B s')" using d(4) by (auto simp: raw encoded_def)
  moreover have "boltDB_Delete B c t k d = Ret (None, d\<lparr>bolt_db := s'\<rparr>)"
    using True s(1) by (simp add: boltDB_Delete_def bolt_Update_def bolt_lawsD(1,2) [OF d(1)] s'_def)
  ultimately show ?thesis
    using d by (simp add: bolt_inv_def raw) (auto simp: rows_of_def fun_eq_iff)
next
  case False
  then have "rows_of n (bolt_raw B (bolt_db d)) t = Map.empty" by (simp add: rows_of_def bolt_raw_def)
  moreover have "boltDB_Delete B c t k d = Ret (None, d)"
    using False bolt_lawsD(1,2) [OF bolt_invD(1) [OF assms]] by (simp add: boltDB_Delete_def bolt_Update_def)
  ultimately show ?thesis using assms by (auto simp: fun_upd_idem)
qed

text \<open>(C4) The BoltDB layer is a table of rows. On every state whose bytes are encoded rows of the schema, an
  insert replaces the row, a delete removes it, an update of an existing row overwrites the fields it
  names and keeps the others, a read gives the fields asked for; an update and a read of a missing row give
  an error and change nothing. The encoding, the pooled buffers and the buckets cannot be seen.\<close>

theorem boltDB_refines_tables:
  assumes "bolt_inv n vmax B d" "bolt_key_ok t k" "row_fits n vmax v" "set fs \<subseteq> set (field_names n)"
    and "T = rows_of n (bolt_raw B (bolt_db d))"
  shows "(\<exists>d'. boltDB_Insert B c t k v d = Ret (None, d') \<and> bolt_inv n vmax B d' \<and>
      rows_of n (bolt_raw B (bolt_db d')) = put_row t k (map_of v) T) \<and>
    (\<exists>d'. boltDB_Delete B c t k d = Ret (None, d') \<and> bolt_inv n vmax B d' \<and>
      rows_of n (bolt_raw B (bolt_db d')) = T(t := (T t)(k := None))) \<and>
    (case T t k of
       None \<Rightarrow> (\<exists>e. boltDB_Update B c t k v d = Ret (Some e, d) \<and> boltDB_Read B c t k fs d = Ret (Inl e, d))
     | Some m \<Rightarrow> (\<exists>d'. boltDB_Update B c t k v d = Ret (None, d') \<and> bolt_inv n vmax B d' \<and>
           rows_of n (bolt_raw B (bolt_db d')) = put_row t k (m ++ map_of v) T) \<and>
         (\<exists>row. boltDB_Read B c t k fs d = Ret (Inr row, d) \<and> wf_map row \<and>
           map_of row = m |` set (if fs = [] then field_names n else fs)))"
proof (cases "T t k")
  case None
  then have "bolt_raw B (bolt_db d) t k = None" by (simp add: assms(5) rows_of_get)
  then have "\<exists>e. boltDB_Update B c t k v d = Ret (Some e, d) \<and> boltDB_Read B c t k fs d = Ret (Inl e, d)"
    by (auto simp: bolt_raw_def boltDB_Update_def boltDB_Read_def bolt_Update_def bolt_View_def
        bolt_lawsD(1) [OF bolt_invD(1) [OF assms(1)]] split: if_splits)
  then show ?thesis
    using boltDB_Insert_ok [OF assms(1-3), of c] boltDB_Delete_ok [OF assms(1), of c t k] None by (simp add: assms(5))
next
  case (Some m)
  obtain e d' where u: "boltDB_Update B c t k v d = Ret (e, d')" "bolt_inv n vmax B d'" "update_result t k v T e (rows_of n (bolt_raw B (bolt_db d')))"
    using boltDB_Update_ok [OF assms(1-3)] assms(5) by blast
  obtain res where r: "boltDB_Read B c t k fs d = Ret (res, d)" "read_result n (T t k) fs res"
    using boltDB_Read_ok [OF assms(1,4)] assms(5) by blast
  show ?thesis
    using boltDB_Insert_ok [OF assms(1-3), of c] boltDB_Delete_ok [OF assms(1), of c t k] u r Some
    by (auto simp: assms(5) update_result_def read_result_def)
qed

definition fresh_bolt :: "nat \<Rightarrow> (string, (string, bytes) fmap) fmap boltDB" where
  "fresh_bolt n = \<lparr>bolt_db = fmempty, bolt_r = field_codec n, bolt_bufPool = NewBufPool\<rparr>"

lemma bolt_inv_fresh: "sizes_ok n vmax 2147483646 \<Longrightarrow> bolt_inv n vmax map_bolt (fresh_bolt n)"
  using bolt_laws_map_bolt by (simp add: bolt_inv_def fresh_bolt_def map_bolt_raw encoded_def)

theorem boltDB_refines_tables_witness:
  "bolt_inv 3 100 map_bolt (fresh_bolt 3) \<and>
   (\<exists>d'. boltDB_Insert map_bolt () ''usertable'' ''user1'' [(''field0'', [7])] (fresh_bolt 3) = Ret (None, d') \<and>
      rows_of 3 (bolt_raw map_bolt (bolt_db d')) ''usertable'' ''user1'' = Some [''field0'' \<mapsto> [7]])"
proof -
  have inv: "bolt_inv 3 100 map_bolt (fresh_bolt 3)" by (rule bolt_inv_fresh) (simp add: sizes_ok_def)
  have "''field0'' \<in> set (field_names 3)" by code_simp
  then have "row_fits 3 100 [(''field0'', [7])]" by (simp add: row_fits_def codec_row_def del: in_field_names)
  moreover have "bolt_key_ok ''usertable'' ''user1''" by (simp add: bolt_key_ok_def)
  ultimately show ?thesis
    using boltDB_refines_tables [OF inv _ _ _ refl, of "''usertable''" "''user1''" "[(''field0'', [7])]" "[]" "()"] inv
    by (auto simp: put_row_def)
qed

text \<open>(C37) A scan returns the first rows from the start key on, in byte order of the keys and without a gap,
  and pads its result with nil rows up to the count that was asked for: behind the last row of the table
  the caller finds empty entries, not a shorter list.\<close>

theorem boltDB_Scan_spec:
  assumes "bolt_inv nf vmax B d" "set fs \<subseteq> set (field_names nf)" "0 \<le> n" "tx_Bucket B t (bolt_db d)"
    and "T = rows_of nf (bolt_raw B (bolt_db d))"
  shows "\<exists>ks rows. boltDB_Scan B c t k n fs d = Ret (Inr (rows @ replicate (nat n - length rows) []), d) \<and>
    length rows = length ks \<and> length ks \<le> nat n \<and> sorted_wrt (<) ks \<and>
    (\<forall>i < length ks. k \<le> ks ! i \<and> T t (ks ! i) \<noteq> None \<and> read_result nf (T t (ks ! i)) fs (Inr (rows ! i))) \<and>
    (\<forall>k'. k \<le> k' \<longrightarrow> T t k' \<noteq> None \<longrightarrow> k' \<in> set ks \<or> (length ks = nat n \<and> (\<forall>x \<in> set ks. x < k')))"
proof -
  note laws = bolt_invD(1) [OF assms(1)]
  define es where "es = cursor_Seek B t k (bolt_db d)"
  have mem: "(k', v) \<in> set es \<longleftrightarrow> k \<le> k' \<and> bolt_raw B (bolt_db d) t k' = Some v" for k' v
    using bolt_lawsD(8) [OF laws assms(4)] by (simp add: es_def)
  have sorted: "sorted_wrt (<) (map fst es)" using bolt_lawsD(7) [OF laws assms(4)] by (simp add: es_def)
  obtain rows where r: "boltDB_Scan B c t k n fs d = Ret (Inr (pad_rows n rows), d)"
    "list_all2 (\<lambda>(k, v) row. read_result nf (T t k) fs (Inr row)) (take (nat n) es) rows"
    using boltDB_Scan_rows [OF assms(1-4)] by (auto simp: es_def assms(5))
  define ks where "ks = map fst (take (nat n) es)"
  have len: "length rows = length ks" using list_all2_lengthD [OF r(2)] by (simp add: ks_def)
  have "k \<le> ks ! i \<and> T t (ks ! i) \<noteq> None \<and> read_result nf (T t (ks ! i)) fs (Inr (rows ! i))" if i: "i < length ks" for i
  proof -
    have "es ! i \<in> set es" using i by (simp add: ks_def)
    then have "k \<le> ks ! i" "bolt_raw B (bolt_db d) t (ks ! i) \<noteq> None" using mem [of "fst (es ! i)" "snd (es ! i)"] i by (auto simp: ks_def)
    moreover have "read_result nf (T t (ks ! i)) fs (Inr (rows ! i))"
      using list_all2_nthD [OF r(2), of i] i by (simp add: ks_def case_prod_unfold)
    ultimately show ?thesis by (simp add: assms(5) rows_of_get)
  qed
  moreover have "k' \<in> set ks \<or> (length ks = nat n \<and> (\<forall>x \<in> set ks. x < k'))" if k': "k \<le> k'" "T t k' \<noteq> None" for k'
  proof -
    obtain v where "(k', v) \<in> set es" using k' mem by (auto simp: assms(5) rows_of_get)
    then have k'': "k' \<in> set (map fst es)" by force
    have split: "map fst es = ks @ map fst (drop (nat n) es)" by (metis append_take_drop_id ks_def map_append)
    show ?thesis
    proof (cases "k' \<in> set ks")
      case False
      then have rest: "k' \<in> set (map fst (drop (nat n) es))" using k'' unfolding split set_append by blast
      then have "nat n < length es" by (cases "nat n < length es") auto
      moreover have "\<forall>x \<in> set ks. x < k'" using sorted rest unfolding split sorted_wrt_append by blast
      ultimately show ?thesis by (simp add: ks_def)
    qed simp
  qed
  moreover have "sorted_wrt (<) ks" "length ks \<le> nat n" using sorted_wrt_take [OF sorted, of "nat n"] by (simp_all add: ks_def take_map)
  ultimately show ?thesis using r(1) len unfolding pad_rows_def by (intro exI [of _ ks] exI [of _ rows] conjI) simp_all
qed

theorem boltDB_Scan_spec_witness:
  "\<exists>d res. bolt_inv 3 100 map_bolt d \<and> rows_of 3 (bolt_raw map_bolt (bolt_db d)) ''usertable'' ''user1'' \<noteq> None \<and>
     boltDB_Scan map_bolt () ''usertable'' ''user0'' 2 [] d = Ret (Inr res, d) \<and> length res = 2"
proof -
  have inv: "bolt_inv 3 100 map_bolt (fresh_bolt 3)" by (rule bolt_inv_fresh) (simp add: sizes_ok_def)
  have "row_fits 3 100 []" by (simp add: row_fits_def codec_row_def)
  then obtain d where d: "bolt_inv 3 100 map_bolt d" "rows_of 3 (bolt_raw map_bolt (bolt_db d)) ''usertable'' ''user1'' = Some Map.empty"
    using boltDB_Insert_ok [OF inv, of "''usertable''" "''user1''" "[]" "()"] by (auto simp: bolt_key_ok_def put_row_def)
  then have "tx_Bucket map_bolt ''usertable'' (bolt_db d)" by (auto simp: rows_of_get bolt_raw_def split: if_splits)
  then have "\<exists>res. boltDB_Scan map_bolt () ''usertable'' ''user0'' 2 [] d = Ret (Inr res, d) \<and> length res = 2"
    using boltDB_Scan_spec [OF d(1) _ _ _ refl, of "[]" 2 "''usertable''" "()" "''user0''"] by auto
  then show ?thesis using d by auto
qed

end
