(* ===== verification/FlatStore.thy ===== *)
theory FlatStore
  imports RowStore ClientFacts "HOL-Library.Finite_Map"
begin

text \<open>
  Layers over a store with one flat space of keys: the row of a table is kept, encoded, under
  \<^verbatim>\<open>table:key\<close>. The layers for TiKV, Badger and RocksDB share the row key, the reading of a flat
  store as tables, and the contract \<open>flat_layer\<close>, which says what each operation does to the bytes. Whoever keeps
  it keeps the contract of a database layer.
\<close>

section \<open>Row keys\<close>

definition getRowKey :: "string \<Rightarrow> string \<Rightarrow> string" where
  "getRowKey table key = table @ '':'' @ key"

lemma getRowKey_inject:
  assumes "CHR '':'' \<notin> set t" "CHR '':'' \<notin> set t'"
  shows "getRowKey t k = getRowKey t' k' \<longleftrightarrow> t = t' \<and> k = k'"
  using assms
proof (induction t arbitrary: t')
  case Nil
  then show ?case by (cases t') (auto simp: getRowKey_def)
next
  case (Cons c t)
  then show ?case by (cases t') (auto simp: getRowKey_def)
qed

lemma getRowKey_nonempty [simp]: "getRowKey t k \<noteq> []"
  by (simp add: getRowKey_def)

section \<open>A flat store as tables\<close>

type_synonym flat = "string \<rightharpoonup> bytes"

text \<open>Tables whose name has a colon are left out: their rows can be rows of another table.\<close>

definition flat_tables :: "flat \<Rightarrow> raw_tables" where
  "flat_tables F = (\<lambda>t k. if CHR '':'' \<in> set t then None else F (getRowKey t k))"

definition flat_encoded :: "nat \<Rightarrow> int \<Rightarrow> flat \<Rightarrow> bool" where
  "flat_encoded n vmax F \<longleftrightarrow> (\<forall>key b. F key = Some b \<longrightarrow> (\<exists>v. row_fits n vmax v \<and> Encode (field_codec n) [] v = Inr b))"

lemma flat_tables_get: "CHR '':'' \<notin> set t \<Longrightarrow> flat_tables F t k = F (getRowKey t k)"
  by (simp add: flat_tables_def)

lemma flat_tables_put:
  "CHR '':'' \<notin> set t \<Longrightarrow> flat_tables (F(getRowKey t k \<mapsto> b)) = (flat_tables F)(t := (flat_tables F t)(k \<mapsto> b))"
  by (auto simp: flat_tables_def fun_eq_iff getRowKey_inject)

lemma flat_tables_delete:
  "CHR '':'' \<notin> set t \<Longrightarrow> flat_tables (F(getRowKey t k := None)) = (flat_tables F)(t := (flat_tables F t)(k := None))"
  by (auto simp: flat_tables_def fun_eq_iff getRowKey_inject)

lemma flat_encoded_tables: "flat_encoded n vmax F \<Longrightarrow> encoded n vmax (flat_tables F)"
  by (auto simp: flat_encoded_def encoded_def flat_tables_def)

lemma flat_encoded_put:
  "flat_encoded n vmax F \<Longrightarrow> row_fits n vmax v \<Longrightarrow> Encode (field_codec n) [] v = Inr b \<Longrightarrow> flat_encoded n vmax (F(key \<mapsto> b))"
  by (auto simp: flat_encoded_def)

lemma flat_encoded_delete: "flat_encoded n vmax F \<Longrightarrow> flat_encoded n vmax (F(key := None))"
  by (auto simp: flat_encoded_def)

lemma flat_encoded_Decode:
  assumes "sizes_ok n vmax room" "flat_encoded n vmax F" "F key = Some b" "set fs \<subseteq> set (field_names n)"
  shows "\<exists>row. Decode (field_codec n) b fs = Ret (Inr row)"
proof -
  have "encoded n vmax (\<lambda>t. F)" using assms(2) by (simp add: flat_encoded_def encoded_def)
  from Decode_encoded [OF assms(1) this assms(3,4)] show ?thesis by blast
qed

lemma Encode_nonempty: "Encode (field_codec n) buf v = Inr b \<Longrightarrow> b \<noteq> []"
  unfolding Encode_columns EncodeRow_columns by (cases "columns n v") (auto simp: encode_col_def)

lemma Decode_empty: "Decode r [] fs = Ret (Inr [])"
  by (simp add: Decode_def DecodeRow_def fold_invariant [where Q = "\<lambda>_. True" and P = "\<lambda>r. r = []"])

text \<open>The deferred buffers cannot be seen in an encoding.\<close>

lemma BufPool_Get_obtain:
  obtains pl' where "BufPool_Get pl = ([], pl')"
  by (metis BufPool_Get_empty prod.collapse)

text \<open>The loop of a scan over entries of the store.\<close>

lemma scan_rows_flat:
  assumes "\<forall>k v. (k, v) \<in> set es \<longrightarrow> F k = Some v" "\<forall>k v. F k = Some v \<longrightarrow> (\<exists>row. Decode r v fs = Ret (Inr row))"
  shows "\<exists>rows. scan_rows r fs n es = Ret (Inr rows) \<and> length rows \<le> n"
proof -
  have "\<exists>rows. scan_rows r fs n es = Ret (Inr rows) \<and> list_all2 (\<lambda>(k, v) row. Decode r v fs = Ret (Inr row)) (take n es) rows"
    by (rule scan_rows_total) (use assms in blast)
  then show ?thesis using list_all2_lengthD by fastforce
qed

text \<open>The keys of a range in byte order; an empty end means no end.\<close>

definition range_keys :: "flat \<Rightarrow> string \<Rightarrow> string \<Rightarrow> string list" where
  "range_keys F a b = sorted_list_of_set {k \<in> dom F. a \<le> k \<and> (b = [] \<or> k < b)}"

lemma set_range_keys: "finite (dom F) \<Longrightarrow> set (range_keys F a b) = {k \<in> dom F. a \<le> k \<and> (b = [] \<or> k < b)}"
  by (simp add: range_keys_def)

lemma range_keys_sorted: "sorted_wrt (<) (range_keys F a b)"
  by (simp add: range_keys_def strict_sorted_iff)

text \<open>What an iterator gives that starts at a key.\<close>

definition entries_from :: "flat \<Rightarrow> string \<Rightarrow> (string \<times> bytes) list" where
  "entries_from F a = map (\<lambda>k. (k, the (F k))) (range_keys F a [])"

lemma entries_from_sorted: "sorted_wrt (<) (map fst (entries_from F a))"
  using range_keys_sorted [of F a "[]"] by (simp add: entries_from_def comp_def)

lemma in_entries_from: "finite (dom F) \<Longrightarrow> (k, v) \<in> set (entries_from F a) \<longleftrightarrow> a \<le> k \<and> F k = Some v"
  by (auto simp: entries_from_def set_range_keys)

definition flat_key_ok :: "string \<Rightarrow> string \<Rightarrow> bool" where
  "flat_key_ok t k \<longleftrightarrow> CHR '':'' \<notin> set t"

section \<open>The contract of a layer over a flat store\<close>

text \<open>\<open>flat\<close> gives the bytes of a state, \<open>room\<close> bounds an encoded row.\<close>

locale flat_layer =
  fixes nf :: nat
    and vmax :: int
    and room :: int
    and key_ok :: "string \<Rightarrow> string \<Rightarrow> bool"
    and db :: "('c, 'd) DB"
    and lay_inv :: "'d \<Rightarrow> bool"
    and flat :: "'d \<Rightarrow> flat"
  assumes no_colon: "key_ok t k \<Longrightarrow> CHR '':'' \<notin> set t"
    and sizes: "lay_inv d \<Longrightarrow> sizes_ok nf vmax room"
    and flat_enc: "lay_inv d \<Longrightarrow> flat_encoded nf vmax (flat d)"
    and insert_flat: "lay_inv d \<Longrightarrow> key_ok t k \<Longrightarrow> row_fits nf vmax v \<Longrightarrow> Encode (field_codec nf) [] v = Inr b \<Longrightarrow> int (length b) \<le> room \<Longrightarrow>
      \<exists>d'. db_Insert db c t k v d = Ret (None, d') \<and> lay_inv d' \<and> flat d' = (flat d)(getRowKey t k \<mapsto> b)"
    and read_flat: "lay_inv d \<Longrightarrow> key_ok t k \<Longrightarrow> flat d (getRowKey t k) = Some b \<Longrightarrow> Decode (field_codec nf) b fs = Ret (Inr row) \<Longrightarrow>
      \<exists>d'. db_Read db c t k fs d = Ret (Inr row, d') \<and> lay_inv d' \<and> flat d' = flat d"
    and read_none: "lay_inv d \<Longrightarrow> key_ok t k \<Longrightarrow> flat d (getRowKey t k) = None \<Longrightarrow>
      \<exists>res d'. db_Read db c t k fs d = Ret (res, d') \<and> ((\<exists>e. res = Inl e) \<or> res = Inr []) \<and> lay_inv d' \<and> flat d' = flat d"
    and update_flat: "lay_inv d \<Longrightarrow> key_ok t k \<Longrightarrow> row_fits nf vmax v \<Longrightarrow> flat d (getRowKey t k) = Some b \<Longrightarrow>
      Decode (field_codec nf) b [] = Ret (Inr data) \<Longrightarrow> row_fits nf vmax (map_assign data v) \<Longrightarrow>
      Encode (field_codec nf) [] (map_assign data v) = Inr b' \<Longrightarrow> int (length b') \<le> room \<Longrightarrow>
      \<exists>d'. db_Update db c t k v d = Ret (None, d') \<and> lay_inv d' \<and> flat d' = (flat d)(getRowKey t k \<mapsto> b')"
    and update_none: "lay_inv d \<Longrightarrow> key_ok t k \<Longrightarrow> row_fits nf vmax v \<Longrightarrow> row_fits nf vmax (map_assign [] v) \<Longrightarrow> flat d (getRowKey t k) = None \<Longrightarrow>
      Encode (field_codec nf) [] (map_assign [] v) = Inr b \<Longrightarrow> int (length b) \<le> room \<Longrightarrow>
      \<exists>e d'. db_Update db c t k v d = Ret (e, d') \<and> lay_inv d' \<and> (flat d' = flat d \<or> flat d' = (flat d)(getRowKey t k \<mapsto> b))"
    and init_flat: "lay_inv d \<Longrightarrow> \<exists>c d'. db_InitThread db i m d = Ret (c, d') \<and> lay_inv d' \<and> flat d' = flat d"
    and scan_flat: "lay_inv d \<Longrightarrow> (\<And>key b. flat d key = Some b \<Longrightarrow> \<exists>row. Decode (field_codec nf) b fs = Ret (Inr row)) \<Longrightarrow>
      osafe (db_Scan db c t k n fs d) (\<lambda>(res, d'). lay_inv d' \<and> flat d' = flat d) \<and> (0 \<le> n \<longrightarrow> is_ret (db_Scan db c t k n fs d))"

lemma row_fits_Nil [simp]: "row_fits n vmax []"
  by (simp add: row_fits_def codec_row_def)

lemma update_fits:
  assumes "sizes_ok n vmax room" "encoded n vmax raw" "raw t k = Some b" "row_fits n vmax v" "Decode (field_codec n) b [] = Ret (Inr data)"
  shows "row_fits n vmax (map_assign data v)"
proof -
  have n: "n \<le> nat max64" using assms(1) by (simp add: sizes_ok_def)
  obtain w where w: "row_fits n vmax w" "Encode (field_codec n) [] w = Inr b" by (rule encodedD [OF assms(2,3)])
  have "codec_row n w \<and> n \<le> nat max64" using w(1) n by (simp add: row_fits_def)
  then have "wf_map data" "map_of data = map_of w" using fc.dec_all [OF _ w(2)] assms(5) by fastforce+
  then show ?thesis using row_fits_assign [OF row_fits_map_of [OF w(1)] assms(4)] by blast
qed

lemma encoded_update:
  assumes "sizes_ok n vmax room" "row_fits n vmax w" "Encode (field_codec n) [] w = Inr b" "row_fits n vmax v"
  shows "\<exists>data b'. Decode (field_codec n) b [] = Ret (Inr data) \<and> row_fits n vmax (map_assign data v) \<and>
    Encode (field_codec n) [] (map_assign data v) = Inr b' \<and> int (length b') \<le> room"
proof -
  have e: "encoded n vmax (\<lambda>_ _. Some b)" using assms(2,3) by (auto simp: encoded_def)
  show ?thesis using update_encoded [OF assms(1) e refl assms(4)] update_fits [OF assms(1) e refl assms(4)] by blast
qed

sublocale flat_layer \<subseteq> kv_database nf vmax key_ok db lay_inv "\<lambda>d. rows_of nf (flat_tables (flat d))"
proof (unfold_locales, goal_cases)
  case (1 d t k v c)
  note e = flat_encoded_tables [OF flat_enc [OF 1(1)]] and t = no_colon [OF 1(2)]
  obtain b where b: "Encode (field_codec nf) [] v = Inr b" "int (length b) \<le> room"
    "rows_of nf ((flat_tables (flat d))(t := (flat_tables (flat d) t)(k \<mapsto> b))) = put_row t k (map_of v) (rows_of nf (flat_tables (flat d)))"
    using insert_encoded [OF sizes [OF 1(1)] e 1(3)] by blast
  then show ?case using insert_flat [OF 1 b(1,2), of c] by (auto simp: flat_tables_put [OF t])
next
  case (2 d t k fs c)
  note e = flat_encoded_tables [OF flat_enc [OF 2(1)]] and t = no_colon [OF 2(2)]
  show ?case
  proof (cases "flat d (getRowKey t k)")
    case None
    then show ?thesis using read_none [OF 2(1,2) None, of c fs] by (auto simp: read_result_def rows_of_get flat_tables_get [OF t])
  next
    case (Some b)
    then have "flat_tables (flat d) t k = Some b" by (simp add: flat_tables_get [OF t])
    from read_encoded [OF sizes [OF 2(1)] e this 2(3)] read_flat [OF 2(1,2) Some, of fs _ c] show ?thesis by metis
  qed
next
  case (3 d t k v c)
  note e = flat_encoded_tables [OF flat_enc [OF 3(1)]] and t = no_colon [OF 3(2)] and s = sizes [OF 3(1)]
  show ?case
  proof (cases "flat d (getRowKey t k)")
    case None
    have fits: "row_fits nf vmax (map_assign [] v)" by (rule row_fits_assign [OF row_fits_Nil 3(3)])
    have "map_of (map_assign [] v) = map_of v"
      using map_of_map_assign [of v "[]"] 3(3) by (simp add: row_fits_def codec_row_def)
    moreover obtain b where b: "Encode (field_codec nf) [] (map_assign [] v) = Inr b" "int (length b) \<le> room"
      "rows_of nf ((flat_tables (flat d))(t := (flat_tables (flat d) t)(k \<mapsto> b))) =
        put_row t k (map_of (map_assign [] v)) (rows_of nf (flat_tables (flat d)))"
      using insert_encoded [OF s e fits] by blast
    ultimately show ?thesis
      using update_none [OF 3(1,2,3) fits None b(1,2), of c] None
      by (auto simp: update_result_def rows_of_get flat_tables_get [OF t] flat_tables_put [OF t])
  next
    case (Some b)
    then have b: "flat_tables (flat d) t k = Some b" by (simp add: flat_tables_get [OF t])
    obtain data b' where b': "Decode (field_codec nf) b [] = Ret (Inr data)" "Encode (field_codec nf) [] (map_assign data v) = Inr b'"
      "int (length b') \<le> room" "rows_of nf ((flat_tables (flat d))(t := (flat_tables (flat d) t)(k \<mapsto> b'))) =
        put_row t k (decoded nf b ++ map_of v) (rows_of nf (flat_tables (flat d)))"
      using update_encoded [OF s e b 3(3)] by blast
    show ?thesis
      using update_flat [OF 3(1,2,3) Some b'(1) update_fits [OF s e b 3(3) b'(1)] b'(2,3), of c] b'(4)
      by (auto simp: update_result_def rows_of_get b flat_tables_put [OF t])
  qed
next
  case (4 d i m)
  then show ?case using init_flat [OF 4] by fastforce
next
  case (5 d fs c t k n)
  then show ?case
    using scan_flat [OF 5(1), of fs c t k n] flat_encoded_Decode [OF sizes flat_enc _ 5(2), OF 5(1) 5(1)]
    by (auto elim!: osafe_mono)
qed

end
