(* ===== verification/TiKVRaw.thy ===== *)
theory TiKVRaw
  imports FlatStore
begin

text \<open>
  The TiKV layer in raw mode (\<^verbatim>\<open>db/tikv/raw.go\<close>) and the choice of the mode (\<^verbatim>\<open>db/tikv/db.go\<close>). The client
  library is third-party code: its calls are the record \<open>rawkv\<close> on the state \<open>'s\<close> of the cluster, and what the
  layer relies on is \<open>rawkv_laws\<close>.

  \<^item> The context of a worker holds a pointer to a \<open>rawDBState\<close>; the states of all workers are in the state of the
    layer, and the context is the position of the worker's one.
  \<^item> A byte slice that may be nil is an option.
  \<^item> The loop of \<^verbatim>\<open>Count\<close> is a partial function; a loop that does not end is \<open>Diverge\<close>.
\<close>

section \<open>State\<close>

record rawDBState =
  state_key :: string
  state_row :: "bytes option"

record 's rawkv =
  rawkv_Close :: "'s \<Rightarrow> goerror option \<times> 's"
  rawkv_Get :: "string \<Rightarrow> 's \<Rightarrow> goerror + bytes option"
  rawkv_BatchGet :: "string list \<Rightarrow> 's \<Rightarrow> goerror + bytes list"
  rawkv_Put :: "string \<Rightarrow> bytes \<Rightarrow> 's \<Rightarrow> goerror option \<times> 's"
  rawkv_BatchPut :: "string list \<Rightarrow> bytes list \<Rightarrow> 's \<Rightarrow> goerror option \<times> 's"
  rawkv_CompareAndSwap :: "string \<Rightarrow> bytes \<Rightarrow> bytes \<Rightarrow> 's \<Rightarrow> (goerror + bool) \<times> 's"
  rawkv_Scan :: "string \<Rightarrow> string \<Rightarrow> int \<Rightarrow> 's \<Rightarrow> goerror + (string list \<times> bytes option list)"
  rawkv_Delete :: "string \<Rightarrow> 's \<Rightarrow> goerror option \<times> 's"
  rawkv_BatchDelete :: "string list \<Rightarrow> 's \<Rightarrow> goerror option \<times> 's"
  rawkv_DeleteRange :: "string \<Rightarrow> string \<Rightarrow> 's \<Rightarrow> goerror option \<times> 's"

text \<open>What \<^verbatim>\<open>createRawDB\<close> needs of the library: the numbers of the API versions and the client's constructor.\<close>

record 's rawkv_new =
  APIVersion_value :: "string \<Rightarrow> int option"
  rawkv_NewClientWithOpts :: "string list \<Rightarrow> int \<Rightarrow> goerror + 's"
  rawkv_SetAtomicForCAS :: "bool \<Rightarrow> 's \<Rightarrow> 's"

record 's rawDB =
  raw_db :: 's
  raw_r :: RowCodec
  raw_bufPool :: pool
  raw_casMode :: bool
  raw_states :: "rawDBState list"

section \<open>Operations\<close>

definition createRawDB :: "'s rawkv_new \<Rightarrow> properties \<Rightarrow> (goerror + 's rawDB) outcome" where
  "createRawDB N p =
     (let pdAddr = GetString p ''tikv.pd'' ''127.0.0.1:2379'';
          apiVersionStr = ToUpper (GetString p ''tikv.apiversion'' ''V1'')
      in case APIVersion_value N apiVersionStr of
           None \<Rightarrow> Ret (Inl (''Invalid tikv apiversion '' @ apiVersionStr @ ''.''))
         | Some apiVersion \<Rightarrow> (case rawkv_NewClientWithOpts N (strings_Split (CHR '','') pdAddr) apiVersion of
             Inl err \<Rightarrow> Ret (Inl err)
           | Inr db \<Rightarrow>
               let casMode = (ToLower (GetString p ''tikv.updatemode'' ''getput'') = ''cas'');
                   db = (if casMode then rawkv_SetAtomicForCAS N True db else db)
               in obind (NewRowCodec p) (\<lambda>r.
                    Ret (Inr \<lparr>raw_db = db, raw_r = r, raw_bufPool = NewBufPool, raw_casMode = casMode, raw_states = []\<rparr>))))"

definition raw_Close :: "'s rawkv \<Rightarrow> ('s rawDB, goerror option) dbop" where
  "raw_Close K d = (let (e, s) = rawkv_Close K (raw_db d) in Ret (e, d\<lparr>raw_db := s\<rparr>))"

definition raw_InitThread :: "int \<Rightarrow> int \<Rightarrow> ('s rawDB, nat) dbop" where
  "raw_InitThread i n d =
     Ret (length (raw_states d), d\<lparr>raw_states := raw_states d @ [\<lparr>state_key = [], state_row = None\<rparr>]\<rparr>)"

definition raw_CleanupThread :: "nat \<Rightarrow> 's rawDB \<Rightarrow> 's rawDB outcome" where
  "raw_CleanupThread c d = Ret d"

definition raw_Read :: "'s rawkv \<Rightarrow> nat \<Rightarrow> string \<Rightarrow> string \<Rightarrow> string list \<Rightarrow> ('s rawDB, goerror + row) dbop" where
  "raw_Read K c table key flds d =
     (let rowKey = getRowKey table key
      in case rawkv_Get K rowKey (raw_db d) of
           Inl err \<Rightarrow> Ret (Inl err, d)
         | Inr None \<Rightarrow> Ret (Inr [], d)
         | Inr (Some row) \<Rightarrow>
             let d = (if raw_casMode d \<and> c < length (raw_states d)
                      then d\<lparr>raw_states := (raw_states d)[c := \<lparr>state_key = rowKey, state_row = Some row\<rparr>]\<rparr> else d)
             in obind (Decode (raw_r d) row flds) (\<lambda>res. Ret (res, d)))"

text \<open>The loop over the values of a batch read: a value that cannot be decoded gives a nil row, and more values
  than keys an index out of range.\<close>

fun batch_rows :: "RowCodec \<Rightarrow> string list \<Rightarrow> nat \<Rightarrow> bytes list \<Rightarrow> row list outcome" where
  "batch_rows r flds n [] = Ret (replicate n [])"
| "batch_rows r flds 0 (v # vs) = Panic ''index out of range''"
| "batch_rows r flds (Suc n) (v # vs) =
     obind (if length v > 0 then obind (Decode r v flds) (\<lambda>res. case res of Inl err \<Rightarrow> Ret [] | Inr m \<Rightarrow> Ret m) else Ret []) (\<lambda>m.
       obind (batch_rows r flds n vs) (\<lambda>ms. Ret (m # ms)))"

definition raw_BatchRead :: "'s rawkv \<Rightarrow> nat \<Rightarrow> string \<Rightarrow> string list \<Rightarrow> string list \<Rightarrow> ('s rawDB, goerror + row list) dbop" where
  "raw_BatchRead K c table keys flds d =
     (let rowKeys = map (getRowKey table) keys
      in case rawkv_BatchGet K rowKeys (raw_db d) of
           Inl err \<Rightarrow> Ret (Inl err, d)
         | Inr values \<Rightarrow> obind (batch_rows (raw_r d) flds (length keys) values) (\<lambda>rows. Ret (Inr rows, d)))"

fun decode_rows :: "RowCodec \<Rightarrow> string list \<Rightarrow> bytes option list \<Rightarrow> (goerror + row list) outcome" where
  "decode_rows r flds [] = Ret (Inr [])"
| "decode_rows r flds (b # bs) = obind (case b of None \<Rightarrow> Ret (Inr []) | Some row \<Rightarrow> Decode r row flds) (\<lambda>res. case res of
       Inl err \<Rightarrow> Ret (Inl err)
     | Inr m \<Rightarrow> obind (decode_rows r flds bs) (\<lambda>res. case res of Inl err \<Rightarrow> Ret (Inl err) | Inr ms \<Rightarrow> Ret (Inr (m # ms))))"

definition raw_Scan :: "'s rawkv \<Rightarrow> nat \<Rightarrow> string \<Rightarrow> string \<Rightarrow> int \<Rightarrow> string list \<Rightarrow> ('s rawDB, goerror + row list) dbop" where
  "raw_Scan K c table startKey n flds d = (case rawkv_Scan K (getRowKey table startKey) [] n (raw_db d) of
       Inl err \<Rightarrow> Ret (Inl err, d)
     | Inr (keys, rows) \<Rightarrow> obind (decode_rows (raw_r d) flds rows) (\<lambda>res. Ret (res, d)))"

definition raw_Insert :: "'s rawkv \<Rightarrow> nat \<Rightarrow> string \<Rightarrow> string \<Rightarrow> row \<Rightarrow> ('s rawDB, goerror option) dbop" where
  "raw_Insert K c table key vals d =
     (let (buf, pl) = BufPool_Get (raw_bufPool d)
      in case Encode (raw_r d) buf vals of
           Inl err \<Rightarrow> Ret (Some err, d\<lparr>raw_bufPool := BufPool_Put [] pl\<rparr>)
         | Inr buf \<Rightarrow> let (e, s) = rawkv_Put K (getRowKey table key) buf (raw_db d)
                      in Ret (e, d\<lparr>raw_db := s, raw_bufPool := BufPool_Put buf pl\<rparr>))"

text \<open>\<^verbatim>\<open>Update\<close> by a read and a write.\<close>

definition raw_getput :: "'s rawkv \<Rightarrow> nat \<Rightarrow> string \<Rightarrow> string \<Rightarrow> row \<Rightarrow> ('s rawDB, goerror option) dbop" where
  "raw_getput K c table key vals d = (case rawkv_Get K (getRowKey table key) (raw_db d) of
       Inl err \<Rightarrow> Ret (Some err, d)
     | Inr row \<Rightarrow> obind (Decode (raw_r d) (case row of None \<Rightarrow> [] | Some b \<Rightarrow> b) []) (\<lambda>res. case res of
           Inl err \<Rightarrow> Ret (Some err, d)
         | Inr data \<Rightarrow> raw_Insert K c table key (map_assign data vals) d))"

text \<open>\<^verbatim>\<open>Update\<close> by a swap against the row that the worker read last; \<open>prevRow\<close> is that row. The buffer of the swap
  goes back to the pool when the function returns, after a fallback has run.\<close>

definition raw_cas :: "'s rawkv \<Rightarrow> nat \<Rightarrow> string \<Rightarrow> string \<Rightarrow> row \<Rightarrow> bytes \<Rightarrow> ('s rawDB, goerror option) dbop" where
  "raw_cas K c table key vals prevRow d =
     (let d = d\<lparr>raw_states := (raw_states d)[c := \<lparr>state_key = [], state_row = None\<rparr>]\<rparr>
      in obind (Decode (raw_r d) prevRow []) (\<lambda>res. case res of
           Inl err \<Rightarrow> Ret (Some err, d)
         | Inr data \<Rightarrow>
             let (buf, pl) = BufPool_Get (raw_bufPool d)
             in case Encode (raw_r d) buf (map_assign data vals) of
                  Inl err \<Rightarrow> Ret (Some err, d\<lparr>raw_bufPool := BufPool_Put [] pl\<rparr>)
                | Inr buf \<Rightarrow> (case rawkv_CompareAndSwap K (getRowKey table key) prevRow buf (raw_db d) of
                    (Inl err, s) \<Rightarrow> Ret (Some err, d\<lparr>raw_db := s, raw_bufPool := BufPool_Put buf pl\<rparr>)
                  | (Inr True, s) \<Rightarrow> Ret (None, d\<lparr>raw_db := s, raw_bufPool := BufPool_Put buf pl\<rparr>)
                  | (Inr False, s) \<Rightarrow> obind (raw_getput K c table key vals (d\<lparr>raw_db := s, raw_bufPool := pl\<rparr>)) (\<lambda>(e, d).
                      Ret (e, d\<lparr>raw_bufPool := BufPool_Put buf (raw_bufPool d)\<rparr>)))))"

definition raw_Update :: "'s rawkv \<Rightarrow> nat \<Rightarrow> string \<Rightarrow> string \<Rightarrow> row \<Rightarrow> ('s rawDB, goerror option) dbop" where
  "raw_Update K c table key vals d =
     (if raw_casMode d \<and> c < length (raw_states d) \<and> state_row (raw_states d ! c) \<noteq> None \<and>
         state_key (raw_states d ! c) = getRowKey table key
      then raw_cas K c table key vals (the (state_row (raw_states d ! c))) d
      else raw_getput K c table key vals d)"

text \<open>The loop of the batch writes: the keys and the encoded rows so far, and the index of the next row.\<close>

fun batch_encode :: "RowCodec \<Rightarrow> string \<Rightarrow> string list \<Rightarrow> row list \<Rightarrow> (goerror + (string list \<times> bytes list)) outcome" where
  "batch_encode r table [] vals = Ret (Inr ([], []))"
| "batch_encode r table (key # keys) [] = Panic ''index out of range''"
| "batch_encode r table (key # keys) (v # vals) = (case Encode r [] v of
       Inl err \<Rightarrow> Ret (Inl err)
     | Inr b \<Rightarrow> obind (batch_encode r table keys vals) (\<lambda>res. case res of
           Inl err \<Rightarrow> Ret (Inl err)
         | Inr (ks, bs) \<Rightarrow> Ret (Inr (getRowKey table key # ks, b # bs))))"

definition raw_BatchPut :: "'s rawkv \<Rightarrow> string \<Rightarrow> string list \<Rightarrow> row list \<Rightarrow> ('s rawDB, goerror option) dbop" where
  "raw_BatchPut K table keys vals d = obind (batch_encode (raw_r d) table keys vals) (\<lambda>res. case res of
       Inl err \<Rightarrow> Ret (Some err, d)
     | Inr (rawKeys, rawValues) \<Rightarrow> let (e, s) = rawkv_BatchPut K rawKeys rawValues (raw_db d) in Ret (e, d\<lparr>raw_db := s\<rparr>))"

definition raw_BatchUpdate :: "'s rawkv \<Rightarrow> nat \<Rightarrow> string \<Rightarrow> string list \<Rightarrow> row list \<Rightarrow> ('s rawDB, goerror option) dbop" where
  "raw_BatchUpdate K c table keys vals d = raw_BatchPut K table keys vals d"

definition raw_BatchInsert :: "'s rawkv \<Rightarrow> nat \<Rightarrow> string \<Rightarrow> string list \<Rightarrow> row list \<Rightarrow> ('s rawDB, goerror option) dbop" where
  "raw_BatchInsert K c table keys vals d = raw_BatchPut K table keys vals d"

definition raw_Delete :: "'s rawkv \<Rightarrow> nat \<Rightarrow> string \<Rightarrow> string \<Rightarrow> ('s rawDB, goerror option) dbop" where
  "raw_Delete K c table key d = (let (e, s) = rawkv_Delete K (getRowKey table key) (raw_db d) in Ret (e, d\<lparr>raw_db := s\<rparr>))"

definition raw_BatchDelete :: "'s rawkv \<Rightarrow> nat \<Rightarrow> string \<Rightarrow> string list \<Rightarrow> ('s rawDB, goerror option) dbop" where
  "raw_BatchDelete K c table keys d =
     (let (e, s) = rawkv_BatchDelete K (map (getRowKey table) keys) (raw_db d) in Ret (e, d\<lparr>raw_db := s\<rparr>))"

text \<open>The bounds of the keys of a table.\<close>

definition table_end :: "string \<Rightarrow> string" where
  "table_end startKey = startKey @ replicate 4 (CHR 0xFF)"

partial_function (option) raw_count_loop :: "'s rawkv \<Rightarrow> 's \<Rightarrow> string \<Rightarrow> string \<Rightarrow> int \<Rightarrow> (goerror + int) option" where
  "raw_count_loop K s startKey endKey n = (case rawkv_Scan K startKey endKey 10000 s of
       Inl err \<Rightarrow> Some (Inl err)
     | Inr r \<Rightarrow> (if length (fst r) = 0 then Some (Inr n)
         else let n = wrap64 (n + int (length (fst r)))
              in if length (fst r) < 10000 then Some (Inr n)
                 else raw_count_loop K s (List.last (fst r) @ [CHR 0x00]) endKey n))"

definition raw_Count :: "'s rawkv \<Rightarrow> nat \<Rightarrow> string \<Rightarrow> ('s rawDB, goerror + int) dbop" where
  "raw_Count K c table d =
     (let startKey = getRowKey table [] in case raw_count_loop K (raw_db d) startKey (table_end startKey) 0 of
        None \<Rightarrow> Diverge
      | Some res \<Rightarrow> Ret (res, d))"

definition raw_Clean :: "'s rawkv \<Rightarrow> nat \<Rightarrow> string \<Rightarrow> ('s rawDB, goerror option) dbop" where
  "raw_Clean K c table d =
     (let startKey = getRowKey table []; (e, s) = rawkv_DeleteRange K startKey (table_end startKey) (raw_db d)
      in Ret (e, d\<lparr>raw_db := s\<rparr>))"

definition raw_DB :: "'s rawkv \<Rightarrow> (nat, 's rawDB) DB" where
  "raw_DB K = \<lparr>db_Close = raw_Close K, db_InitThread = raw_InitThread, db_CleanupThread = raw_CleanupThread,
     db_Read = raw_Read K, db_Scan = raw_Scan K, db_Update = raw_Update K, db_Insert = raw_Insert K, db_Delete = raw_Delete K,
     db_Batch = Some \<lparr>BatchInsert = raw_BatchInsert K, BatchRead = raw_BatchRead K, BatchUpdate = raw_BatchUpdate K,
       BatchDelete = raw_BatchDelete K\<rparr>,
     db_Analyze = None, db_Count = Some (raw_Count K), db_Clean = Some (raw_Clean K)\<rparr>"


section \<open>The client library\<close>

text \<open>
  The documented behaviour of the raw client: reads see the last writes; keys and values are not empty and values
  have at most \<open>room\<close> bytes; a swap succeeds exactly if the value is the previous one; a scan of at most 10240
  keys gives the first keys of the range with their values.
\<close>

definition rawkv_laws :: "int \<Rightarrow> 's rawkv \<Rightarrow> ('s \<Rightarrow> flat) \<Rightarrow> bool" where
  "rawkv_laws room K F \<longleftrightarrow>
     (\<forall>s. finite (dom (F s))) \<and>
     (\<forall>k s. k \<noteq> [] \<longrightarrow> rawkv_Get K k s = Inr (F s k)) \<and>
     (\<forall>k v s. k \<noteq> [] \<longrightarrow> v \<noteq> [] \<longrightarrow> int (length v) \<le> room \<longrightarrow> (\<exists>s'. rawkv_Put K k v s = (None, s') \<and> F s' = (F s)(k \<mapsto> v))) \<and>
     (\<forall>k p v s. k \<noteq> [] \<longrightarrow> v \<noteq> [] \<longrightarrow> int (length v) \<le> room \<longrightarrow>
        (\<exists>s'. rawkv_CompareAndSwap K k p v s = (Inr (F s k = Some p), s') \<and> F s' = (if F s k = Some p then (F s)(k \<mapsto> v) else F s))) \<and>
     (\<forall>a b n s ks vs. rawkv_Scan K a b n s = Inr (ks, vs) \<longrightarrow> set ks \<subseteq> dom (F s) \<and> vs = map (F s) ks) \<and>
     (\<forall>a b n s. 0 \<le> n \<longrightarrow> n \<le> 10240 \<longrightarrow>
        rawkv_Scan K a b n s = Inr (take (nat n) (range_keys (F s) a b), map (F s) (take (nat n) (range_keys (F s) a b)))) \<and>
     (\<forall>ks s. rawkv_BatchGet K ks s = Inr (map (\<lambda>k. case F s k of None \<Rightarrow> [] | Some v \<Rightarrow> v) ks)) \<and>
     (\<forall>ks vs s. length ks = length vs \<longrightarrow> [] \<notin> set ks \<longrightarrow> (\<forall>v \<in> set vs. v \<noteq> [] \<and> int (length v) \<le> room) \<longrightarrow>
        (\<exists>s'. rawkv_BatchPut K ks vs s = (None, s') \<and> F s' = F s ++ map_of (rev (zip ks vs)))) \<and>
     (\<forall>k s. k \<noteq> [] \<longrightarrow> (\<exists>s'. rawkv_Delete K k s = (None, s') \<and> F s' = (F s)(k := None))) \<and>
     (\<forall>ks s. [] \<notin> set ks \<longrightarrow> (\<exists>s'. rawkv_BatchDelete K ks s = (None, s') \<and> F s' = F s |` (- set ks))) \<and>
     (\<forall>a b s. a \<noteq> [] \<longrightarrow> b \<noteq> [] \<longrightarrow> (\<exists>s'. rawkv_DeleteRange K a b s = (None, s') \<and> F s' = F s |` {k. \<not> (a \<le> k \<and> k < b)}))"

lemmas rawkv_lawsD =
  rawkv_laws_def [THEN iffD1, THEN conjunct1, rule_format]
  rawkv_laws_def [THEN iffD1, THEN conjunct2, THEN conjunct1, rule_format]
  rawkv_laws_def [THEN iffD1, THEN conjunct2, THEN conjunct2, THEN conjunct1, rule_format]
  rawkv_laws_def [THEN iffD1, THEN conjunct2, THEN conjunct2, THEN conjunct2, THEN conjunct1, rule_format]
  rawkv_laws_def [THEN iffD1, THEN conjunct2, THEN conjunct2, THEN conjunct2, THEN conjunct2, THEN conjunct1, rule_format]
  rawkv_laws_def [THEN iffD1, THEN conjunct2, THEN conjunct2, THEN conjunct2, THEN conjunct2, THEN conjunct2, THEN conjunct1, rule_format]
  rawkv_laws_def [THEN iffD1, THEN conjunct2, THEN conjunct2, THEN conjunct2, THEN conjunct2, THEN conjunct2, THEN conjunct2, THEN conjunct1, rule_format]
  rawkv_laws_def [THEN iffD1, THEN conjunct2, THEN conjunct2, THEN conjunct2, THEN conjunct2, THEN conjunct2, THEN conjunct2, THEN conjunct2, THEN conjunct1, rule_format]
  rawkv_laws_def [THEN iffD1, THEN conjunct2, THEN conjunct2, THEN conjunct2, THEN conjunct2, THEN conjunct2, THEN conjunct2, THEN conjunct2, THEN conjunct2, THEN conjunct1, rule_format]
  rawkv_laws_def [THEN iffD1, THEN conjunct2, THEN conjunct2, THEN conjunct2, THEN conjunct2, THEN conjunct2, THEN conjunct2, THEN conjunct2, THEN conjunct2, THEN conjunct2, THEN conjunct1, rule_format]
  rawkv_laws_def [THEN iffD1, THEN conjunct2, THEN conjunct2, THEN conjunct2, THEN conjunct2, THEN conjunct2, THEN conjunct2, THEN conjunct2, THEN conjunct2, THEN conjunct2, THEN conjunct2, rule_format]

section \<open>The layer keeps its contract\<close>

definition raw_inv :: "nat \<Rightarrow> int \<Rightarrow> int \<Rightarrow> 's rawkv \<Rightarrow> ('s \<Rightarrow> flat) \<Rightarrow> 's rawDB \<Rightarrow> bool" where
  "raw_inv nf vmax room K F d \<longleftrightarrow> rawkv_laws room K F \<and> sizes_ok nf vmax room \<and> raw_r d = field_codec nf \<and>
     flat_encoded nf vmax (F (raw_db d)) \<and>
     (\<forall>st \<in> set (raw_states d). \<forall>b. state_row st = Some b \<longrightarrow> (\<exists>v. row_fits nf vmax v \<and> Encode (field_codec nf) [] v = Inr b))"

lemma raw_invD:
  assumes "raw_inv nf vmax room K F d"
  shows "rawkv_laws room K F" "sizes_ok nf vmax room" "raw_r d = field_codec nf" "flat_encoded nf vmax (F (raw_db d))"
    "st \<in> set (raw_states d) \<Longrightarrow> state_row st = Some b \<Longrightarrow> \<exists>v. row_fits nf vmax v \<and> Encode (field_codec nf) [] v = Inr b"
  using assms by (auto simp: raw_inv_def)

lemma raw_Insert_ok:
  assumes "raw_inv nf vmax room K F d" "row_fits nf vmax v" "Encode (field_codec nf) [] v = Inr b" "int (length b) \<le> room"
  shows "\<exists>d'. raw_Insert K c t k v d = Ret (None, d') \<and> raw_inv nf vmax room K F d' \<and> F (raw_db d') = (F (raw_db d))(getRowKey t k \<mapsto> b)"
proof -
  note d = raw_invD [OF assms(1)]
  obtain pl where pl: "BufPool_Get (raw_bufPool d) = ([], pl)" by (rule BufPool_Get_obtain)
  obtain s where s: "rawkv_Put K (getRowKey t k) b (raw_db d) = (None, s)" "F s = (F (raw_db d))(getRowKey t k \<mapsto> b)"
    using rawkv_lawsD(3) [OF d(1) getRowKey_nonempty Encode_nonempty [OF assms(3)] assms(4)] by blast
  have "raw_inv nf vmax room K F (d\<lparr>raw_db := s, raw_bufPool := BufPool_Put b pl\<rparr>)"
    using assms(1) flat_encoded_put [OF d(4) assms(2,3)] by (simp add: raw_inv_def s(2))
  then show ?thesis using assms(3) s by (simp add: raw_Insert_def pl d(3))
qed

lemma raw_inv_states:
  assumes "raw_inv nf vmax room K F d"
    and "\<And>b. state_row st = Some b \<Longrightarrow> \<exists>v. row_fits nf vmax v \<and> Encode (field_codec nf) [] v = Inr b"
  shows "raw_inv nf vmax room K F (d\<lparr>raw_states := (raw_states d)[c := st]\<rparr>)"
proof -
  have "\<exists>v. row_fits nf vmax v \<and> Encode (field_codec nf) [] v = Inr b"
    if "st' \<in> set ((raw_states d)[c := st])" "state_row st' = Some b" for st' b
  proof -
    have "st' = st \<or> st' \<in> set (raw_states d)" using that(1) set_update_subset_insert [of "raw_states d" c st] by auto
    then show ?thesis using assms(2) raw_invD(5) [OF assms(1)] that(2) by blast
  qed
  then show ?thesis using raw_invD(1-4) [OF assms(1)] by (simp add: raw_inv_def)
qed

text \<open>An update by read and write, of a row that is there and of one that is not.\<close>

lemma raw_getput_ok:
  assumes "raw_inv nf vmax room K F d" "F (raw_db d) (getRowKey t k) = row" "Decode (field_codec nf) (case row of None \<Rightarrow> [] | Some b \<Rightarrow> b) [] = Ret (Inr data)"
    and "row_fits nf vmax (map_assign data v)" "Encode (field_codec nf) [] (map_assign data v) = Inr b'" "int (length b') \<le> room"
  shows "\<exists>d'. raw_getput K c t k v d = Ret (None, d') \<and> raw_inv nf vmax room K F d' \<and> F (raw_db d') = (F (raw_db d))(getRowKey t k \<mapsto> b')"
  using raw_Insert_ok [OF assms(1,4-6), of c t k] rawkv_lawsD(2) [OF raw_invD(1) [OF assms(1)] getRowKey_nonempty [of t k], of "raw_db d"]
  by (simp add: raw_getput_def raw_invD(3) [OF assms(1)] assms(2,3))

lemma raw_inv_world:
  "raw_inv nf vmax room K F d \<Longrightarrow> F s = F (raw_db d) \<Longrightarrow> raw_inv nf vmax room K F (d\<lparr>raw_db := s, raw_bufPool := pl\<rparr>)"
  by (simp add: raw_inv_def)

lemma raw_inv_pool: "raw_inv nf vmax room K F d \<Longrightarrow> raw_inv nf vmax room K F (d\<lparr>raw_bufPool := pl\<rparr>)"
  by (simp add: raw_inv_def)

text \<open>The swap: with the row that is there it does what read and write do, and with another row it falls back to them.\<close>

lemma raw_cas_ok:
  assumes "raw_inv nf vmax room K F d" "F (raw_db d) (getRowKey t k) = row" "Decode (field_codec nf) (case row of None \<Rightarrow> [] | Some b \<Rightarrow> b) [] = Ret (Inr data)"
    and "row_fits nf vmax (map_assign data v)" "Encode (field_codec nf) [] (map_assign data v) = Inr b'" "int (length b') \<le> room"
    and "row_fits nf vmax v" "row_fits nf vmax w" "Encode (field_codec nf) [] w = Inr prev"
  shows "\<exists>d'. raw_cas K c t k v prev d = Ret (None, d') \<and> raw_inv nf vmax room K F d' \<and> F (raw_db d') = (F (raw_db d))(getRowKey t k \<mapsto> b')"
proof -
  define d1 where "d1 = d\<lparr>raw_states := (raw_states d)[c := \<lparr>state_key = [], state_row = None\<rparr>]\<rparr>"
  have inv: "raw_inv nf vmax room K F d1" unfolding d1_def by (rule raw_inv_states [OF assms(1)]) simp
  note d = raw_invD [OF inv]
  have F1: "F (raw_db d1) = F (raw_db d)" by (simp add: d1_def)
  obtain data' x where x: "Decode (field_codec nf) prev [] = Ret (Inr data')" "row_fits nf vmax (map_assign data' v)"
    "Encode (field_codec nf) [] (map_assign data' v) = Inr x" "int (length x) \<le> room"
    using encoded_update [OF d(2) assms(8,9,7)] by blast
  obtain pl where pl: "BufPool_Get (raw_bufPool d1) = ([], pl)" by (rule BufPool_Get_obtain)
  obtain s where s: "rawkv_CompareAndSwap K (getRowKey t k) prev x (raw_db d1) = (Inr (F (raw_db d) (getRowKey t k) = Some prev), s)"
    "F s = (if F (raw_db d) (getRowKey t k) = Some prev then (F (raw_db d))(getRowKey t k \<mapsto> x) else F (raw_db d))"
    using rawkv_lawsD(4) [OF d(1) getRowKey_nonempty Encode_nonempty [OF x(3)] x(4), of t k prev "raw_db d1"] F1 by auto
  show ?thesis
  proof (cases "row = Some prev")
    case True
    then have same: "x = b'" using assms(3,5) x(1,3) by simp
    have "raw_inv nf vmax room K F (d1\<lparr>raw_db := s, raw_bufPool := BufPool_Put x pl\<rparr>)"
      using inv flat_encoded_put [OF d(4) x(2,3)] s(2) True assms(2) by (simp add: raw_inv_def F1)
    then show ?thesis using True s assms(2) x(1,3) same by (simp add: raw_cas_def d1_def [symmetric] d(3) pl)
  next
    case False
    then have s': "rawkv_CompareAndSwap K (getRowKey t k) prev x (raw_db d1) = (Inr False, s)" "F s = F (raw_db d)" using s assms(2) by simp_all
    define d2 where "d2 = d1\<lparr>raw_db := s, raw_bufPool := pl\<rparr>"
    have inv2: "raw_inv nf vmax room K F d2" unfolding d2_def by (rule raw_inv_world [OF inv]) (simp add: s'(2) F1)
    have F2: "F (raw_db d2) = F (raw_db d)" by (simp add: d2_def s'(2))
    obtain d3 where d3: "raw_getput K c t k v d2 = Ret (None, d3)" "raw_inv nf vmax room K F d3"
      "F (raw_db d3) = (F (raw_db d))(getRowKey t k \<mapsto> b')"
      using raw_getput_ok [OF inv2 _ assms(3-6), of t k c] assms(2) F2 by auto
    show ?thesis using s'(1) x(1,3) d3 raw_inv_pool [OF d3(2)] by (simp add: raw_cas_def d1_def [symmetric] d(3) pl d2_def [symmetric])
  qed
qed

lemma raw_Update_ok:
  assumes "raw_inv nf vmax room K F d" "F (raw_db d) (getRowKey t k) = row" "Decode (field_codec nf) (case row of None \<Rightarrow> [] | Some b \<Rightarrow> b) [] = Ret (Inr data)"
    and "row_fits nf vmax (map_assign data v)" "Encode (field_codec nf) [] (map_assign data v) = Inr b'" "int (length b') \<le> room" "row_fits nf vmax v"
  shows "\<exists>d'. raw_Update K c t k v d = Ret (None, d') \<and> raw_inv nf vmax room K F d' \<and> F (raw_db d') = (F (raw_db d))(getRowKey t k \<mapsto> b')"
proof (cases "raw_casMode d \<and> c < length (raw_states d) \<and> state_row (raw_states d ! c) \<noteq> None \<and> state_key (raw_states d ! c) = getRowKey t k")
  case True
  then obtain prev where prev: "state_row (raw_states d ! c) = Some prev" by auto
  obtain w where w: "row_fits nf vmax w" "Encode (field_codec nf) [] w = Inr prev"
    using raw_invD(5) [OF assms(1) _ prev] True by auto
  show ?thesis using raw_cas_ok [OF assms w, of c] True by (simp add: raw_Update_def prev)
next
  case False
  then show ?thesis using raw_getput_ok [OF assms(1-6), of c] by (auto simp: raw_Update_def)
qed

lemma raw_Read_Some:
  assumes "raw_inv nf vmax room K F d" "F (raw_db d) (getRowKey t k) = Some b" "Decode (field_codec nf) b fs = Ret (Inr row)"
  shows "\<exists>d'. raw_Read K c t k fs d = Ret (Inr row, d') \<and> raw_inv nf vmax room K F d' \<and> raw_db d' = raw_db d"
proof -
  note d = raw_invD [OF assms(1)]
  have "\<exists>v. row_fits nf vmax v \<and> Encode (field_codec nf) [] v = Inr b" using d(4) assms(2) by (simp add: flat_encoded_def)
  then have "raw_inv nf vmax room K F (d\<lparr>raw_states := (raw_states d)[c := \<lparr>state_key = getRowKey t k, state_row = Some b\<rparr>]\<rparr>)"
    by (intro raw_inv_states [OF assms(1)]) simp
  then show ?thesis
    using assms rawkv_lawsD(2) [OF d(1) getRowKey_nonempty [of t k], of "raw_db d"] by (simp add: raw_Read_def d(3))
qed

lemma decode_rows_total:
  assumes "\<And>b. Some b \<in> set bs \<Longrightarrow> \<exists>row. Decode r b fs = Ret (Inr row)"
  shows "\<exists>rows. decode_rows r fs bs = Ret (Inr rows) \<and>
    list_all2 (\<lambda>b row. case b of None \<Rightarrow> row = [] | Some v \<Rightarrow> Decode r v fs = Ret (Inr row)) bs rows"
  using assms
proof (induction bs)
  case (Cons b bs)
  then obtain rows where "decode_rows r fs bs = Ret (Inr rows)"
    "list_all2 (\<lambda>b row. case b of None \<Rightarrow> row = [] | Some v \<Rightarrow> Decode r v fs = Ret (Inr row)) bs rows" by auto
  moreover have "\<exists>row. (case b of None \<Rightarrow> Ret (Inr []) | Some v \<Rightarrow> Decode r v fs) = Ret (Inr row) \<and>
      (case b of None \<Rightarrow> row = [] | Some v \<Rightarrow> Decode r v fs = Ret (Inr row))"
    using Cons.prems [of "the b"] by (cases b) auto
  ultimately show ?case by force
qed simp

interpretation traw: flat_layer nf vmax room flat_key_ok "raw_DB K" "raw_inv nf vmax room K F" "\<lambda>d. F (raw_db d)"
proof (unfold_locales, goal_cases)
  case (1 t k)
  then show ?case by (simp add: flat_key_ok_def)
next
  case (2 d)
  then show ?case by (rule raw_invD(2))
next
  case (3 d)
  then show ?case by (rule raw_invD(4))
next
  case (4 d t k v b c)
  then show ?case using raw_Insert_ok [OF 4(1,3-5), of c t k] by (simp add: raw_DB_def)
next
  case (5 d t k b fs row c)
  then show ?case using raw_Read_Some [OF 5(1,3,4), of c] by (auto simp: raw_DB_def)
next
  case (6 d t k c fs)
  then show ?case
    using rawkv_lawsD(2) [OF raw_invD(1) [OF 6(1)] getRowKey_nonempty [of t k], of "raw_db d"] by (simp add: raw_DB_def raw_Read_def)
next
  case (7 d t k v b data b' c)
  then show ?case using raw_Update_ok [OF 7(1) 7(4) _ 7(6-8,3), of c] by (simp add: raw_DB_def)
next
  case (8 d t k v b c)
  then show ?case using raw_Update_ok [OF 8(1,5) _ 8(4,6,7,3), of c] by (auto simp: raw_DB_def Decode_empty)
next
  case (9 d i m)
  then show ?case by (auto simp: raw_DB_def raw_InitThread_def raw_inv_def)
next
  case (10 d fs c t k n)
  note d = raw_invD [OF 10(1)]
  show ?case
  proof (cases "rawkv_Scan K (getRowKey t k) [] n (raw_db d)")
    case (Inr r)
    obtain ks vs where r: "r = (ks, vs)" by fastforce
    have "vs = map (F (raw_db d)) ks" using rawkv_lawsD(5) [OF d(1)] Inr by (simp add: r)
    then have "\<exists>row. Decode (field_codec nf) b fs = Ret (Inr row)" if "Some b \<in> set vs" for b using that 10(2) by auto
    then obtain rows where "decode_rows (field_codec nf) fs vs = Ret (Inr rows)" using decode_rows_total [of vs] by blast
    then show ?thesis using 10(1) by (simp add: raw_DB_def raw_Scan_def Inr r d(3))
  qed (use 10(1) in \<open>simp add: raw_DB_def raw_Scan_def\<close>)
qed

interpretation trawm: measured_database nf vmax flat_key_ok "raw_DB K" "raw_inv nf vmax room K F"
  "\<lambda>d. rows_of nf (flat_tables (F (raw_db d)))" H
  for nf vmax room and K :: "'s rawkv" and F and H :: "'h hdrlib"
  by unfold_locales


section \<open>Counting and cleaning\<close>

text \<open>The key that follows another in byte order.\<close>

lemma less_char_zero: "CHR 0x00 \<le> (c :: char)"
  by (simp add: less_eq_char_def)

lemma next_key: "(k :: string) @ [CHR 0x00] \<le> k' \<longleftrightarrow> k < k'"
proof (induction k arbitrary: k')
  case Nil
  then show ?case using less_char_zero by (cases k'; cases "tl k'") (auto simp: le_less)
next
  case (Cons c k)
  then show ?case by (cases k') auto
qed

text \<open>A batch and the range behind its last key make up the range.\<close>

lemma range_keys_drop:
  assumes "finite (dom F)" "0 < m" "m \<le> length (range_keys F a b)"
  shows "range_keys F (List.last (take m (range_keys F a b)) @ [CHR 0x00]) b = drop m (range_keys F a b)"
proof -
  let ?R = "range_keys F a b" and ?l = "List.last (take m (range_keys F a b))"
  have ne: "take m ?R \<noteq> []" using assms(2,3) by (cases ?R) auto
  then have l: "?l \<in> set (take m ?R)" by simp
  have s: "sorted_wrt (<) (take m ?R @ drop m ?R)" using range_keys_sorted [of F a b] by simp
  have ub: "x \<le> ?l" if "x \<in> set (take m ?R)" for x
  proof -
    have "sorted_wrt (<) (butlast (take m ?R) @ [?l])" using s ne by (simp add: sorted_wrt_append)
    moreover have "x = ?l \<or> x \<in> set (butlast (take m ?R))" using that ne by (metis append_butlast_last_id in_set_conv_decomp rotate1.simps(2) set_ConsD set_rotate1)
    ultimately show ?thesis by (auto simp: sorted_wrt_append)
  qed
  have "set (drop m ?R) = {k \<in> dom F. ?l < k \<and> (b = [] \<or> k < b)}"
  proof (intro set_eqI iffI)
    fix x assume x: "x \<in> set (drop m ?R)"
    then have "x \<in> set ?R" by (rule in_set_dropD)
    moreover have "?l < x" using s l x unfolding sorted_wrt_append by blast
    ultimately show "x \<in> {k \<in> dom F. ?l < k \<and> (b = [] \<or> k < b)}" by (simp add: set_range_keys [OF assms(1)])
  next
    fix x assume x: "x \<in> {k \<in> dom F. ?l < k \<and> (b = [] \<or> k < b)}"
    have "a \<le> ?l" using in_set_takeD [OF l] by (simp add: set_range_keys [OF assms(1)])
    with x have "a \<le> x" using order.strict_implies_order order.trans by blast
    with x have "x \<in> set (take m ?R @ drop m ?R)" by (simp add: set_range_keys [OF assms(1)])
    then have "x \<in> set (take m ?R) \<or> x \<in> set (drop m ?R)" unfolding set_append by blast
    moreover have "x \<notin> set (take m ?R)" using ub [of x] x by auto
    ultimately show "x \<in> set (drop m ?R)" by blast
  qed
  then have "range_keys F (?l @ [CHR 0x00]) b = sorted_list_of_set (set (drop m ?R))"
    unfolding range_keys_def [of F "?l @ [CHR 0x00]"] next_key by simp
  moreover have "sorted_wrt (<) (drop m ?R)" using s unfolding sorted_wrt_append by blast
  ultimately show ?thesis by (simp add: strict_sorted_iff sorted_list_of_set.idem_if_sorted_distinct)
qed

lemma raw_count_loop_spec:
  assumes "rawkv_laws room K F" "0 \<le> n" "n + int (length (range_keys (F s) a b)) \<le> max64"
  shows "raw_count_loop K s a b n = Some (Inr (n + int (length (range_keys (F s) a b))))"
  using assms(2,3)
proof (induction "length (range_keys (F s) a b)" arbitrary: a n rule: less_induct)
  case less
  let ?R = "range_keys (F s) a b"
  note scan = rawkv_lawsD(6) [OF assms(1), of 10000 a b s, simplified]
  show ?case
  proof (cases "length ?R < 10000")
    case True
    moreover have "wrap64 (n + int (length ?R)) = n + int (length ?R)" using less.prems by (simp add: wrap64_id in64_def)
    ultimately show ?thesis by (subst raw_count_loop.simps) (simp add: scan)
  next
    case False
    then have len: "length (take 10000 ?R) = 10000" by simp
    have rest: "range_keys (F s) (List.last (take 10000 ?R) @ [CHR 0x00]) b = drop 10000 ?R"
      by (rule range_keys_drop [OF rawkv_lawsD(1) [OF assms(1)]]) (use False in simp_all)
    have "wrap64 (n + 10000) = n + 10000" using less.prems False by (simp add: wrap64_id in64_def)
    moreover have "raw_count_loop K s (List.last (take 10000 ?R) @ [CHR 0x00]) b (n + 10000) =
        Some (Inr (n + 10000 + int (length (drop 10000 ?R))))"
      using less.hyps [of "List.last (take 10000 ?R) @ [CHR 0x00]" "n + 10000"] less.prems False unfolding rest by simp
    ultimately show ?thesis using False len by (subst raw_count_loop.simps) (simp add: scan)
  qed
qed

section \<open>A concrete store\<close>

definition map_rawkv :: "(string, bytes) fmap rawkv" where
  "map_rawkv = \<lparr>rawkv_Close = (\<lambda>s. (None, s)), rawkv_Get = (\<lambda>k s. Inr (fmlookup s k)),
     rawkv_BatchGet = (\<lambda>ks s. Inr (map (\<lambda>k. case fmlookup s k of None \<Rightarrow> [] | Some v \<Rightarrow> v) ks)),
     rawkv_Put = (\<lambda>k v s. (None, fmupd k v s)),
     rawkv_BatchPut = (\<lambda>ks vs s. (None, s ++\<^sub>f fmap_of_list (rev (zip ks vs)))),
     rawkv_CompareAndSwap = (\<lambda>k p v s. if fmlookup s k = Some p then (Inr True, fmupd k v s) else (Inr False, s)),
     rawkv_Scan = (\<lambda>a b n s. let ks = take (nat n) (range_keys (fmlookup s) a b) in Inr (ks, map (fmlookup s) ks)),
     rawkv_Delete = (\<lambda>k s. (None, fmdrop k s)),
     rawkv_BatchDelete = (\<lambda>ks s. (None, fmfilter (\<lambda>k. k \<notin> set ks) s)),
     rawkv_DeleteRange = (\<lambda>a b s. (None, fmfilter (\<lambda>k. \<not> (a \<le> k \<and> k < b)) s))\<rparr>"

lemma rawkv_laws_map_rawkv: "rawkv_laws room map_rawkv fmlookup"
proof -
  have sub: "set (take m (range_keys (fmlookup s) a b)) \<subseteq> dom (fmlookup s)" for m a b and s :: "(string, bytes) fmap"
    using set_range_keys [of "fmlookup s" a b] set_take_subset [of m "range_keys (fmlookup s) a b"] by auto
  have add: "fmlookup (s ++\<^sub>f fmap_of_list xs) = fmlookup s ++ map_of xs" for s and xs :: "(string \<times> bytes) list"
    by (simp add: fmadd.rep_eq fmlookup_of_list del: fmlookup_add)
  show ?thesis
    unfolding rawkv_laws_def map_rawkv_def
    by (intro conjI allI impI)
      (use sub in \<open>auto simp: Let_def restrict_map_def add fmfilter.rep_eq map_filter_def simp del: fmlookup_add dom_fmlookup\<close>)
qed

definition fresh_raw :: "nat \<Rightarrow> bool \<Rightarrow> (string, bytes) fmap rawDB" where
  "fresh_raw n cas = \<lparr>raw_db = fmempty, raw_r = field_codec n, raw_bufPool = NewBufPool, raw_casMode = cas, raw_states = []\<rparr>"

lemma raw_inv_fresh: "sizes_ok n vmax room \<Longrightarrow> raw_inv n vmax room map_rawkv fmlookup (fresh_raw n cas)"
  using rawkv_laws_map_rawkv by (simp add: raw_inv_def fresh_raw_def flat_encoded_def)

lemma current_update:
  assumes "sizes_ok nf vmax room" "flat_encoded nf vmax G" "row_fits nf vmax v"
  shows "\<exists>data b'. Decode (field_codec nf) (case G key of None \<Rightarrow> [] | Some b \<Rightarrow> b) [] = Ret (Inr data) \<and>
    row_fits nf vmax (map_assign data v) \<and> Encode (field_codec nf) [] (map_assign data v) = Inr b' \<and> int (length b') \<le> room"
proof (cases "G key")
  case None
  obtain b' where b': "Encode (field_codec nf) [] (map_assign [] v) = Inr b'" using fc.enc_obtain by blast
  have fits: "row_fits nf vmax (map_assign [] v)" by (rule row_fits_assign [OF row_fits_Nil assms(3)])
  show ?thesis using b' fits sizes_ok_encoded [OF assms(1) fits b'] by (simp add: None Decode_empty)
next
  case (Some b)
  then obtain w where w: "row_fits nf vmax w" "Encode (field_codec nf) [] w = Inr b" using assms(2) by (auto simp: flat_encoded_def)
  show ?thesis using encoded_update [OF assms(1) w assms(3)] by (simp add: Some)
qed

section \<open>Properties\<close>

text \<open>(C5) The swap of the CAS mode does not lose updates. Whatever row a worker has cached and whatever other workers
  have written since, an update in CAS mode ends without an error and leaves the same rows in the store as the update by
  read and write: the values of the fields it names, over the row that is there now.\<close>

theorem raw_Update_modes_agree:
  assumes "raw_inv nf vmax room K F d" "row_fits nf vmax v" "CHR '':'' \<notin> set t"
    and "T = rows_of nf (flat_tables (F (raw_db d)))"
  shows "\<exists>d1 d2. raw_Update K c t k v d = Ret (None, d1) \<and> raw_getput K c t k v d = Ret (None, d2) \<and> F (raw_db d1) = F (raw_db d2) \<and>
    raw_inv nf vmax room K F d1 \<and>
    rows_of nf (flat_tables (F (raw_db d1))) = put_row t k ((case T t k of None \<Rightarrow> Map.empty | Some m \<Rightarrow> m) ++ map_of v) T"
proof -
  note d = raw_invD [OF assms(1)]
  define row where "row = F (raw_db d) (getRowKey t k)"
  obtain data b' where u: "Decode (field_codec nf) (case row of None \<Rightarrow> [] | Some b \<Rightarrow> b) [] = Ret (Inr data)" "row_fits nf vmax (map_assign data v)"
    "Encode (field_codec nf) [] (map_assign data v) = Inr b'" "int (length b') \<le> room"
    using current_update [OF d(2,4) assms(2), of "getRowKey t k"] row_def by blast
  obtain d1 where d1: "raw_Update K c t k v d = Ret (None, d1)" "raw_inv nf vmax room K F d1" "F (raw_db d1) = (F (raw_db d))(getRowKey t k \<mapsto> b')"
    using raw_Update_ok [OF assms(1) row_def [symmetric] u assms(2)] by blast
  obtain d2 where d2: "raw_getput K c t k v d = Ret (None, d2)" "F (raw_db d2) = (F (raw_db d))(getRowKey t k \<mapsto> b')"
    using raw_getput_ok [OF assms(1) row_def [symmetric] u] by blast
  have n: "nf \<le> nat max64" using d(2) by (simp add: sizes_ok_def)
  have "map_of data = (case T t k of None \<Rightarrow> Map.empty | Some m \<Rightarrow> m)"
    using u(1) by (cases row) (auto simp: assms(4) rows_of_get flat_tables_get [OF assms(3)] row_def Decode_empty decoded_def)
  then have "map_of (map_assign data v) = (case T t k of None \<Rightarrow> Map.empty | Some m \<Rightarrow> m) ++ map_of v"
    using map_of_map_assign [of v data] assms(2) by (simp add: row_fits_def codec_row_def)
  then show ?thesis
    using d1 d2 rows_of_put [OF n u(2,3)] by (simp add: flat_tables_put [OF assms(3)] assms(4))
qed

definition stale_raw :: "(string, bytes) fmap rawDB" where
  "stale_raw = (fresh_raw 3 True)\<lparr>raw_states := [\<lparr>state_key = getRowKey ''usertable'' ''user1'',
     state_row = Some (projr (Encode (field_codec 3) [] [(''field0'', [9])]))\<rparr>]\<rparr>"

lemma sample_row_fits: "row_fits 3 100 [(''field0'', [x])]"
proof -
  have "''field0'' \<in> set (field_names 3)" by code_simp
  then show ?thesis by (simp add: row_fits_def codec_row_def del: in_field_names)
qed

lemma raw_inv_stale: "raw_inv 3 100 1000 map_rawkv fmlookup stale_raw"
proof -
  have inv: "raw_inv 3 100 1000 map_rawkv fmlookup (fresh_raw 3 True)" by (rule raw_inv_fresh) (simp add: sizes_ok_def)
  obtain b where "Encode (field_codec 3) [] [(''field0'', [9])] = Inr b" using fc.enc_obtain by blast
  then show ?thesis using inv sample_row_fits [of 9] by (auto simp: raw_inv_def stale_raw_def)
qed

theorem raw_Update_modes_agree_witness:
  "raw_casMode stale_raw \<and> state_key (raw_states stale_raw ! 0) = getRowKey ''usertable'' ''user1'' \<and>
   (\<exists>d1. raw_Update map_rawkv 0 ''usertable'' ''user1'' [(''field0'', [7])] stale_raw = Ret (None, d1) \<and>
      rows_of 3 (flat_tables (fmlookup (raw_db d1))) ''usertable'' ''user1'' = Some [''field0'' \<mapsto> [7]])"
proof -
  have "rows_of 3 (flat_tables (fmlookup (raw_db stale_raw))) ''usertable'' ''user1'' = None"
    by (simp add: rows_of_get flat_tables_def stale_raw_def fresh_raw_def)
  then show ?thesis
    using raw_Update_modes_agree [OF raw_inv_stale sample_row_fits [of 7] _ refl, of "''usertable''" 0 "''user1''"]
    by (auto simp: put_row_def stale_raw_def fresh_raw_def)
qed

text \<open>The range from \<^verbatim>\<open>table:\<close> to \<^verbatim>\<open>table:\<close> and four bytes 0xFF.\<close>

lemma prefix_range: "(p :: string) \<le> x \<and> x < p @ s \<longleftrightarrow> (\<exists>k. x = p @ k \<and> k < s)"
proof (induction p arbitrary: x)
  case (Cons c p)
  then show ?case by (cases x) auto
qed simp

definition counted :: "string \<Rightarrow> bool" where
  "counted k \<longleftrightarrow> k < replicate 4 (CHR 0xFF)"

lemma table_range:
  "getRowKey t [] \<le> x \<and> x < table_end (getRowKey t []) \<longleftrightarrow> (\<exists>k. x = getRowKey t k \<and> counted k)"
  using prefix_range [of "getRowKey t []" x "replicate 4 (CHR 0xFF)"] by (simp add: table_end_def getRowKey_def counted_def)

lemma range_table:
  assumes "finite (dom F)" "CHR '':'' \<notin> set t"
  shows "length (range_keys F (getRowKey t []) (table_end (getRowKey t []))) = card {k \<in> dom (flat_tables F t). counted k}"
proof -
  have "{x \<in> dom F. getRowKey t [] \<le> x \<and> (table_end (getRowKey t []) = [] \<or> x < table_end (getRowKey t []))} =
      getRowKey t ` {k \<in> dom (flat_tables F t). counted k}"
    using table_range [of t] assms(2) by (auto simp: flat_tables_def table_end_def)
  moreover have "inj_on (getRowKey t) A" for A by (simp add: inj_on_def getRowKey_def)
  ultimately show ?thesis by (simp add: range_keys_def card_image)
qed

lemma raw_Count_ok:
  assumes "rawkv_laws room K F" "CHR '':'' \<notin> set t" "n = card {k \<in> dom (flat_tables (F (raw_db d)) t). counted k}" "int n \<le> max64"
  shows "raw_Count K c t d = Ret (Inr (int n), d)"
  using raw_count_loop_spec [OF assms(1), of 0 "raw_db d" "getRowKey t []" "table_end (getRowKey t [])"]
    range_table [OF rawkv_lawsD(1) [OF assms(1)] assms(2), of "raw_db d"] assms(3,4)
  by (simp add: raw_Count_def)

text \<open>(C13) Counting a table ends and is exact: however many batches of 10000 keys it takes, the loop returns the number of
  rows of the table whose key is below four bytes 0xFF, with no key of another table among them, none twice and none left
  out at the border of two batches; the layer is unchanged.\<close>

theorem raw_Count_exact:
  assumes "rawkv_laws room K F" "CHR '':'' \<notin> set t"
    and "int (card {k \<in> dom (flat_tables (F (raw_db d)) t). counted k}) \<le> max64"
  shows "raw_Count K c t d = Ret (Inr (int (card {k \<in> dom (flat_tables (F (raw_db d)) t). counted k})), d)"
  using raw_Count_ok [OF assms(1,2) refl assms(3)] .

definition two_rows_raw :: "(string, bytes) fmap rawDB" where
  "two_rows_raw = (fresh_raw 3 False)\<lparr>raw_db := fmap_of_list [(getRowKey ''usertable'' ''user1'', [1]), (getRowKey ''usertable'' ''user2'', [1]),
     (getRowKey ''usertables'' ''user2'', [1])]\<rparr>"

theorem raw_Count_exact_witness: "raw_Count map_rawkv 0 ''usertable'' two_rows_raw = Ret (Inr 2, two_rows_raw)"
proof -
  have "{k \<in> dom (flat_tables (fmlookup (raw_db two_rows_raw)) ''usertable''). counted k} = {''user1'', ''user2''}"
    by (auto simp: two_rows_raw_def flat_tables_def getRowKey_def counted_def fmlookup_of_list eval_nat_numeral less_char_def
        split: if_splits)
  then show ?thesis
    using raw_Count_exact [OF rawkv_laws_map_rawkv, of "''usertable''" two_rows_raw 0] by simp
qed

lemma raw_Clean_ok:
  assumes "raw_inv nf vmax room K F d" "CHR '':'' \<notin> set t"
  shows "\<exists>d'. raw_Clean K c t d = Ret (None, d') \<and> raw_inv nf vmax room K F d' \<and> raw_Count K c t d' = Ret (Inr 0, d') \<and>
    flat_tables (F (raw_db d')) = (flat_tables (F (raw_db d)))(t := flat_tables (F (raw_db d)) t |` {k. \<not> counted k})"
proof -
  note d = raw_invD [OF assms(1)]
  define G where "G = F (raw_db d)"
  obtain s where s: "rawkv_DeleteRange K (getRowKey t []) (table_end (getRowKey t [])) (raw_db d) = (None, s)"
    "F s = G |` {x. \<not> (\<exists>k. x = getRowKey t k \<and> counted k)}"
    using rawkv_lawsD(11) [OF d(1), of "getRowKey t []" "table_end (getRowKey t [])" "raw_db d"]
    unfolding table_range by (auto simp: table_end_def G_def)
  have tab: "flat_tables (F s) = (flat_tables G)(t := flat_tables G t |` {k. \<not> counted k})"
    unfolding s(2) using assms(2) by (intro ext) (auto simp: flat_tables_def restrict_map_def getRowKey_inject)
  have none: "{k \<in> dom (flat_tables (F s) t). counted k} = {}" by (auto simp: tab restrict_map_def split: if_splits)
  have "0 = card {k \<in> dom (flat_tables (F (raw_db (d\<lparr>raw_db := s\<rparr>))) t). counted k}" by (simp add: none)
  then have "raw_Count K c t (d\<lparr>raw_db := s\<rparr>) = Ret (Inr 0, d\<lparr>raw_db := s\<rparr>)"
    using raw_Count_ok [OF d(1) assms(2), of 0 "d\<lparr>raw_db := s\<rparr>" c] by simp
  moreover have "raw_inv nf vmax room K F (d\<lparr>raw_db := s\<rparr>)"
    using assms(1) by (simp add: raw_inv_def s(2) flat_encoded_def restrict_map_def G_def)
  ultimately show ?thesis using s(1) tab by (simp add: raw_Clean_def G_def)
qed



section \<open>Batches\<close>

lemma batch_encode_ok:
  assumes "length ks = length vs" "\<And>v. v \<in> set vs \<Longrightarrow> row_fits nf vmax v" "sizes_ok nf vmax room"
  shows "\<exists>bs. batch_encode (field_codec nf) t ks vs = Ret (Inr (map (getRowKey t) ks, bs)) \<and>
    list_all2 (\<lambda>v b. Encode (field_codec nf) [] v = Inr b \<and> b \<noteq> [] \<and> int (length b) \<le> room) vs bs"
  using assms(1,2)
proof (induction ks vs rule: list_induct2)
  case (Cons k ks v vs)
  then obtain bs where "batch_encode (field_codec nf) t ks vs = Ret (Inr (map (getRowKey t) ks, bs))"
    "list_all2 (\<lambda>v b. Encode (field_codec nf) [] v = Inr b \<and> b \<noteq> [] \<and> int (length b) \<le> room) vs bs" by auto
  moreover obtain b where b: "Encode (field_codec nf) [] v = Inr b" using fc.enc_obtain by blast
  moreover have "int (length b) \<le> room" using sizes_ok_encoded [OF assms(3) Cons.prems b] by simp
  ultimately show ?case using Encode_nonempty [OF b] by simp
qed simp

lemma batch_rows_ok:
  assumes "list_all2 (\<lambda>v b. Encode (field_codec nf) [] v = Inr b \<and> b \<noteq> []) vs bs" "\<And>v. v \<in> set vs \<Longrightarrow> row_fits nf vmax v" "nf \<le> nat max64"
  shows "\<exists>rows. batch_rows (field_codec nf) [] (length bs) bs = Ret rows \<and> map map_of rows = map map_of vs"
  using assms(1,2)
proof (induction vs bs rule: list_all2_induct)
  case (Cons v vs b bs)
  then obtain rows where rows: "batch_rows (field_codec nf) [] (length bs) bs = Ret rows" "map map_of rows = map map_of vs" by auto
  have b: "row_fits nf vmax v" "Encode (field_codec nf) [] v = Inr b" "b \<noteq> []" using Cons by auto
  obtain row where "Decode (field_codec nf) b [] = Ret (Inr row)" "map_of row = map_of v"
    using fc.dec_all [of nf v "[]" b] b assms(3) by (auto simp: row_fits_def)
  then show ?case using rows b(3) by auto
qed simp

lemma map_of_batch:
  assumes "distinct ks" "length ks = length bs"
  shows "map (\<lambda>k. case (G ++ map_of (rev (zip ks bs))) k of None \<Rightarrow> [] | Some v \<Rightarrow> v) ks = bs"
proof (rule nth_equalityI)
  fix i assume i: "i < length (map (\<lambda>k. case (G ++ map_of (rev (zip ks bs))) k of None \<Rightarrow> [] | Some v \<Rightarrow> v) ks)"
  have "distinct (map fst (rev (zip ks bs)))" using assms by (simp add: rev_map [symmetric])
  moreover have "(ks ! i, bs ! i) \<in> set (rev (zip ks bs))" using i assms(2) by (auto simp: set_zip)
  ultimately have "map_of (rev (zip ks bs)) (ks ! i) = Some (bs ! i)" by (rule map_of_is_SomeI)
  then show "map (\<lambda>k. case (G ++ map_of (rev (zip ks bs))) k of None \<Rightarrow> [] | Some v \<Rightarrow> v) ks ! i = bs ! i"
    using i by (simp add: map_add_Some_iff)
qed (simp add: assms(2))

text \<open>(C39) A batch is stored whole and read back in order: a batch insert of as many fitting rows as distinct keys ends
  without an error, and a batch read of the keys then gives exactly the rows of the batch, at their positions. A batch
  update does the same, so it replaces each row: fields of the old row that the update does not name are gone,
  where the update of a single row keeps them.\<close>

theorem raw_Batch_round_trip:
  assumes "raw_inv nf vmax room K F d" "length ks = length vs" "distinct ks" "\<forall>v \<in> set vs. row_fits nf vmax v"
  shows "\<exists>d' rows. raw_BatchInsert K c t ks vs d = Ret (None, d') \<and> raw_BatchUpdate K c t ks vs d = Ret (None, d') \<and>
    raw_BatchRead K c t ks [] d' = Ret (Inr rows, d') \<and> map map_of rows = map map_of vs"
proof -
  note d = raw_invD [OF assms(1)]
  obtain bs where bs: "batch_encode (field_codec nf) t ks vs = Ret (Inr (map (getRowKey t) ks, bs))"
    "list_all2 (\<lambda>v b. Encode (field_codec nf) [] v = Inr b \<and> b \<noteq> [] \<and> int (length b) \<le> room) vs bs"
    using batch_encode_ok [OF assms(2) _ d(2)] assms(4) by blast
  have len: "length bs = length ks" using list_all2_lengthD [OF bs(2)] assms(2) by simp
  have fits: "\<forall>b \<in> set bs. b \<noteq> [] \<and> int (length b) \<le> room" using bs(2) by (auto simp: list_all2_conv_all_nth in_set_conv_nth)
  have "\<exists>s. rawkv_BatchPut K (map (getRowKey t) ks) bs (raw_db d) = (None, s) \<and> F s = F (raw_db d) ++ map_of (rev (zip (map (getRowKey t) ks) bs))"
    by (rule rawkv_lawsD(8) [OF d(1)]) (use len fits in \<open>auto simp: getRowKey_def\<close>)
  then obtain s where s: "rawkv_BatchPut K (map (getRowKey t) ks) bs (raw_db d) = (None, s)"
    "F s = F (raw_db d) ++ map_of (rev (zip (map (getRowKey t) ks) bs))" by blast
  have "distinct (map (getRowKey t) ks)" using assms(3) by (simp add: distinct_map inj_on_def getRowKey_def)
  then have get: "rawkv_BatchGet K (map (getRowKey t) ks) s = Inr bs"
    using rawkv_lawsD(7) [OF d(1)] map_of_batch [of "map (getRowKey t) ks" bs "F (raw_db d)"] len by (simp add: s(2))
  have n: "nf \<le> nat max64" using d(2) by (simp add: sizes_ok_def)
  have "list_all2 (\<lambda>v b. Encode (field_codec nf) [] v = Inr b \<and> b \<noteq> []) vs bs" using bs(2) by (rule list_all2_mono) simp
  from batch_rows_ok [OF this _ n] obtain rows where rows: "batch_rows (field_codec nf) [] (length bs) bs = Ret rows" "map map_of rows = map map_of vs"
    using assms(4) by blast
  show ?thesis
    using rows get s(1) bs(1) d(3) len by (simp add: raw_BatchInsert_def raw_BatchUpdate_def raw_BatchPut_def raw_BatchRead_def)
qed

theorem raw_Batch_round_trip_witness:
  "\<exists>d' rows. raw_BatchInsert map_rawkv 0 ''usertable'' [''user1'', ''user2''] [[(''field0'', [7])], [(''field0'', [8])]] stale_raw = Ret (None, d') \<and>
     raw_BatchRead map_rawkv 0 ''usertable'' [''user1'', ''user2''] [] d' = Ret (Inr rows, d') \<and>
     map map_of rows = [[''field0'' \<mapsto> [7]], [''field0'' \<mapsto> [8]]]"
  using raw_Batch_round_trip [OF raw_inv_stale, of "[''user1'', ''user2'']" "[[(''field0'', [7])], [(''field0'', [8])]]" 0 "''usertable''"]
    sample_row_fits by auto

end
