(* ===== verification/TiKVTxn.thy ===== *)
theory TiKVTxn
  imports TiKVRaw
begin

text \<open>
  The TiKV layer in transaction mode (\<^verbatim>\<open>db/tikv/txn.go\<close>) and the creator that chooses the mode
  (\<^verbatim>\<open>db/tikv/db.go\<close>). The library's calls are the record \<open>txnkv\<close> on the state \<open>'s\<close> of the cluster and
  \<open>'t\<close> of a transaction; what the layer relies on is \<open>txnkv_laws\<close>.

  \<^item> A call of the layer runs as one step, so no transaction sees the writes of another; its commit has no conflict.
  \<^item> An iterator is the list of its entries, each with the error of the \<^verbatim>\<open>Next\<close> that leaves it.
  \<^item> The loops of \<^verbatim>\<open>Count\<close> and \<^verbatim>\<open>Clean\<close> are partial functions; a loop that does not end is \<open>Diverge\<close>.
\<close>

section \<open>State\<close>

record txnConfig =
  asyncCommit :: bool
  onePC :: bool

record ('s, 't) txnkv =
  txnkv_Close :: "'s \<Rightarrow> goerror option \<times> 's"
  txnkv_Begin :: "'s \<Rightarrow> goerror + 't"
  SetEnableAsyncCommit :: "bool \<Rightarrow> 't \<Rightarrow> 't"
  SetEnable1PC :: "bool \<Rightarrow> 't \<Rightarrow> 't"
  tx_Get :: "string \<Rightarrow> 't \<Rightarrow> bytes option \<times> goerror option"
  tx_Iter :: "string \<Rightarrow> string \<Rightarrow> 't \<Rightarrow> goerror + (string \<times> bytes \<times> goerror option) list"
  tx_Set :: "string \<Rightarrow> bytes \<Rightarrow> 't \<Rightarrow> goerror option \<times> 't"
  tx_Delete :: "string \<Rightarrow> 't \<Rightarrow> goerror option \<times> 't"
  tx_Commit :: "'t \<Rightarrow> 's \<Rightarrow> goerror option \<times> 't \<times> 's"
  tx_Rollback :: "'t \<Rightarrow> 's \<Rightarrow> 's"
  IsErrNotFound :: "goerror option \<Rightarrow> bool"

record 's txnDB =
  txn_db :: 's
  txn_r :: RowCodec
  txn_bufPool :: pool
  txn_cfg :: txnConfig

section \<open>Operations\<close>

definition createTxnDB :: "(string list \<Rightarrow> goerror + 's) \<Rightarrow> properties \<Rightarrow> (goerror + 's txnDB) outcome" where
  "createTxnDB NewClient p = (case NewClient (strings_Split (CHR '','') (GetString p ''tikv.pd'' ''127.0.0.1:2379'')) of
       Inl err \<Rightarrow> Ret (Inl err)
     | Inr db \<Rightarrow> obind (NewRowCodec p) (\<lambda>r. Ret (Inr \<lparr>txn_db = db, txn_r = r, txn_bufPool = NewBufPool,
         txn_cfg = \<lparr>asyncCommit = GetBool p ''tikv.async_commit'' True, onePC = GetBool p ''tikv.one_pc'' True\<rparr>\<rparr>)))"

text \<open>The creator: the settings that go to the configuration of the client library, and the mode.\<close>

record tikvConfig =
  GrpcConnectionCount :: int
  MaxBatchSize :: int
  ClusterSSLCA :: string
  ClusterSSLCert :: string
  ClusterSSLKey :: string

definition tikv_UpdateGlobal :: "(string \<Rightarrow> int \<Rightarrow> int) \<Rightarrow> properties \<Rightarrow> tikvConfig \<Rightarrow> tikvConfig" where
  "tikv_UpdateGlobal GetUint p c =
     (let c = c\<lparr>GrpcConnectionCount := GetUint ''tikv.conncount'' 128, MaxBatchSize := GetUint ''tikv.batchsize'' 128\<rparr>;
          ca = GetString p ''tikv.cluster-ssl-ca'' [];
          c = (if ca \<noteq> [] then c\<lparr>ClusterSSLCA := ca\<rparr> else c);
          cert = GetString p ''tikv.cluster-ssl-cert'' [];
          c = (if cert \<noteq> [] then c\<lparr>ClusterSSLCert := cert\<rparr> else c);
          key = GetString p ''tikv.cluster-ssl-key'' []
      in if key \<noteq> [] then c\<lparr>ClusterSSLKey := key\<rparr> else c)"

definition tikv_Create ::
  "(string \<Rightarrow> int \<Rightarrow> int) \<Rightarrow> 's rawkv_new \<Rightarrow> (string list \<Rightarrow> goerror + 'u) \<Rightarrow> properties \<Rightarrow> tikvConfig \<Rightarrow>
     (goerror + ('s rawDB + 'u txnDB)) outcome \<times> tikvConfig" where
  "tikv_Create GetUint N NewClient p c =
     (let tp = GetString p ''tikv.type'' ''raw''
      in (if tp = ''raw'' then obind (createRawDB N p) (\<lambda>res. Ret (map_sum id Inl res))
          else if tp = ''txn'' then obind (createTxnDB NewClient p) (\<lambda>res. Ret (map_sum id Inr res))
          else Ret (Inl (''unsupported type '' @ tp)), tikv_UpdateGlobal GetUint p c))"

definition txn_Close :: "('s, 't) txnkv \<Rightarrow> ('s txnDB, goerror option) dbop" where
  "txn_Close K d = (let (e, s) = txnkv_Close K (txn_db d) in Ret (e, d\<lparr>txn_db := s\<rparr>))"

definition txn_InitThread :: "int \<Rightarrow> int \<Rightarrow> ('s txnDB, unit) dbop" where
  "txn_InitThread i n d = Ret ((), d)"

definition txn_CleanupThread :: "unit \<Rightarrow> 's txnDB \<Rightarrow> 's txnDB outcome" where
  "txn_CleanupThread c d = Ret d"

definition beginTxn :: "('s, 't) txnkv \<Rightarrow> txnConfig \<Rightarrow> 's \<Rightarrow> goerror + 't" where
  "beginTxn K cfg s = (case txnkv_Begin K s of
       Inl err \<Rightarrow> Inl err
     | Inr txn \<Rightarrow> Inr (SetEnable1PC K (onePC cfg) (SetEnableAsyncCommit K (asyncCommit cfg) txn)))"

text \<open>The deferred rollback, which runs when the function returns.\<close>

definition txn_rollback :: "('s, 't) txnkv \<Rightarrow> 't \<Rightarrow> 's txnDB \<Rightarrow> 's txnDB" where
  "txn_rollback K tx d = d\<lparr>txn_db := tx_Rollback K tx (txn_db d)\<rparr>"

text \<open>The return of the commit's error, with the deferred rollback behind it.\<close>

definition txn_commit :: "('s, 't) txnkv \<Rightarrow> 't \<Rightarrow> 's txnDB \<Rightarrow> goerror option \<times> 's txnDB" where
  "txn_commit K tx d = (let (e, tx, s) = tx_Commit K tx (txn_db d) in (e, txn_rollback K tx (d\<lparr>txn_db := s\<rparr>)))"

definition txn_Read :: "('s, 't) txnkv \<Rightarrow> unit \<Rightarrow> string \<Rightarrow> string \<Rightarrow> string list \<Rightarrow> ('s txnDB, goerror + row) dbop" where
  "txn_Read K c table key flds d = (case txnkv_Begin K (txn_db d) of
       Inl err \<Rightarrow> Ret (Inl err, d)
     | Inr tx \<Rightarrow>
         let (row, err) = tx_Get K (getRowKey table key) tx
         in if IsErrNotFound K err then Ret (Inr [], txn_rollback K tx d)
            else case row of
                None \<Rightarrow> Ret (case err of None \<Rightarrow> Inr [] | Some e \<Rightarrow> Inl e, txn_rollback K tx d)
              | Some row \<Rightarrow> (case txn_commit K tx d of
                    (Some err, d) \<Rightarrow> Ret (Inl err, d)
                  | (None, d) \<Rightarrow> obind (Decode (txn_r d) row flds) (\<lambda>res. Ret (res, d))))"

fun txn_batch_rows :: "('s, 't) txnkv \<Rightarrow> RowCodec \<Rightarrow> string \<Rightarrow> string list \<Rightarrow> 't \<Rightarrow> string list \<Rightarrow> (goerror + row list) outcome" where
  "txn_batch_rows K r table flds tx [] = Ret (Inr [])"
| "txn_batch_rows K r table flds tx (key # keys) =
     (let (val, err) = tx_Get K (getRowKey table key) tx
      in obind (if IsErrNotFound K err \<or> val = None then Ret (Inr []) else Decode r (the val) flds) (\<lambda>res. case res of
           Inl err \<Rightarrow> Ret (Inl err)
         | Inr m \<Rightarrow> obind (txn_batch_rows K r table flds tx keys) (\<lambda>res. case res of Inl err \<Rightarrow> Ret (Inl err) | Inr ms \<Rightarrow> Ret (Inr (m # ms)))))"

definition txn_BatchRead :: "('s, 't) txnkv \<Rightarrow> unit \<Rightarrow> string \<Rightarrow> string list \<Rightarrow> string list \<Rightarrow> ('s txnDB, goerror + row list) dbop" where
  "txn_BatchRead K c table keys flds d = (case txnkv_Begin K (txn_db d) of
       Inl err \<Rightarrow> Ret (Inl err, d)
     | Inr tx \<Rightarrow> obind (txn_batch_rows K (txn_r d) table flds tx keys) (\<lambda>res. Ret (res, txn_rollback K tx d)))"

text \<open>The loops over an iterator: the first entries, at most a given number, or the error of a \<^verbatim>\<open>Next\<close>.\<close>

fun iter_take :: "nat \<Rightarrow> (string \<times> bytes \<times> goerror option) list \<Rightarrow> goerror + (string \<times> bytes) list" where
  "iter_take 0 es = Inr []"
| "iter_take (Suc n) [] = Inr []"
| "iter_take (Suc n) ((k, v, e) # es) = (case e of
       Some err \<Rightarrow> Inl err
     | None \<Rightarrow> (case iter_take n es of Inl err \<Rightarrow> Inl err | Inr kvs \<Rightarrow> Inr ((k, v) # kvs)))"

definition txn_Scan :: "('s, 't) txnkv \<Rightarrow> unit \<Rightarrow> string \<Rightarrow> string \<Rightarrow> int \<Rightarrow> string list \<Rightarrow> ('s txnDB, goerror + row list) dbop" where
  "txn_Scan K c table startKey n flds d = (case txnkv_Begin K (txn_db d) of
       Inl err \<Rightarrow> Ret (Inl err, d)
     | Inr tx \<Rightarrow> (case tx_Iter K (getRowKey table startKey) [] tx of
           Inl err \<Rightarrow> Ret (Inl err, txn_rollback K tx d)
         | Inr it \<Rightarrow> if n < 0 then Panic ''makeslice: cap out of range'' else (case iter_take (nat n) it of
               Inl err \<Rightarrow> Ret (Inl err, txn_rollback K tx d)
             | Inr rows \<Rightarrow> (case txn_commit K tx d of
                   (Some err, d) \<Rightarrow> Ret (Inl err, d)
                 | (None, d) \<Rightarrow> obind (decode_rows (txn_r d) flds (map (Some \<circ> snd) rows)) (\<lambda>res. Ret (res, d))))))"

definition txn_Update :: "('s, 't) txnkv \<Rightarrow> unit \<Rightarrow> string \<Rightarrow> string \<Rightarrow> row \<Rightarrow> ('s txnDB, goerror option) dbop" where
  "txn_Update K c table key vals d =
     (let rowKey = getRowKey table key
      in case beginTxn K (txn_cfg d) (txn_db d) of
           Inl err \<Rightarrow> Ret (Some err, d)
         | Inr tx \<Rightarrow>
             let (row, err) = tx_Get K rowKey tx
             in if IsErrNotFound K err then Ret (None, txn_rollback K tx d)
                else case row of
                    None \<Rightarrow> Ret (err, txn_rollback K tx d)
                  | Some row \<Rightarrow> obind (Decode (txn_r d) row []) (\<lambda>res. case res of
                        Inl err \<Rightarrow> Ret (Some err, txn_rollback K tx d)
                      | Inr data \<Rightarrow>
                          let (buf, pl) = BufPool_Get (txn_bufPool d)
                          in case Encode (txn_r d) buf (map_assign data vals) of
                               Inl err \<Rightarrow> Ret (Some err, txn_rollback K tx (d\<lparr>txn_bufPool := BufPool_Put [] pl\<rparr>))
                             | Inr buf \<Rightarrow> (case tx_Set K rowKey buf tx of
                                   (Some err, tx) \<Rightarrow> Ret (Some err, txn_rollback K tx (d\<lparr>txn_bufPool := BufPool_Put buf pl\<rparr>))
                                 | (None, tx) \<Rightarrow> Ret (txn_commit K tx (d\<lparr>txn_bufPool := BufPool_Put buf pl\<rparr>)))))"

text \<open>The loop of the batch writes: the error, if any, and the transaction.\<close>

fun txn_batch_set :: "('s, 't) txnkv \<Rightarrow> RowCodec \<Rightarrow> string \<Rightarrow> string list \<Rightarrow> row list \<Rightarrow> 't \<Rightarrow> (goerror option \<times> 't) outcome" where
  "txn_batch_set K r table [] vals tx = Ret (None, tx)"
| "txn_batch_set K r table (key # keys) [] tx = Panic ''index out of range''"
| "txn_batch_set K r table (key # keys) (v # vals) tx = (case Encode r [] v of
       Inl err \<Rightarrow> Ret (Some err, tx)
     | Inr rowData \<Rightarrow> (case tx_Set K (getRowKey table key) rowData tx of
           (Some err, tx) \<Rightarrow> Ret (Some err, tx)
         | (None, tx) \<Rightarrow> txn_batch_set K r table keys vals tx))"

definition txn_BatchSet :: "('s, 't) txnkv \<Rightarrow> string \<Rightarrow> string list \<Rightarrow> row list \<Rightarrow> ('s txnDB, goerror option) dbop" where
  "txn_BatchSet K table keys vals d = (case beginTxn K (txn_cfg d) (txn_db d) of
       Inl err \<Rightarrow> Ret (Some err, d)
     | Inr tx \<Rightarrow> obind (txn_batch_set K (txn_r d) table keys vals tx) (\<lambda>(e, tx). case e of
           Some err \<Rightarrow> Ret (Some err, txn_rollback K tx d)
         | None \<Rightarrow> Ret (txn_commit K tx d)))"

definition txn_BatchUpdate :: "('s, 't) txnkv \<Rightarrow> unit \<Rightarrow> string \<Rightarrow> string list \<Rightarrow> row list \<Rightarrow> ('s txnDB, goerror option) dbop" where
  "txn_BatchUpdate K c table keys vals d = txn_BatchSet K table keys vals d"

definition txn_Insert :: "('s, 't) txnkv \<Rightarrow> unit \<Rightarrow> string \<Rightarrow> string \<Rightarrow> row \<Rightarrow> ('s txnDB, goerror option) dbop" where
  "txn_Insert K c table key vals d =
     (let (buf, pl) = BufPool_Get (txn_bufPool d)
      in case Encode (txn_r d) buf vals of
           Inl err \<Rightarrow> Ret (Some err, d\<lparr>txn_bufPool := BufPool_Put [] pl\<rparr>)
         | Inr buf \<Rightarrow>
             let d = d\<lparr>txn_bufPool := BufPool_Put buf pl\<rparr>
             in case beginTxn K (txn_cfg d) (txn_db d) of
                  Inl err \<Rightarrow> Ret (Some err, d)
                | Inr tx \<Rightarrow> (case tx_Set K (getRowKey table key) buf tx of
                    (Some err, tx) \<Rightarrow> Ret (Some err, txn_rollback K tx d)
                  | (None, tx) \<Rightarrow> Ret (txn_commit K tx d)))"

definition txn_BatchInsert :: "('s, 't) txnkv \<Rightarrow> unit \<Rightarrow> string \<Rightarrow> string list \<Rightarrow> row list \<Rightarrow> ('s txnDB, goerror option) dbop" where
  "txn_BatchInsert K c table keys vals d = txn_BatchSet K table keys vals d"

fun txn_delete_keys :: "('s, 't) txnkv \<Rightarrow> string list \<Rightarrow> 't \<Rightarrow> goerror option \<times> 't" where
  "txn_delete_keys K [] tx = (None, tx)"
| "txn_delete_keys K (key # keys) tx = (case tx_Delete K key tx of
       (Some err, tx) \<Rightarrow> (Some err, tx)
     | (None, tx) \<Rightarrow> txn_delete_keys K keys tx)"

definition txn_Delete :: "('s, 't) txnkv \<Rightarrow> unit \<Rightarrow> string \<Rightarrow> string \<Rightarrow> ('s txnDB, goerror option) dbop" where
  "txn_Delete K c table key d = (case beginTxn K (txn_cfg d) (txn_db d) of
       Inl err \<Rightarrow> Ret (Some err, d)
     | Inr tx \<Rightarrow> (case tx_Delete K (getRowKey table key) tx of
           (Some err, tx) \<Rightarrow> Ret (Some err, txn_rollback K tx d)
         | (None, tx) \<Rightarrow> Ret (txn_commit K tx d)))"

definition txn_BatchDelete :: "('s, 't) txnkv \<Rightarrow> unit \<Rightarrow> string \<Rightarrow> string list \<Rightarrow> ('s txnDB, goerror option) dbop" where
  "txn_BatchDelete K c table keys d = (case beginTxn K (txn_cfg d) (txn_db d) of
       Inl err \<Rightarrow> Ret (Some err, d)
     | Inr tx \<Rightarrow> (case txn_delete_keys K (map (getRowKey table) keys) tx of
           (Some err, tx) \<Rightarrow> Ret (Some err, txn_rollback K tx d)
         | (None, tx) \<Rightarrow> Ret (txn_commit K tx d)))"

partial_function (option) txn_count_loop :: "('s, 't) txnkv \<Rightarrow> 't \<Rightarrow> string \<Rightarrow> string \<Rightarrow> int \<Rightarrow> (goerror + int) option" where
  "txn_count_loop K tx startKey endKey n = (case tx_Iter K startKey endKey tx of
       Inl err \<Rightarrow> Some (Inl err)
     | Inr it \<Rightarrow> (case iter_take 10000 it of
           Inl err \<Rightarrow> Some (Inl err)
         | Inr kvs \<Rightarrow> (if length kvs < 10000 then Some (Inr (wrap64 (n + int (length kvs))))
             else txn_count_loop K tx (fst (List.last kvs) @ [CHR 0x00]) endKey (wrap64 (n + int (length kvs))))))"

definition txn_Count :: "('s, 't) txnkv \<Rightarrow> unit \<Rightarrow> string \<Rightarrow> ('s txnDB, goerror + int) dbop" where
  "txn_Count K c table d = (case txnkv_Begin K (txn_db d) of
       Inl err \<Rightarrow> Ret (Inl err, d)
     | Inr tx \<Rightarrow> let startKey = getRowKey table [] in case txn_count_loop K tx startKey (table_end startKey) 0 of
         None \<Rightarrow> Diverge
       | Some res \<Rightarrow> Ret (res, txn_rollback K tx d))"

text \<open>One round of \<^verbatim>\<open>Clean\<close>: the result of the function, or the start key of the next round.\<close>

definition txn_clean_round :: "('s, 't) txnkv \<Rightarrow> txnConfig \<Rightarrow> string \<Rightarrow> string \<Rightarrow> 's \<Rightarrow> (goerror option + string) \<times> 's" where
  "txn_clean_round K cfg startKey endKey s = (case beginTxn K cfg s of
       Inl err \<Rightarrow> (Inl (Some err), s)
     | Inr tx \<Rightarrow> (case tx_Iter K startKey endKey tx of
           Inl err \<Rightarrow> (Inl (Some err), tx_Rollback K tx s)
         | Inr it \<Rightarrow> (case iter_take 10000 it of
               Inl err \<Rightarrow> (Inl (Some err), tx_Rollback K tx s)
             | Inr kvs \<Rightarrow> if length kvs = 0 then (Inl None, tx_Rollback K tx s)
                 else (case txn_delete_keys K (map fst kvs) tx of
                     (Some err, tx) \<Rightarrow> (Inl (Some err), tx_Rollback K tx s)
                   | (None, tx) \<Rightarrow> (case tx_Commit K tx s of
                       (Some err, tx, s) \<Rightarrow> (Inl (Some err), s)
                     | (None, tx, s) \<Rightarrow> if length kvs < 10000 then (Inl None, s) else (Inr (fst (List.last kvs) @ [CHR 0x00]), s))))))"

partial_function (option) txn_clean_loop :: "('s, 't) txnkv \<Rightarrow> txnConfig \<Rightarrow> string \<Rightarrow> string \<Rightarrow> 's \<Rightarrow> (goerror option \<times> 's) option" where
  "txn_clean_loop K cfg startKey endKey s = (let r = txn_clean_round K cfg startKey endKey s in case fst r of
       Inl e \<Rightarrow> Some (e, snd r)
     | Inr startKey \<Rightarrow> txn_clean_loop K cfg startKey endKey (snd r))"

definition txn_Clean :: "('s, 't) txnkv \<Rightarrow> unit \<Rightarrow> string \<Rightarrow> ('s txnDB, goerror option) dbop" where
  "txn_Clean K c table d =
     (let startKey = getRowKey table [] in case txn_clean_loop K (txn_cfg d) startKey (table_end startKey) (txn_db d) of
        None \<Rightarrow> Diverge
      | Some (e, s) \<Rightarrow> Ret (e, d\<lparr>txn_db := s\<rparr>))"

definition txn_DB :: "('s, 't) txnkv \<Rightarrow> (unit, 's txnDB) DB" where
  "txn_DB K = \<lparr>db_Close = txn_Close K, db_InitThread = txn_InitThread, db_CleanupThread = txn_CleanupThread,
     db_Read = txn_Read K, db_Scan = txn_Scan K, db_Update = txn_Update K, db_Insert = txn_Insert K, db_Delete = txn_Delete K,
     db_Batch = Some \<lparr>BatchInsert = txn_BatchInsert K, BatchRead = txn_BatchRead K, BatchUpdate = txn_BatchUpdate K,
       BatchDelete = txn_BatchDelete K\<rparr>,
     db_Analyze = None, db_Count = Some (txn_Count K), db_Clean = Some (txn_Clean K)\<rparr>"

section \<open>The client library\<close>

text \<open>
  The documented behaviour of the transaction client: \<open>sf\<close> gives the rows of the cluster, \<open>tf\<close> the rows that a
  transaction sees, and \<open>tof t s\<close> says that \<open>t\<close> began in \<open>s\<close> and is not finished. A transaction reads its own writes and
  the rows at its begin; an entry is refused exactly if it is larger than \<open>room\<close>; an iterator gives the keys of the range
  in byte order; a commit makes the writes visible, a rollback drops them, and behind a commit it does nothing.
\<close>

definition txnkv_laws :: "int \<Rightarrow> ('s, 't) txnkv \<Rightarrow> ('s \<Rightarrow> flat) \<Rightarrow> ('t \<Rightarrow> flat) \<Rightarrow> ('t \<Rightarrow> 's \<Rightarrow> bool) \<Rightarrow> bool" where
  "txnkv_laws room K sf tf tof \<longleftrightarrow>
     (\<forall>s. finite (dom (sf s))) \<and>
     (\<forall>s. \<exists>t. txnkv_Begin K s = Inr t \<and> tof t s \<and> tf t = sf s) \<and>
     (\<forall>b t s. tof t s \<longrightarrow> tof (SetEnableAsyncCommit K b t) s \<and> tf (SetEnableAsyncCommit K b t) = tf t) \<and>
     (\<forall>b t s. tof t s \<longrightarrow> tof (SetEnable1PC K b t) s \<and> tf (SetEnable1PC K b t) = tf t) \<and>
     (\<forall>k v t s. tof t s \<longrightarrow> tf t k = Some v \<longrightarrow> tx_Get K k t = (Some v, None)) \<and>
     (\<forall>k t s. tof t s \<longrightarrow> tf t k = None \<longrightarrow> (\<exists>e. tx_Get K k t = (None, Some e) \<and> IsErrNotFound K (Some e))) \<and>
     \<not> IsErrNotFound K None \<and>
     (\<forall>a b t s. tof t s \<longrightarrow> tx_Iter K a b t = Inr (map (\<lambda>k. (k, the (tf t k), None)) (range_keys (tf t) a b))) \<and>
     (\<forall>k v t s. tof t s \<longrightarrow> k \<noteq> [] \<longrightarrow> v \<noteq> [] \<longrightarrow> (\<exists>e t'. tx_Set K k v t = (e, t') \<and> tof t' s \<and>
        (if int (length v) \<le> room then e = None \<and> tf t' = (tf t)(k \<mapsto> v) else e \<noteq> None))) \<and>
     (\<forall>k t s. tof t s \<longrightarrow> k \<noteq> [] \<longrightarrow> (\<exists>t'. tx_Delete K k t = (None, t') \<and> tof t' s \<and> tf t' = (tf t)(k := None))) \<and>
     (\<forall>t s. tof t s \<longrightarrow> (\<exists>t' s'. tx_Commit K t s = (None, t', s') \<and> sf s' = tf t \<and> sf (tx_Rollback K t' s') = sf s')) \<and>
     (\<forall>t s. tof t s \<longrightarrow> sf (tx_Rollback K t s) = sf s)"

lemmas txnkv_lawsD =
  txnkv_laws_def [THEN iffD1, THEN conjunct1, rule_format]
  txnkv_laws_def [THEN iffD1, THEN conjunct2, THEN conjunct1, rule_format]
  txnkv_laws_def [THEN iffD1, THEN conjunct2, THEN conjunct2, THEN conjunct1, rule_format]
  txnkv_laws_def [THEN iffD1, THEN conjunct2, THEN conjunct2, THEN conjunct2, THEN conjunct1, rule_format]
  txnkv_laws_def [THEN iffD1, THEN conjunct2, THEN conjunct2, THEN conjunct2, THEN conjunct2, THEN conjunct1, rule_format]
  txnkv_laws_def [THEN iffD1, THEN conjunct2, THEN conjunct2, THEN conjunct2, THEN conjunct2, THEN conjunct2, THEN conjunct1, rule_format]
  txnkv_laws_def [THEN iffD1, THEN conjunct2, THEN conjunct2, THEN conjunct2, THEN conjunct2, THEN conjunct2, THEN conjunct2, THEN conjunct1, rule_format]
  txnkv_laws_def [THEN iffD1, THEN conjunct2, THEN conjunct2, THEN conjunct2, THEN conjunct2, THEN conjunct2, THEN conjunct2, THEN conjunct2, THEN conjunct1, rule_format]
  txnkv_laws_def [THEN iffD1, THEN conjunct2, THEN conjunct2, THEN conjunct2, THEN conjunct2, THEN conjunct2, THEN conjunct2, THEN conjunct2, THEN conjunct2, THEN conjunct1, rule_format]
  txnkv_laws_def [THEN iffD1, THEN conjunct2, THEN conjunct2, THEN conjunct2, THEN conjunct2, THEN conjunct2, THEN conjunct2, THEN conjunct2, THEN conjunct2, THEN conjunct2, THEN conjunct1, rule_format]
  txnkv_laws_def [THEN iffD1, THEN conjunct2, THEN conjunct2, THEN conjunct2, THEN conjunct2, THEN conjunct2, THEN conjunct2, THEN conjunct2, THEN conjunct2, THEN conjunct2, THEN conjunct2, THEN conjunct1, rule_format]
  txnkv_laws_def [THEN iffD1, THEN conjunct2, THEN conjunct2, THEN conjunct2, THEN conjunct2, THEN conjunct2, THEN conjunct2, THEN conjunct2, THEN conjunct2, THEN conjunct2, THEN conjunct2, THEN conjunct2, rule_format]

lemma beginTxn_ok:
  assumes "txnkv_laws room K sf tf tof"
  shows "\<exists>t. beginTxn K cfg s = Inr t \<and> tof t s \<and> tf t = sf s"
proof -
  obtain t where t: "txnkv_Begin K s = Inr t" "tof t s" "tf t = sf s" using txnkv_lawsD(2) [OF assms] by blast
  note a = txnkv_lawsD(3) [OF assms t(2), of "asyncCommit cfg"]
  show ?thesis using t a txnkv_lawsD(4) [OF assms conjunct1 [OF a], of "onePC cfg"] by (simp add: beginTxn_def)
qed

lemma txn_commit_ok:
  assumes "txnkv_laws room K sf tf tof" "tof t (txn_db d)"
  shows "\<exists>s. txn_commit K t d = (None, d\<lparr>txn_db := s\<rparr>) \<and> sf s = tf t"
  using txnkv_lawsD(11) [OF assms] by (auto simp: txn_commit_def txn_rollback_def)

lemma txn_rollback_ok:
  assumes "txnkv_laws room K sf tf tof" "tof t (txn_db d)"
  shows "\<exists>s. txn_rollback K t d = d\<lparr>txn_db := s\<rparr> \<and> sf s = sf (txn_db d)"
  using txnkv_lawsD(12) [OF assms] by (auto simp: txn_rollback_def)

section \<open>The layer keeps its contract\<close>

definition txn_inv :: "nat \<Rightarrow> int \<Rightarrow> int \<Rightarrow> ('s, 't) txnkv \<Rightarrow> ('s \<Rightarrow> flat) \<Rightarrow> ('t \<Rightarrow> flat) \<Rightarrow> ('t \<Rightarrow> 's \<Rightarrow> bool) \<Rightarrow> 's txnDB \<Rightarrow> bool" where
  "txn_inv nf vmax room K sf tf tof d \<longleftrightarrow> txnkv_laws room K sf tf tof \<and> sizes_ok nf vmax room \<and> txn_r d = field_codec nf \<and>
     flat_encoded nf vmax (sf (txn_db d))"

lemma txn_invD:
  assumes "txn_inv nf vmax room K sf tf tof d"
  shows "txnkv_laws room K sf tf tof" "sizes_ok nf vmax room" "txn_r d = field_codec nf" "flat_encoded nf vmax (sf (txn_db d))"
  using assms by (simp_all add: txn_inv_def)

lemma txn_inv_world:
  assumes "txn_inv nf vmax room K sf tf tof d" "flat_encoded nf vmax (sf s)"
  shows "txn_inv nf vmax room K sf tf tof (d\<lparr>txn_db := s\<rparr>)" "txn_inv nf vmax room K sf tf tof (d\<lparr>txn_bufPool := pl, txn_db := s\<rparr>)"
  using assms by (simp_all add: txn_inv_def)

text \<open>A transaction that stores one encoded row.\<close>

lemma txn_set_ok:
  assumes "txn_inv nf vmax room K sf tf tof d" "tof t (txn_db d)" "tf t = sf (txn_db d)"
    and "row_fits nf vmax v" "Encode (field_codec nf) [] v = Inr b" "int (length b) \<le> room"
  shows "\<exists>t' s. tx_Set K (getRowKey tb k) b t = (None, t') \<and> txn_commit K t' (d\<lparr>txn_bufPool := pl\<rparr>) = (None, d\<lparr>txn_bufPool := pl, txn_db := s\<rparr>) \<and>
    sf s = (sf (txn_db d))(getRowKey tb k \<mapsto> b) \<and> flat_encoded nf vmax (sf s)"
proof -
  note d = txn_invD [OF assms(1)]
  obtain e t' where t': "tx_Set K (getRowKey tb k) b t = (e, t')" "tof t' (txn_db d)"
    "if int (length b) \<le> room then e = None \<and> tf t' = (tf t)(getRowKey tb k \<mapsto> b) else e \<noteq> None"
    using txnkv_lawsD(9) [OF d(1) assms(2) getRowKey_nonempty Encode_nonempty [OF assms(5)]] by blast
  have "tof t' (txn_db (d\<lparr>txn_bufPool := pl\<rparr>))" using t'(2) by simp
  from txn_commit_ok [OF d(1) this] obtain s where "txn_commit K t' (d\<lparr>txn_bufPool := pl\<rparr>) = (None, d\<lparr>txn_bufPool := pl, txn_db := s\<rparr>)" "sf s = tf t'"
    by auto
  then show ?thesis using t' assms(3,6) flat_encoded_put [OF d(4) assms(4,5)] by auto
qed

lemma txn_Insert_ok:
  assumes "txn_inv nf vmax room K sf tf tof d" "row_fits nf vmax v" "Encode (field_codec nf) [] v = Inr b" "int (length b) \<le> room"
  shows "\<exists>d'. txn_Insert K c t k v d = Ret (None, d') \<and> txn_inv nf vmax room K sf tf tof d' \<and> sf (txn_db d') = (sf (txn_db d))(getRowKey t k \<mapsto> b)"
proof -
  note d = txn_invD [OF assms(1)]
  obtain pl where pl: "BufPool_Get (txn_bufPool d) = ([], pl)" by (rule BufPool_Get_obtain)
  obtain tx where tx: "beginTxn K (txn_cfg d) (txn_db d) = Inr tx" "tof tx (txn_db d)" "tf tx = sf (txn_db d)" using beginTxn_ok [OF d(1)] by blast
  obtain t' s where s: "tx_Set K (getRowKey t k) b tx = (None, t')"
    "txn_commit K t' (d\<lparr>txn_bufPool := BufPool_Put b pl\<rparr>) = (None, d\<lparr>txn_bufPool := BufPool_Put b pl, txn_db := s\<rparr>)"
    "sf s = (sf (txn_db d))(getRowKey t k \<mapsto> b)" "flat_encoded nf vmax (sf s)"
    using txn_set_ok [OF assms(1) tx(2,3) assms(2-4)] by blast
  show ?thesis
    using txn_inv_world(2) [OF assms(1) s(4)] s(1-3) tx(1) assms(3) by (simp add: txn_Insert_def pl d(3) Let_def)
qed

lemma txn_Read_ok:
  assumes "txn_inv nf vmax room K sf tf tof d"
  shows "\<exists>d'. txn_inv nf vmax room K sf tf tof d' \<and> sf (txn_db d') = sf (txn_db d) \<and>
    txn_Read K c t k fs d = (case sf (txn_db d) (getRowKey t k) of
       None \<Rightarrow> Ret (Inr [], d')
     | Some b \<Rightarrow> obind (Decode (field_codec nf) b fs) (\<lambda>res. Ret (res, d')))"
proof -
  note d = txn_invD [OF assms]
  obtain tx where tx: "txnkv_Begin K (txn_db d) = Inr tx" "tof tx (txn_db d)" "tf tx = sf (txn_db d)" using txnkv_lawsD(2) [OF d(1)] by blast
  show ?thesis
  proof (cases "sf (txn_db d) (getRowKey t k)")
    case None
    then obtain e where "tx_Get K (getRowKey t k) tx = (None, Some e)" "IsErrNotFound K (Some e)"
      using txnkv_lawsD(6) [OF d(1) tx(2), of "getRowKey t k"] tx(3) by auto
    moreover obtain s where "txn_rollback K tx d = d\<lparr>txn_db := s\<rparr>" "sf s = sf (txn_db d)" using txn_rollback_ok [OF d(1) tx(2)] by blast
    ultimately show ?thesis using None tx(1) txn_inv_world(1) [OF assms] d(4)
      by (intro exI [of _ "d\<lparr>txn_db := s\<rparr>"]) (simp add: txn_Read_def)
  next
    case (Some b)
    then have "tx_Get K (getRowKey t k) tx = (Some b, None)" using txnkv_lawsD(5) [OF d(1) tx(2)] tx(3) by simp
    moreover obtain s where "txn_commit K tx d = (None, d\<lparr>txn_db := s\<rparr>)" "sf s = sf (txn_db d)"
      using txn_commit_ok [OF d(1) tx(2)] tx(3) by auto
    ultimately show ?thesis using Some tx(1) txn_inv_world(1) [OF assms] d(3,4) txnkv_lawsD(7) [OF d(1)]
      by (intro exI [of _ "d\<lparr>txn_db := s\<rparr>"]) (simp add: txn_Read_def)
  qed
qed

lemma txn_Update_Some:
  assumes "txn_inv nf vmax room K sf tf tof d" "sf (txn_db d) (getRowKey t k) = Some b" "Decode (field_codec nf) b [] = Ret (Inr data)"
    and "row_fits nf vmax (map_assign data v)" "Encode (field_codec nf) [] (map_assign data v) = Inr b'" "int (length b') \<le> room"
  shows "\<exists>d'. txn_Update K c t k v d = Ret (None, d') \<and> txn_inv nf vmax room K sf tf tof d' \<and> sf (txn_db d') = (sf (txn_db d))(getRowKey t k \<mapsto> b')"
proof -
  note d = txn_invD [OF assms(1)]
  obtain pl where pl: "BufPool_Get (txn_bufPool d) = ([], pl)" by (rule BufPool_Get_obtain)
  obtain tx where tx: "beginTxn K (txn_cfg d) (txn_db d) = Inr tx" "tof tx (txn_db d)" "tf tx = sf (txn_db d)" using beginTxn_ok [OF d(1)] by blast
  have get: "tx_Get K (getRowKey t k) tx = (Some b, None)" using txnkv_lawsD(5) [OF d(1) tx(2)] tx(3) assms(2) by simp
  obtain t' s where s: "tx_Set K (getRowKey t k) b' tx = (None, t')"
    "txn_commit K t' (d\<lparr>txn_bufPool := BufPool_Put b' pl\<rparr>) = (None, d\<lparr>txn_bufPool := BufPool_Put b' pl, txn_db := s\<rparr>)"
    "sf s = (sf (txn_db d))(getRowKey t k \<mapsto> b')" "flat_encoded nf vmax (sf s)"
    using txn_set_ok [OF assms(1) tx(2,3) assms(4-6)] by blast
  show ?thesis
    using txn_inv_world(2) [OF assms(1) s(4)] s(1-3) tx(1) assms(3,5) get txnkv_lawsD(7) [OF d(1)]
    by (simp add: txn_Update_def pl d(3) Let_def)
qed

lemma txn_Update_None:
  assumes "txn_inv nf vmax room K sf tf tof d" "sf (txn_db d) (getRowKey t k) = None"
  shows "\<exists>d'. txn_Update K c t k v d = Ret (None, d') \<and> txn_inv nf vmax room K sf tf tof d' \<and> sf (txn_db d') = sf (txn_db d)"
proof -
  note d = txn_invD [OF assms(1)]
  obtain tx where tx: "beginTxn K (txn_cfg d) (txn_db d) = Inr tx" "tof tx (txn_db d)" "tf tx = sf (txn_db d)" using beginTxn_ok [OF d(1)] by blast
  obtain e where "tx_Get K (getRowKey t k) tx = (None, Some e)" "IsErrNotFound K (Some e)"
    using txnkv_lawsD(6) [OF d(1) tx(2), of "getRowKey t k"] tx(3) assms(2) by auto
  moreover obtain s where "txn_rollback K tx d = d\<lparr>txn_db := s\<rparr>" "sf s = sf (txn_db d)" using txn_rollback_ok [OF d(1) tx(2)] by blast
  ultimately show ?thesis using tx(1) txn_inv_world(1) [OF assms(1)] d(4) by (simp add: txn_Update_def)
qed

lemma iter_take_ok: "iter_take n (map (\<lambda>k. (k, f k, None)) ks) = Inr (map (\<lambda>k. (k, f k)) (take n ks))"
proof (induction ks arbitrary: n)
  case (Cons k ks)
  then show ?case by (cases n) auto
next
  case Nil
  then show ?case by (cases n) auto
qed

lemma iter_take_Nil [simp]: "iter_take n [] = Inr []"
  by (cases n) simp_all

lemma txn_Scan_ok:
  assumes "txn_inv nf vmax room K sf tf tof d" "\<forall>key b. sf (txn_db d) key = Some b \<longrightarrow> (\<exists>row. Decode (field_codec nf) b fs = Ret (Inr row))"
  shows "if n < 0 then txn_Scan K c t k n fs d = Panic ''makeslice: cap out of range'' else
    \<exists>rows d'. txn_Scan K c t k n fs d = Ret (Inr rows, d') \<and> txn_inv nf vmax room K sf tf tof d' \<and> sf (txn_db d') = sf (txn_db d) \<and>
      list_all2 (\<lambda>key row. Decode (field_codec nf) (the (sf (txn_db d) key)) fs = Ret (Inr row))
        (take (nat n) (range_keys (sf (txn_db d)) (getRowKey t k) [])) rows"
proof -
  note d = txn_invD [OF assms(1)]
  obtain tx where tx: "txnkv_Begin K (txn_db d) = Inr tx" "tof tx (txn_db d)" "tf tx = sf (txn_db d)" using txnkv_lawsD(2) [OF d(1)] by blast
  let ?ks = "take (nat n) (range_keys (sf (txn_db d)) (getRowKey t k) [])"
  have it: "tx_Iter K (getRowKey t k) [] tx = Inr (map (\<lambda>k. (k, the (sf (txn_db d) k), None)) (range_keys (sf (txn_db d)) (getRowKey t k) []))"
    using txnkv_lawsD(8) [OF d(1) tx(2)] tx(3) by simp
  obtain s where s: "txn_commit K tx d = (None, d\<lparr>txn_db := s\<rparr>)" "sf s = sf (txn_db d)" using txn_commit_ok [OF d(1) tx(2)] tx(3) by auto
  have keys: "set ?ks \<subseteq> dom (sf (txn_db d))"
    using set_range_keys [OF txnkv_lawsD(1) [OF d(1)], of "txn_db d" "getRowKey t k" "[]"] set_take_subset by fastforce
  have "\<exists>row. Decode (field_codec nf) b fs = Ret (Inr row)" if b: "Some b \<in> set (map (\<lambda>k. Some (the (sf (txn_db d) k))) ?ks)" for b
  proof -
    obtain key where "key \<in> set ?ks" "b = the (sf (txn_db d) key)" using b by auto
    with keys have "sf (txn_db d) key = Some b" by auto
    then show ?thesis using assms(2) by blast
  qed
  from decode_rows_total [of "map (\<lambda>k. Some (the (sf (txn_db d) k))) ?ks", OF this] obtain rows where "decode_rows (field_codec nf) fs (map (\<lambda>k. Some (the (sf (txn_db d) k))) ?ks) = Ret (Inr rows)"
    "list_all2 (\<lambda>key row. Decode (field_codec nf) (the (sf (txn_db d) key)) fs = Ret (Inr row)) ?ks rows"
    by (auto simp: list_all2_map1)
  then show ?thesis
    using s txn_inv_world(1) [OF assms(1), of s] d(3,4) by (simp add: txn_Scan_def tx(1) it iter_take_ok comp_def)
qed

interpretation ttxn: flat_layer nf vmax room flat_key_ok "txn_DB K" "txn_inv nf vmax room K sf tf tof" "\<lambda>d. sf (txn_db d)"
proof (unfold_locales, goal_cases)
  case (1 t k)
  then show ?case by (simp add: flat_key_ok_def)
next
  case (2 d)
  then show ?case by (rule txn_invD(2))
next
  case (3 d)
  then show ?case by (rule txn_invD(4))
next
  case (4 d t k v b c)
  then show ?case using txn_Insert_ok [OF 4(1,3-5), of c t k] by (simp add: txn_DB_def)
next
  case (5 d t k b fs row c)
  then show ?case using txn_Read_ok [OF 5(1), of c t k fs] by (auto simp: txn_DB_def)
next
  case (6 d t k c fs)
  then show ?case using txn_Read_ok [OF 6(1), of c t k fs] by (auto simp: txn_DB_def)
next
  case (7 d t k v b data b' c)
  then show ?case using txn_Update_Some [OF 7(1) 7(4-8), of c] by (simp add: txn_DB_def)
next
  case (8 d t k v b c)
  then show ?case using txn_Update_None [OF 8(1,5), of c v] by (auto simp: txn_DB_def)
next
  case (9 d i m)
  then show ?case by (auto simp: txn_DB_def txn_InitThread_def)
next
  case (10 d fs c t k n)
  have "\<forall>key b. sf (txn_db d) key = Some b \<longrightarrow> (\<exists>row. Decode (field_codec nf) b fs = Ret (Inr row))" using 10(2) by blast
  from txn_Scan_ok [OF 10(1) this, of n c t k] show ?case by (cases "n < 0") (auto simp: txn_DB_def)
qed

interpretation ttxnm: measured_database nf vmax flat_key_ok "txn_DB K" "txn_inv nf vmax room K sf tf tof"
  "\<lambda>d. rows_of nf (flat_tables (sf (txn_db d)))" H
  for nf vmax room and K :: "('s, 't) txnkv" and sf tf tof and H :: "'h hdrlib"
  by unfold_locales

section \<open>Counting and cleaning\<close>

lemma txn_count_loop_spec:
  assumes "txnkv_laws room K sf tf tof" "tof t s" "tf t = sf s" "0 \<le> n" "n + int (length (range_keys (sf s) a b)) \<le> max64"
  shows "txn_count_loop K t a b n = Some (Inr (n + int (length (range_keys (sf s) a b))))"
  using assms(4,5)
proof (induction "length (range_keys (sf s) a b)" arbitrary: a n rule: less_induct)
  case less
  let ?R = "range_keys (sf s) a b"
  note it = txnkv_lawsD(8) [OF assms(1,2), of a b, unfolded assms(3)]
  show ?case
  proof (cases "length ?R < 10000")
    case True
    moreover have "wrap64 (n + int (length ?R)) = n + int (length ?R)" using less.prems by (simp add: wrap64_id in64_def)
    ultimately show ?thesis by (subst txn_count_loop.simps) (simp add: it iter_take_ok)
  next
    case False
    then have len: "length (take 10000 ?R) = 10000" by simp
    then have last: "fst (List.last (map (\<lambda>k. (k, the (sf s k))) (take 10000 ?R))) = List.last (take 10000 ?R)"
      by (subst last_map) auto
    have rest: "range_keys (sf s) (List.last (take 10000 ?R) @ [CHR 0x00]) b = drop 10000 ?R"
      by (rule range_keys_drop [OF txnkv_lawsD(1) [OF assms(1)]]) (use False in simp_all)
    have "wrap64 (n + 10000) = n + 10000" using less.prems False by (simp add: wrap64_id in64_def)
    moreover have "txn_count_loop K t (List.last (take 10000 ?R) @ [CHR 0x00]) b (n + 10000) =
        Some (Inr (n + 10000 + int (length (drop 10000 ?R))))"
      using less.hyps [of "List.last (take 10000 ?R) @ [CHR 0x00]" "n + 10000"] less.prems False unfolding rest by simp
    ultimately show ?thesis using False len last by (subst txn_count_loop.simps) (simp add: it iter_take_ok)
  qed
qed

lemma txn_Count_ok:
  assumes "txnkv_laws room K sf tf tof" "CHR '':'' \<notin> set t" "n = card {k \<in> dom (flat_tables (sf (txn_db d)) t). counted k}" "int n \<le> max64"
  shows "\<exists>s. txn_Count K c t d = Ret (Inr (int n), d\<lparr>txn_db := s\<rparr>) \<and> sf s = sf (txn_db d)"
proof -
  obtain tx where tx: "txnkv_Begin K (txn_db d) = Inr tx" "tof tx (txn_db d)" "tf tx = sf (txn_db d)" using txnkv_lawsD(2) [OF assms(1)] by blast
  have "length (range_keys (sf (txn_db d)) (getRowKey t []) (table_end (getRowKey t []))) = n"
    using range_table [OF txnkv_lawsD(1) [OF assms(1)] assms(2)] assms(3) by simp
  then have "txn_count_loop K tx (getRowKey t []) (table_end (getRowKey t [])) 0 = Some (Inr (int n))"
    using txn_count_loop_spec [OF assms(1) tx(2,3), of 0 "getRowKey t []" "table_end (getRowKey t [])"] assms(4) by simp
  then show ?thesis using txn_rollback_ok [OF assms(1) tx(2)] tx(1) by (auto simp: txn_Count_def)
qed

lemma txn_delete_keys_ok:
  assumes "txnkv_laws room K sf tf tof" "tof t s" "[] \<notin> set ks"
  shows "\<exists>t'. txn_delete_keys K ks t = (None, t') \<and> tof t' s \<and> tf t' = tf t |` (- set ks)"
  using assms(2,3)
proof (induction ks arbitrary: t)
  case (Cons k ks)
  then have "k \<noteq> []" by auto
  from txnkv_lawsD(10) [OF assms(1) Cons.prems(1) this] obtain t1 where t1: "tx_Delete K k t = (None, t1)" "tof t1 s" "tf t1 = (tf t)(k := None)" by blast
  from Cons.IH [OF t1(2)] Cons.prems(2) obtain t' where "txn_delete_keys K ks t1 = (None, t')" "tof t' s" "tf t' = tf t1 |` (- set ks)" by auto
  moreover have "(tf t)(k := None) |` (- set ks) = tf t |` (- set (k # ks))" by (auto simp: restrict_map_def fun_eq_iff)
  ultimately show ?case using t1 by simp
qed (simp add: restrict_map_def)

lemma txn_clean_round_ok:
  assumes "txnkv_laws room K sf tf tof" "a \<noteq> []" "R = range_keys (sf s) a b"
  shows "\<exists>s'. txn_clean_round K cfg a b s = (if length R < 10000 then Inl None else Inr (List.last (take 10000 R) @ [CHR 0x00]), s') \<and>
    sf s' = sf s |` (- set (take 10000 R))"
proof -
  obtain t where t: "beginTxn K cfg s = Inr t" "tof t s" "tf t = sf s" using beginTxn_ok [OF assms(1)] by blast
  note it = txnkv_lawsD(8) [OF assms(1) t(2), of a b, unfolded t(3) assms(3) [symmetric]]
  show ?thesis
  proof (cases "R = []")
    case True
    then show ?thesis using t it txnkv_lawsD(12) [OF assms(1) t(2)] by (simp add: txn_clean_round_def iter_take_ok restrict_map_def)
  next
    case False
    have "[] \<notin> set R" using assms(2) by (auto simp: assms(3) set_range_keys [OF txnkv_lawsD(1) [OF assms(1)]])
    then have "[] \<notin> set (take 10000 R)" by (meson in_set_takeD)
    from txn_delete_keys_ok [OF assms(1) t(2) this] obtain t1 where t1: "txn_delete_keys K (take 10000 R) t = (None, t1)" "tof t1 s"
      "tf t1 = sf s |` (- set (take 10000 R))" using t(3) by auto
    obtain t2 s' where s': "tx_Commit K t1 s = (None, t2, s')" "sf s' = tf t1" using txnkv_lawsD(11) [OF assms(1) t1(2)] by blast
    have "fst (List.last (map (\<lambda>k. (k, the (sf s k))) (take 10000 R))) = List.last (take 10000 R)" using False by (subst last_map) auto
    then show ?thesis using t(1) it t1 s' False by (auto simp: txn_clean_round_def iter_take_ok comp_def)
  qed
qed

text \<open>The range behind a batch, with the batch removed.\<close>

lemma range_keys_cleaned:
  assumes "finite (dom F)" "R = range_keys F a b" "10000 \<le> length R" "a' = List.last (take 10000 R) @ [CHR 0x00]" "G = F |` (- set (take 10000 R))"
    and "b \<noteq> []"
  shows "range_keys G a' b = drop 10000 R" "G |` {k. \<not> (a' \<le> k \<and> k < b)} = F |` {k. \<not> (a \<le> k \<and> k < b)}"
proof -
  have rest: "range_keys F a' b = drop 10000 R" unfolding assms(2,4) by (rule range_keys_drop) (use assms in simp_all)
  have dis: "set (take 10000 R) \<inter> set (drop 10000 R) = {}"
    by (rule set_take_disj_set_drop_if_distinct) (simp_all add: assms(2) range_keys_def)
  have R: "set R = {k \<in> dom F. a \<le> k \<and> k < b}" "set (drop 10000 R) = {k \<in> dom F. a' \<le> k \<and> k < b}"
    using set_range_keys [OF assms(1), of a b] set_range_keys [OF assms(1), of a' b] assms(2,6) rest by auto
  have un: "set R = set (take 10000 R) \<union> set (drop 10000 R)" by (metis append_take_drop_id set_append)
  have "{k \<in> dom G. a' \<le> k \<and> k < b} = {k \<in> dom F. a' \<le> k \<and> k < b}" using dis R(2) by (auto simp: assms(5))
  then show "range_keys G a' b = drop 10000 R" using rest assms(6) by (simp add: range_keys_def)
  have "(k \<in> set (take 10000 R) \<or> a' \<le> k \<and> k < b) \<longleftrightarrow> a \<le> k \<and> k < b" if "k \<in> dom F" for k
    using that R un by blast
  then have "(G |` {k. \<not> (a' \<le> k \<and> k < b)}) k = (F |` {k. \<not> (a \<le> k \<and> k < b)}) k" for k
    by (cases "F k") (auto simp: assms(5) restrict_map_def)
  then show "G |` {k. \<not> (a' \<le> k \<and> k < b)} = F |` {k. \<not> (a \<le> k \<and> k < b)}" by (rule ext)
qed

lemma txn_clean_loop_spec:
  assumes "txnkv_laws room K sf tf tof" "b \<noteq> []" "a \<noteq> []"
  shows "\<exists>s'. txn_clean_loop K cfg a b s = Some (None, s') \<and> sf s' = sf s |` {k. \<not> (a \<le> k \<and> k < b)}"
  using assms(3)
proof (induction "length (range_keys (sf s) a b)" arbitrary: a s rule: less_induct)
  case less
  define R where "R = range_keys (sf s) a b"
  note fin = txnkv_lawsD(1) [OF assms(1), of s]
  obtain s1 where s1: "txn_clean_round K cfg a b s = (if length R < 10000 then Inl None else Inr (List.last (take 10000 R) @ [CHR 0x00]), s1)"
    "sf s1 = sf s |` (- set (take 10000 R))" using txn_clean_round_ok [OF assms(1) less.prems R_def] by blast
  show ?case
  proof (cases "length R < 10000")
    case True
    then have "sf s1 = sf s |` {k. \<not> (a \<le> k \<and> k < b)}"
      using s1(2) set_range_keys [OF fin, of a b] assms(2) by (auto simp: R_def restrict_map_def fun_eq_iff)
    then show ?thesis using s1(1) True by (subst txn_clean_loop.simps) simp
  next
    case False
    define a' where "a' = List.last (take 10000 R) @ [CHR 0x00]"
    note cl = range_keys_cleaned [OF fin R_def _ a'_def s1(2) assms(2)]
    have "length (range_keys (sf s1) a' b) < length (range_keys (sf s) a b)" using cl(1) False by (simp add: R_def [symmetric])
    from less.hyps [OF this] obtain s2 where "txn_clean_loop K cfg a' b s1 = Some (None, s2)" "sf s2 = sf s1 |` {k. \<not> (a' \<le> k \<and> k < b)}"
      by (auto simp: a'_def)
    then show ?thesis using s1(1) False cl(2) by (subst txn_clean_loop.simps) (simp add: a'_def [symmetric])
  qed
qed

section \<open>Batches\<close>

text \<open>The writes of a batch in the transaction: the state of the transaction after the rows that were accepted.\<close>

lemma txn_batch_set_ok:
  assumes "txnkv_laws room K sf tf tof" "tof t s" "length ks = length vs"
  shows "\<exists>e t'. txn_batch_set K (field_codec nf) tb ks vs t = Ret (e, t') \<and> tof t' s \<and>
    (e = None \<longrightarrow> (\<exists>bs. list_all2 (\<lambda>v b. Encode (field_codec nf) [] v = Inr b \<and> int (length b) \<le> room) vs bs \<and>
       tf t' = tf t ++ map_of (rev (zip (map (getRowKey tb) ks) bs)))) \<and>
    (e \<noteq> None \<longrightarrow> (\<exists>v \<in> set vs. \<exists>b. Encode (field_codec nf) [] v = Inr b \<and> room < int (length b)))"
  using assms(3,2)
proof (induction ks vs arbitrary: t rule: list_induct2)
  case Nil
  then show ?case by simp
next
  case (Cons k ks v vs)
  obtain b where b: "Encode (field_codec nf) [] v = Inr b" using fc.enc_obtain by blast
  obtain e t1 where t1: "tx_Set K (getRowKey tb k) b t = (e, t1)" "tof t1 s"
    "if int (length b) \<le> room then e = None \<and> tf t1 = (tf t)(getRowKey tb k \<mapsto> b) else e \<noteq> None"
    using txnkv_lawsD(9) [OF assms(1) Cons.prems getRowKey_nonempty Encode_nonempty [OF b]] by blast
  show ?case
  proof (cases "int (length b) \<le> room")
    case True
    obtain e' t' where t': "txn_batch_set K (field_codec nf) tb ks vs t1 = Ret (e', t')" "tof t' s"
      "e' = None \<longrightarrow> (\<exists>bs. list_all2 (\<lambda>v b. Encode (field_codec nf) [] v = Inr b \<and> int (length b) \<le> room) vs bs \<and>
         tf t' = tf t1 ++ map_of (rev (zip (map (getRowKey tb) ks) bs)))"
      "e' \<noteq> None \<longrightarrow> (\<exists>v \<in> set vs. \<exists>b. Encode (field_codec nf) [] v = Inr b \<and> room < int (length b))" using Cons.IH [OF t1(2)] by blast
    have "\<exists>bs'. list_all2 (\<lambda>v b. Encode (field_codec nf) [] v = Inr b \<and> int (length b) \<le> room) (v # vs) bs' \<and>
        tf t' = tf t ++ map_of (rev (zip (map (getRowKey tb) (k # ks)) bs'))" if ok: "e' = None"
    proof -
      obtain bs where bs: "list_all2 (\<lambda>v b. Encode (field_codec nf) [] v = Inr b \<and> int (length b) \<le> room) vs bs"
        "tf t' = tf t1 ++ map_of (rev (zip (map (getRowKey tb) ks) bs))" using t'(3) ok by blast
      show ?thesis using bs t1(3) True b by (intro exI [of _ "b # bs"]) simp
    qed
    then show ?thesis using t' t1(1,3) True b by auto
  next
    case False
    then show ?thesis using t1 b by (cases e) auto
  qed
qed

section \<open>A concrete store\<close>

definition map_txnkv :: "int \<Rightarrow> ((string, bytes) fmap, (string, bytes) fmap) txnkv" where
  "map_txnkv room = \<lparr>txnkv_Close = (\<lambda>s. (None, s)), txnkv_Begin = (\<lambda>s. Inr s), SetEnableAsyncCommit = (\<lambda>b t. t), SetEnable1PC = (\<lambda>b t. t),
     tx_Get = (\<lambda>k t. case fmlookup t k of None \<Rightarrow> (None, Some ''not exist'') | Some v \<Rightarrow> (Some v, None)),
     tx_Iter = (\<lambda>a b t. Inr (map (\<lambda>k. (k, the (fmlookup t k), None)) (range_keys (fmlookup t) a b))),
     tx_Set = (\<lambda>k v t. if int (length v) \<le> room then (None, fmupd k v t) else (Some ''entry too large'', t)),
     tx_Delete = (\<lambda>k t. (None, fmdrop k t)), tx_Commit = (\<lambda>t s. (None, t, t)), tx_Rollback = (\<lambda>t s. s),
     IsErrNotFound = (\<lambda>e. e = Some ''not exist'')\<rparr>"

lemma txnkv_laws_map_txnkv: "txnkv_laws room (map_txnkv room) fmlookup fmlookup (\<lambda>t s. True)"
  unfolding txnkv_laws_def map_txnkv_def
  by (intro conjI allI impI) (auto simp: fmdrop.rep_eq map_drop_def map_filter_def fun_eq_iff simp del: dom_fmlookup)

definition fresh_txn :: "nat \<Rightarrow> (string, bytes) fmap txnDB" where
  "fresh_txn n = \<lparr>txn_db = fmempty, txn_r = field_codec n, txn_bufPool = NewBufPool, txn_cfg = \<lparr>asyncCommit = True, onePC = True\<rparr>\<rparr>"

lemma txn_inv_fresh: "sizes_ok n vmax room \<Longrightarrow> txn_inv n vmax room (map_txnkv room) fmlookup fmlookup (\<lambda>t s. True) (fresh_txn n)"
  using txnkv_laws_map_txnkv by (simp add: txn_inv_def fresh_txn_def flat_encoded_def)

lemma txn_inv_sample: "txn_inv 3 100 1000 (map_txnkv 1000) fmlookup fmlookup (\<lambda>t s. True) (fresh_txn 3)"
  by (rule txn_inv_fresh) (simp add: sizes_ok_def)

section \<open>Properties\<close>





text \<open>(C40) The two modes of the TiKV layer disagree on an update of a row that is not there: in raw mode the update
  creates the row from the fields it names, in transaction mode it reports success and stores nothing. On a row that is
  there both merge the fields into it.\<close>

theorem tikv_Update_modes:
  assumes "raw_inv nf vmax room K F d" "txn_inv nf vmax room' K' sf tf tof d'" "row_fits nf vmax v" "CHR '':'' \<notin> set t"
    and "F (raw_db d) = sf (txn_db d')" "T = rows_of nf (flat_tables (F (raw_db d)))"
  shows "\<exists>r r'. raw_Update K c t k v d = Ret (None, r) \<and> txn_Update K' () t k v d' = Ret (None, r') \<and>
    (case T t k of
       None \<Rightarrow> rows_of nf (flat_tables (F (raw_db r))) = put_row t k (map_of v) T \<and> sf (txn_db r') = sf (txn_db d')
     | Some m \<Rightarrow> F (raw_db r) = sf (txn_db r') \<and> rows_of nf (flat_tables (F (raw_db r))) = put_row t k (m ++ map_of v) T)"
proof -
  note d = raw_invD [OF assms(1)] and d' = txn_invD [OF assms(2)]
  define row where "row = F (raw_db d) (getRowKey t k)"
  obtain data b' where u: "Decode (field_codec nf) (case row of None \<Rightarrow> [] | Some b \<Rightarrow> b) [] = Ret (Inr data)" "row_fits nf vmax (map_assign data v)"
    "Encode (field_codec nf) [] (map_assign data v) = Inr b'" "int (length b') \<le> room"
    using current_update [OF d(2,4) assms(3), of "getRowKey t k"] row_def by blast
  obtain r where r: "raw_Update K c t k v d = Ret (None, r)" "F (raw_db r) = (F (raw_db d))(getRowKey t k \<mapsto> b')"
    using raw_Update_ok [OF assms(1) row_def [symmetric] u assms(3)] by blast
  have n: "nf \<le> nat max64" using d(2) by (simp add: sizes_ok_def)
  have rows: "rows_of nf (flat_tables (F (raw_db r))) = put_row t k (map_of (map_assign data v)) T"
    using rows_of_put [OF n u(2,3)] by (simp add: r(2) flat_tables_put [OF assms(4)] assms(6))
  have merge: "map_of (map_assign data v) = map_of data ++ map_of v" using map_of_map_assign [of v data] assms(3) by (simp add: row_fits_def codec_row_def)
  show ?thesis
  proof (cases row)
    case None
    then have "T t k = None" "data = []" using u(1) by (simp_all add: assms(6) rows_of_get flat_tables_get [OF assms(4)] row_def Decode_empty)
    then show ?thesis using r(1) rows merge txn_Update_None [OF assms(2), of t k "()" v] None by (auto simp: row_def assms(5))
  next
    case (Some b)
    then have "T t k = Some (map_of data)" using u(1) by (simp add: assms(6) rows_of_get flat_tables_get [OF assms(4)] row_def decoded_def)
    moreover have "int (length b') \<le> room'" using sizes_ok_encoded [OF d'(2) u(2,3)] .
    then obtain r' where "txn_Update K' () t k v d' = Ret (None, r')" "sf (txn_db r') = (sf (txn_db d'))(getRowKey t k \<mapsto> b')"
      using txn_Update_Some [OF assms(2) _ _ u(2,3), of t k b] u(1) Some by (auto simp: row_def assms(5))
    ultimately show ?thesis using r rows merge by (auto simp: assms(5))
  qed
qed

theorem tikv_Update_modes_witness:
  "\<exists>r r'. raw_Update map_rawkv 0 ''usertable'' ''user1'' [(''field0'', [7])] (fresh_raw 3 False) = Ret (None, r) \<and>
     txn_Update (map_txnkv 1000) () ''usertable'' ''user1'' [(''field0'', [7])] (fresh_txn 3) = Ret (None, r') \<and>
     fmlookup (txn_db r') = Map.empty \<and> rows_of 3 (flat_tables (fmlookup (raw_db r))) ''usertable'' ''user1'' = Some [''field0'' \<mapsto> [7]]"
proof -
  have inv: "raw_inv 3 100 1000 map_rawkv fmlookup (fresh_raw 3 False)" by (rule raw_inv_fresh) (simp add: sizes_ok_def)
  have "rows_of 3 (flat_tables (fmlookup (raw_db (fresh_raw 3 False)))) ''usertable'' ''user1'' = None"
    by (simp add: rows_of_get flat_tables_def fresh_raw_def)
  then show ?thesis
    using tikv_Update_modes [OF inv txn_inv_sample sample_row_fits [of 7] _ _ refl, of "''usertable''" 0 "''user1''"]
    by (auto simp: put_row_def fresh_raw_def fresh_txn_def fmempty.rep_eq)
qed

end
