(* ===== verification/Badger.thy ===== *)
theory Badger
  imports FlatStore
begin

text \<open>
  The Badger layer (\<^verbatim>\<open>db/badger/db.go\<close>). The library's calls are the record \<open>badgerlib\<close> on the state \<open>'s\<close> of
  a database or of a transaction. \<^verbatim>\<open>View\<close> and \<^verbatim>\<open>Update\<close> run a function in a transaction; a transaction whose function
  fails is discarded. The documented behaviour that the layer relies on is \<open>badger_laws\<close>.
\<close>

section \<open>State\<close>

datatype loadingMode = FileIO | LoadToRAM | MemoryMap

record badgerOptions =
  badger_Dir :: string
  badger_ValueDir :: string
  badger_SyncWrites :: bool
  badger_NumVersionsToKeep :: int
  badger_MaxTableSize :: int
  badger_LevelSizeMultiplier :: int
  badger_MaxLevels :: int
  badger_ValueThreshold :: int
  badger_NumMemtables :: int
  badger_NumLevelZeroTables :: int
  badger_NumLevelZeroTablesStall :: int
  badger_LevelOneSize :: int
  badger_ValueLogFileSize :: int
  badger_ValueLogMaxEntries :: int
  badger_NumCompactors :: int
  badger_DoNotCompact :: bool
  badger_TableLoadingMode :: loadingMode
  badger_ValueLogLoadingMode :: loadingMode

text \<open>
  The first argument of \<^verbatim>\<open>Open\<close> lists the directories that have been removed before. An item is what \<^verbatim>\<open>Value\<close> or
  \<^verbatim>\<open>ValueCopy\<close> gives for it, and an iterator the list of its keys and items from the key it seeks.
\<close>

record 's badgerlib =
  badger_DefaultOptions :: badgerOptions
  badger_Open :: "string list \<Rightarrow> badgerOptions \<Rightarrow> goerror + 's"
  badger_Close :: "'s \<Rightarrow> goerror option \<times> 's"
  badger_NewTransaction :: "bool \<Rightarrow> 's \<Rightarrow> goerror + 's"
  badger_Commit :: "'s \<Rightarrow> 's \<Rightarrow> goerror option \<times> 's"
  badger_Get :: "string \<Rightarrow> 's \<Rightarrow> goerror + (goerror + bytes)"
  badger_Set :: "string \<Rightarrow> bytes \<Rightarrow> 's \<Rightarrow> goerror option \<times> 's"
  badger_Delete :: "string \<Rightarrow> 's \<Rightarrow> goerror option \<times> 's"
  badger_Seek :: "string \<Rightarrow> 's \<Rightarrow> (string \<times> (goerror + bytes)) list"

text \<open>\<^verbatim>\<open>View\<close> and \<^verbatim>\<open>Update\<close> as they are documented; \<open>x\<close> is a variable that the function captures.\<close>

definition badger_View :: "'s badgerlib \<Rightarrow> ('s \<Rightarrow> (goerror + 'a) outcome) \<Rightarrow> 's \<Rightarrow> (goerror + 'a) outcome" where
  "badger_View B f s = (case badger_NewTransaction B False s of Inl err \<Rightarrow> Ret (Inl err) | Inr tx \<Rightarrow> f tx)"

definition badger_Update :: "'s badgerlib \<Rightarrow> ('s \<Rightarrow> 'x \<Rightarrow> (goerror option \<times> 's \<times> 'x) outcome) \<Rightarrow> 's \<Rightarrow> 'x \<Rightarrow>
    (goerror option \<times> 's \<times> 'x) outcome" where
  "badger_Update B f s x = (case badger_NewTransaction B True s of
       Inl err \<Rightarrow> Ret (Some err, s, x)
     | Inr tx \<Rightarrow> obind (f tx x) (\<lambda>(e, tx, x). case e of
           Some err \<Rightarrow> Ret (Some err, s, x)
         | None \<Rightarrow> let (e, s) = badger_Commit B s tx in Ret (e, s, x)))"

record 's badgerDB =
  badger_db :: 's
  badger_r :: RowCodec
  badger_bufPool :: pool

section \<open>Operations\<close>

definition loading_mode :: "string \<Rightarrow> loadingMode \<Rightarrow> loadingMode" where
  "loading_mode b m =
     (if length b > 0 then
        if b = ''FileIO'' then FileIO else if b = ''LoadToRAM'' then LoadToRAM else if b = ''MemoryMap'' then MemoryMap else m
      else m)"

definition badger_getOptions :: "'s badgerlib \<Rightarrow> properties \<Rightarrow> badgerOptions" where
  "badger_getOptions B p =
     (let opts = badger_DefaultOptions B;
          dir = GetString p ''badger.dir'' ''/tmp/badger''
      in opts\<lparr>badger_Dir := dir, badger_ValueDir := GetString p ''badger.valuedir'' dir,
        badger_SyncWrites := GetBool p ''badger.sync_writes'' False,
        badger_NumVersionsToKeep := GetInt p ''badger.num_versions_to_keep'' 1,
        badger_MaxTableSize := GetInt64 p ''badger.max_table_size'' (64 * 2 ^ 20),
        badger_LevelSizeMultiplier := GetInt p ''badger.level_size_multiplier'' 10,
        badger_MaxLevels := GetInt p ''badger.max_levels'' 7,
        badger_ValueThreshold := GetInt p ''badger.value_threshold'' 32,
        badger_NumMemtables := GetInt p ''badger.num_memtables'' 5,
        badger_NumLevelZeroTables := GetInt p ''badger.num_level0_tables'' 5,
        badger_NumLevelZeroTablesStall := GetInt p ''badger.num_level0_tables_stall'' 10,
        badger_LevelOneSize := GetInt64 p ''badger.level_one_size'' (256 * 2 ^ 20),
        badger_ValueLogFileSize := GetInt64 p ''badger.value_log_file_size'' (2 ^ 30),
        badger_ValueLogMaxEntries := int (GetUint64 p ''badger.value_log_max_entries'' 1000000 mod 2 ^ 32),
        badger_NumCompactors := GetInt p ''badger.num_compactors'' 3,
        badger_DoNotCompact := GetBool p ''badger.do_not_compact'' False,
        badger_TableLoadingMode := loading_mode (GetString p ''badger.table_loading_mode'' ''LoadToRAM'') (badger_TableLoadingMode opts),
        badger_ValueLogLoadingMode := loading_mode (GetString p ''badger.value_log_loading_mode'' ''MemoryMap'') (badger_ValueLogLoadingMode opts)\<rparr>)"

definition badger_Create :: "'s badgerlib \<Rightarrow> properties \<Rightarrow> (goerror + 's badgerDB) outcome" where
  "badger_Create B p =
     (let opts = badger_getOptions B p;
          removed = (if GetBool p prop_DropData prop_DropDataDefault then [badger_Dir opts, badger_ValueDir opts] else [])
      in case badger_Open B removed opts of
           Inl err \<Rightarrow> Ret (Inl err)
         | Inr s \<Rightarrow> obind (NewRowCodec p) (\<lambda>r. Ret (Inr \<lparr>badger_db = s, badger_r = r, badger_bufPool = NewBufPool\<rparr>)))"

definition badgerDB_Close :: "'s badgerlib \<Rightarrow> ('s badgerDB, goerror option) dbop" where
  "badgerDB_Close B d = (let (e, s) = badger_Close B (badger_db d) in Ret (e, d\<lparr>badger_db := s\<rparr>))"

definition badgerDB_InitThread :: "int \<Rightarrow> int \<Rightarrow> ('s badgerDB, unit) dbop" where
  "badgerDB_InitThread i n d = Ret ((), d)"

definition badgerDB_CleanupThread :: "unit \<Rightarrow> 's badgerDB \<Rightarrow> 's badgerDB outcome" where
  "badgerDB_CleanupThread c d = Ret d"

definition badgerDB_Read :: "'s badgerlib \<Rightarrow> unit \<Rightarrow> string \<Rightarrow> string \<Rightarrow> string list \<Rightarrow> ('s badgerDB, goerror + row) dbop" where
  "badgerDB_Read B c table key flds d = obind (badger_View B (\<lambda>tx. case badger_Get B (getRowKey table key) tx of
       Inl err \<Rightarrow> Ret (Inl err)
     | Inr (Inl err) \<Rightarrow> Ret (Inl err)
     | Inr (Inr row) \<Rightarrow> Decode (badger_r d) row flds) (badger_db d)) (\<lambda>res. Ret (res, d))"

text \<open>The loop of \<^verbatim>\<open>Scan\<close>: \<open>n\<close> is the number of rows still wanted.\<close>

fun badger_rows :: "RowCodec \<Rightarrow> string list \<Rightarrow> nat \<Rightarrow> (string \<times> (goerror + bytes)) list \<Rightarrow> (goerror + row list) outcome" where
  "badger_rows r flds 0 es = Ret (Inr [])"
| "badger_rows r flds (Suc n) [] = Ret (Inr [])"
| "badger_rows r flds (Suc n) ((k, Inl err) # es) = Ret (Inl err)"
| "badger_rows r flds (Suc n) ((k, Inr v) # es) = obind (Decode r v flds) (\<lambda>res. case res of
       Inl err \<Rightarrow> Ret (Inl err)
     | Inr m \<Rightarrow> obind (badger_rows r flds n es) (\<lambda>res. case res of
           Inl err \<Rightarrow> Ret (Inl err)
         | Inr ms \<Rightarrow> Ret (Inr (m # ms))))"

definition badgerDB_Scan :: "'s badgerlib \<Rightarrow> unit \<Rightarrow> string \<Rightarrow> string \<Rightarrow> int \<Rightarrow> string list \<Rightarrow> ('s badgerDB, goerror + row list) dbop" where
  "badgerDB_Scan B c table startKey n flds d =
     (if n < 0 then Panic ''makeslice: len out of range''
      else obind (badger_View B (\<lambda>tx. obind (badger_rows (badger_r d) flds (nat n) (badger_Seek B (getRowKey table startKey) tx)) (\<lambda>res.
          case res of Inl err \<Rightarrow> Ret (Inl err) | Inr rows \<Rightarrow> Ret (Inr (pad_rows n rows)))) (badger_db d)) (\<lambda>res. Ret (res, d)))"

text \<open>Encode a row into a pooled buffer and set it; the deferred function gives the buffer back.\<close>

definition badgerDB_set :: "'s badgerlib \<Rightarrow> RowCodec \<Rightarrow> string \<Rightarrow> row \<Rightarrow> 's \<Rightarrow> pool \<Rightarrow> (goerror option \<times> 's \<times> pool) outcome" where
  "badgerDB_set B r rowKey vals tx pl =
     (let (buf, pl) = BufPool_Get pl
      in case Encode r buf vals of
           Inl err \<Rightarrow> Ret (Some err, tx, BufPool_Put [] pl)
         | Inr buf \<Rightarrow> let (e, tx) = badger_Set B rowKey buf tx in Ret (e, tx, BufPool_Put buf pl))"

definition badgerDB_Update :: "'s badgerlib \<Rightarrow> unit \<Rightarrow> string \<Rightarrow> string \<Rightarrow> row \<Rightarrow> ('s badgerDB, goerror option) dbop" where
  "badgerDB_Update B c table key vals d = obind (badger_Update B (\<lambda>tx pl. case badger_Get B (getRowKey table key) tx of
         Inl err \<Rightarrow> Ret (Some err, tx, pl)
       | Inr (Inl err) \<Rightarrow> Ret (Some err, tx, pl)
       | Inr (Inr value) \<Rightarrow> obind (Decode (badger_r d) value []) (\<lambda>res. case res of
             Inl err \<Rightarrow> Ret (Some err, tx, pl)
           | Inr data \<Rightarrow> badgerDB_set B (badger_r d) (getRowKey table key) (map_assign data vals) tx pl)) (badger_db d) (badger_bufPool d))
     (\<lambda>(e, s, pl). Ret (e, d\<lparr>badger_db := s, badger_bufPool := pl\<rparr>))"

definition badgerDB_Insert :: "'s badgerlib \<Rightarrow> unit \<Rightarrow> string \<Rightarrow> string \<Rightarrow> row \<Rightarrow> ('s badgerDB, goerror option) dbop" where
  "badgerDB_Insert B c table key vals d =
     obind (badger_Update B (\<lambda>tx pl. badgerDB_set B (badger_r d) (getRowKey table key) vals tx pl) (badger_db d) (badger_bufPool d))
     (\<lambda>(e, s, pl). Ret (e, d\<lparr>badger_db := s, badger_bufPool := pl\<rparr>))"

definition badgerDB_Delete :: "'s badgerlib \<Rightarrow> unit \<Rightarrow> string \<Rightarrow> string \<Rightarrow> ('s badgerDB, goerror option) dbop" where
  "badgerDB_Delete B c table key d =
     obind (badger_Update B (\<lambda>tx pl. let (e, tx) = badger_Delete B (getRowKey table key) tx in Ret (e, tx, pl)) (badger_db d) (badger_bufPool d))
     (\<lambda>(e, s, pl). Ret (e, d\<lparr>badger_db := s, badger_bufPool := pl\<rparr>))"

definition badgerDB_DB :: "'s badgerlib \<Rightarrow> (unit, 's badgerDB) DB" where
  "badgerDB_DB B = \<lparr>db_Close = badgerDB_Close B, db_InitThread = badgerDB_InitThread, db_CleanupThread = badgerDB_CleanupThread,
     db_Read = badgerDB_Read B, db_Scan = badgerDB_Scan B, db_Update = badgerDB_Update B, db_Insert = badgerDB_Insert B,
     db_Delete = badgerDB_Delete B, db_Batch = None, db_Analyze = None, db_Count = None, db_Clean = None\<rparr>"

section \<open>The library\<close>

text \<open>
  The documented behaviour: \<open>F\<close> gives the rows of a database or of what a transaction sees. A transaction starts from the
  state of the database and its commit makes it the new one; a read of a key that is not there is an error; keys are not
  empty and have at most 65000 bytes, and an entry with a value of at most \<open>room\<close> bytes fits into a transaction; an
  iterator walks the keys in byte order.
\<close>

definition badger_laws :: "int \<Rightarrow> 's badgerlib \<Rightarrow> ('s \<Rightarrow> flat) \<Rightarrow> bool" where
  "badger_laws room B F \<longleftrightarrow>
     (\<forall>b s. badger_NewTransaction B b s = Inr s) \<and>
     (\<forall>s tx. badger_Commit B s tx = (None, tx)) \<and>
     (\<forall>k v s. F s k = Some v \<longrightarrow> badger_Get B k s = Inr (Inr v)) \<and>
     (\<forall>k s. F s k = None \<longrightarrow> (\<exists>err. badger_Get B k s = Inl err)) \<and>
     (\<forall>k v s. k \<noteq> [] \<longrightarrow> length k \<le> 65000 \<longrightarrow> int (length v) \<le> room \<longrightarrow> (\<exists>s'. badger_Set B k v s = (None, s') \<and> F s' = (F s)(k \<mapsto> v))) \<and>
     (\<forall>k s. k \<noteq> [] \<longrightarrow> length k \<le> 65000 \<longrightarrow> (\<exists>s'. badger_Delete B k s = (None, s') \<and> F s' = (F s)(k := None))) \<and>
     (\<forall>k s. \<exists>es. badger_Seek B k s = map (\<lambda>(k, v). (k, Inr v)) es \<and> sorted_wrt (<) (map fst es) \<and>
        (\<forall>k' v. (k', v) \<in> set es \<longleftrightarrow> k \<le> k' \<and> F s k' = Some v))"

lemmas badger_lawsD =
  badger_laws_def [THEN iffD1, THEN conjunct1, rule_format]
  badger_laws_def [THEN iffD1, THEN conjunct2, THEN conjunct1, rule_format]
  badger_laws_def [THEN iffD1, THEN conjunct2, THEN conjunct2, THEN conjunct1, rule_format]
  badger_laws_def [THEN iffD1, THEN conjunct2, THEN conjunct2, THEN conjunct2, THEN conjunct1, rule_format]
  badger_laws_def [THEN iffD1, THEN conjunct2, THEN conjunct2, THEN conjunct2, THEN conjunct2, THEN conjunct1, rule_format]
  badger_laws_def [THEN iffD1, THEN conjunct2, THEN conjunct2, THEN conjunct2, THEN conjunct2, THEN conjunct2, THEN conjunct1, rule_format]
  badger_laws_def [THEN iffD1, THEN conjunct2, THEN conjunct2, THEN conjunct2, THEN conjunct2, THEN conjunct2, THEN conjunct2, rule_format]

definition badger_key_ok :: "string \<Rightarrow> string \<Rightarrow> bool" where
  "badger_key_ok t k \<longleftrightarrow> CHR '':'' \<notin> set t \<and> length t + length k < 65000"

definition badger_inv :: "nat \<Rightarrow> int \<Rightarrow> int \<Rightarrow> 's badgerlib \<Rightarrow> ('s \<Rightarrow> flat) \<Rightarrow> 's badgerDB \<Rightarrow> bool" where
  "badger_inv nf vmax room B F d \<longleftrightarrow> badger_laws room B F \<and> sizes_ok nf vmax room \<and> badger_r d = field_codec nf \<and>
     flat_encoded nf vmax (F (badger_db d))"

lemma badger_invD:
  assumes "badger_inv nf vmax room B F d"
  shows "badger_laws room B F" "sizes_ok nf vmax room" "badger_r d = field_codec nf" "flat_encoded nf vmax (F (badger_db d))"
  using assms by (simp_all add: badger_inv_def)

lemma badger_Update_run:
  assumes "badger_laws room B F"
  shows "badger_Update B f s x = obind (f s x) (\<lambda>(e, s', x). Ret (e, if e = None then s' else s, x))"
  using badger_lawsD(1,2) [OF assms] by (cases "f s x") (auto simp: badger_Update_def split: option.splits)

lemma badger_View_run:
  assumes "badger_laws room B F"
  shows "badger_View B f s = f s"
  using badger_lawsD(1) [OF assms] by (simp add: badger_View_def)

lemma badgerDB_set_ok:
  assumes "badger_inv nf vmax room B F d" "badger_key_ok t k" "row_fits nf vmax v" "Encode (field_codec nf) [] v = Inr b" "int (length b) \<le> room"
  shows "\<exists>s pl'. badgerDB_set B (field_codec nf) (getRowKey t k) v (badger_db d) pl = Ret (None, s, pl') \<and>
    badger_inv nf vmax room B F (d\<lparr>badger_db := s, badger_bufPool := pl'\<rparr>) \<and> F s = (F (badger_db d))(getRowKey t k \<mapsto> b)"
proof -
  note d = badger_invD [OF assms(1)]
  obtain pl' where pl: "BufPool_Get pl = ([], pl')" by (rule BufPool_Get_obtain)
  have "length (getRowKey t k) \<le> 65000" using assms(2) by (simp add: badger_key_ok_def getRowKey_def)
  from badger_lawsD(5) [OF d(1) getRowKey_nonempty this assms(5)] obtain s where
    s: "badger_Set B (getRowKey t k) b (badger_db d) = (None, s)" "F s = (F (badger_db d))(getRowKey t k \<mapsto> b)" by blast
  show ?thesis using s assms(4) d flat_encoded_put [OF d(4) assms(3,4)] by (simp add: badgerDB_set_def pl badger_inv_def)
qed

lemma badger_rows_values: "badger_rows r fs n (map (\<lambda>(k, v). (k, Inr v)) es) = scan_rows r fs n es"
proof (induction es arbitrary: n)
  case Nil
  then show ?case by (cases n) simp_all
next
  case (Cons e es)
  then show ?case by (cases n; cases e) simp_all
qed

lemma badgerDB_Scan_ok:
  assumes "badger_inv nf vmax room B F d" "\<forall>key b. F (badger_db d) key = Some b \<longrightarrow> (\<exists>row. Decode (field_codec nf) b fs = Ret (Inr row))" "0 \<le> n"
  shows "\<exists>rows. badgerDB_Scan B c t k n fs d = Ret (Inr rows, d) \<and> length rows = nat n"
proof -
  note d = badger_invD [OF assms(1)]
  obtain es where es: "badger_Seek B (getRowKey t k) (badger_db d) = map (\<lambda>(k, v). (k, Inr v)) es"
    "\<forall>k' v. (k', v) \<in> set es \<longleftrightarrow> getRowKey t k \<le> k' \<and> F (badger_db d) k' = Some v" using badger_lawsD(7) [OF d(1)] by blast
  obtain rows where rows: "scan_rows (field_codec nf) fs (nat n) es = Ret (Inr rows)" "length rows \<le> nat n"
    using scan_rows_flat [of es "F (badger_db d)" "field_codec nf" fs] es(2) assms(2) by blast
  show ?thesis
    using rows assms(3) by (simp add: badgerDB_Scan_def badger_View_run [OF d(1)] es(1) badger_rows_values d(3) pad_rows_def)
qed

interpretation bdg: flat_layer nf vmax room badger_key_ok "badgerDB_DB B" "badger_inv nf vmax room B F" "\<lambda>d. F (badger_db d)"
proof (unfold_locales, goal_cases)
  case (1 t k)
  then show ?case by (simp add: badger_key_ok_def)
next
  case (2 d)
  then show ?case by (rule badger_invD(2))
next
  case (3 d)
  then show ?case by (rule badger_invD(4))
next
  case (4 d t k v b c)
  note d = badger_invD [OF 4(1)]
  show ?case
    using badgerDB_set_ok [OF 4, of "badger_bufPool d"] d by (auto simp: badgerDB_DB_def badgerDB_Insert_def badger_Update_run [OF d(1)])
next
  case (5 d t k b fs row c)
  note d = badger_invD [OF 5(1)]
  show ?case
    using badger_lawsD(3) [OF d(1) 5(3)] 5 by (simp add: badgerDB_DB_def badgerDB_Read_def badger_View_run [OF d(1)] d(3))
next
  case (6 d t k c fs)
  note d = badger_invD [OF 6(1)]
  show ?case
    using badger_lawsD(4) [OF d(1) 6(3)] 6(1) by (auto simp: badgerDB_DB_def badgerDB_Read_def badger_View_run [OF d(1)])
next
  case (7 d t k v b data b' c)
  note d = badger_invD [OF 7(1)]
  show ?case
    using badgerDB_set_ok [OF 7(1,2,6-8), of "badger_bufPool d"] badger_lawsD(3) [OF d(1) 7(4)] 7(5)
    by (auto simp: badgerDB_DB_def badgerDB_Update_def badger_Update_run [OF d(1)] d(3))
next
  case (8 d t k v b c)
  note d = badger_invD [OF 8(1)]
  show ?case
    using badger_lawsD(4) [OF d(1) 8(5)] 8(1) by (auto simp: badgerDB_DB_def badgerDB_Update_def badger_Update_run [OF d(1)])
next
  case (9 d i m)
  then show ?case by (auto simp: badgerDB_DB_def badgerDB_InitThread_def)
next
  case (10 d fs c t k n)
  have "\<forall>key b. F (badger_db d) key = Some b \<longrightarrow> (\<exists>row. Decode (field_codec nf) b fs = Ret (Inr row))" using 10(2) by blast
  from badgerDB_Scan_ok [OF 10(1) this, of n c t k] show ?case using 10(1) by (cases "n < 0") (auto simp: badgerDB_DB_def badgerDB_Scan_def)
qed

interpretation bdgm: measured_database nf vmax badger_key_ok "badgerDB_DB B" "badger_inv nf vmax room B F"
  "\<lambda>d. rows_of nf (flat_tables (F (badger_db d)))" H
  for nf vmax room and B :: "'s badgerlib" and F and H :: "'h hdrlib"
  by unfold_locales

section \<open>A concrete store\<close>

definition map_badger :: "(string, bytes) fmap badgerlib" where
  "map_badger = \<lparr>badger_DefaultOptions = \<lparr>badger_Dir = [], badger_ValueDir = [], badger_SyncWrites = True, badger_NumVersionsToKeep = 1,
       badger_MaxTableSize = 0, badger_LevelSizeMultiplier = 10, badger_MaxLevels = 7, badger_ValueThreshold = 32, badger_NumMemtables = 5,
       badger_NumLevelZeroTables = 5, badger_NumLevelZeroTablesStall = 10, badger_LevelOneSize = 0, badger_ValueLogFileSize = 0,
       badger_ValueLogMaxEntries = 0, badger_NumCompactors = 3, badger_DoNotCompact = False, badger_TableLoadingMode = LoadToRAM,
       badger_ValueLogLoadingMode = MemoryMap\<rparr>,
     badger_Open = (\<lambda>removed opts. Inr fmempty), badger_Close = (\<lambda>s. (None, s)), badger_NewTransaction = (\<lambda>b s. Inr s),
     badger_Commit = (\<lambda>s tx. (None, tx)),
     badger_Get = (\<lambda>k s. case fmlookup s k of None \<Rightarrow> Inl ''Key not found'' | Some v \<Rightarrow> Inr (Inr v)),
     badger_Set = (\<lambda>k v s. (None, fmupd k v s)), badger_Delete = (\<lambda>k s. (None, fmdrop k s)),
     badger_Seek = (\<lambda>k s. map (\<lambda>(k, v). (k, Inr v)) (entries_from (fmlookup s) k))\<rparr>"

lemma badger_laws_map_badger: "badger_laws room map_badger fmlookup"
  unfolding badger_laws_def map_badger_def badgerlib.simps
proof (intro conjI allI impI)
  fix k and s :: "(string, bytes) fmap"
  show "\<exists>es. map (\<lambda>(k, v). (k, Inr v)) (entries_from (fmlookup s) k) = map (\<lambda>(k, v). (k, Inr v :: goerror + bytes)) es \<and> sorted_wrt (<) (map fst es) \<and>
      (\<forall>k' v. ((k', v) \<in> set es) = (k \<le> k' \<and> fmlookup s k' = Some v))"
    by (intro exI [of _ "entries_from (fmlookup s) k"]) (simp add: entries_from_sorted in_entries_from)
qed (auto simp: fmdrop.rep_eq map_drop_def map_filter_def fun_eq_iff)

definition fresh_badger :: "nat \<Rightarrow> (string, bytes) fmap badgerDB" where
  "fresh_badger n = \<lparr>badger_db = fmempty, badger_r = field_codec n, badger_bufPool = NewBufPool\<rparr>"

lemma badger_inv_fresh: "sizes_ok n vmax room \<Longrightarrow> badger_inv n vmax room map_badger fmlookup (fresh_badger n)"
  using badger_laws_map_badger by (simp add: badger_inv_def fresh_badger_def flat_encoded_def)

end
