(* ===== verification/RocksDB.thy ===== *)
theory RocksDB
  imports FlatStore
begin

text \<open>
  The RocksDB layer (\<^verbatim>\<open>db/rocksdb/db.go\<close>). The library's calls are the record \<open>rockslib\<close> on the state \<open>'s\<close> of a
  database; what the layer relies on is \<open>rocks_laws\<close>. A slice without data, which a read of a missing key gives, is the
  empty list of bytes.
\<close>

section \<open>State\<close>

datatype indexType = KBinarySearchIndexType | KHashSearchIndexType | KTwoLevelIndexSearchIndexType

record blockBasedTableOptions =
  BlockSize :: int
  BlockSizeDeviation :: int
  CacheIndexAndFilterBlocks :: bool
  NoBlockCache :: bool
  PinL0FilterAndIndexBlocksInCache :: bool
  WholeKeyFiltering :: bool
  BlockRestartInterval :: int
  BloomFilterBits :: "int option"
  IndexType :: indexType

record rocksOptions =
  CreateIfMissing :: bool
  AllowConcurrentMemtableWrites :: bool
  AllowMmapReads :: bool
  AllowMmapWrites :: bool
  ArenaBlockSize :: int
  DbWriteBufferSize :: int
  HardPendingCompactionBytesLimit :: nat
  Level0FileNumCompactionTrigger :: int
  Level0SlowdownWritesTrigger :: int
  Level0StopWritesTrigger :: int
  MaxBytesForLevelBase :: nat
  MaxBytesForLevelMultiplier :: float64
  MaxTotalWalSize :: nat
  MemtableHugePageSize :: int
  NumLevels :: int
  UseDirectReads :: bool
  UseFsync :: bool
  WriteBufferSize :: int
  MaxWriteBufferNumber :: int
  WalDir :: string
  BlockBasedTableFactory :: blockBasedTableOptions

text \<open>
  The first argument of \<^verbatim>\<open>OpenDb\<close> says that the directory has been removed before. An iterator is the list of its entries
  from the key it seeks, with the error that \<^verbatim>\<open>Err\<close> gives after so many steps.
\<close>

record 's rockslib =
  rocks_DefaultOptions :: rocksOptions
  rocks_DefaultTableOptions :: blockBasedTableOptions
  rocks_OpenDb :: "bool \<Rightarrow> rocksOptions \<Rightarrow> string \<Rightarrow> goerror + 's"
  rocks_Close :: "'s \<Rightarrow> 's"
  rocks_Get :: "string \<Rightarrow> 's \<Rightarrow> goerror + bytes"
  rocks_Put :: "string \<Rightarrow> bytes \<Rightarrow> 's \<Rightarrow> goerror option \<times> 's"
  rocks_Delete :: "string \<Rightarrow> 's \<Rightarrow> goerror option \<times> 's"
  rocks_Seek :: "string \<Rightarrow> 's \<Rightarrow> (string \<times> bytes) list"
  rocks_Err :: "string \<Rightarrow> nat \<Rightarrow> 's \<Rightarrow> goerror option"

record 's rocksDB =
  rocks_db :: 's
  rocks_r :: RowCodec
  rocks_bufPool :: pool

section \<open>Operations\<close>

definition rocks_getTableOptions :: "'s rockslib \<Rightarrow> properties \<Rightarrow> blockBasedTableOptions" where
  "rocks_getTableOptions L p =
     (let tblOpts = (rocks_DefaultTableOptions L)\<lparr>BlockSize := GetInt p ''rocksdb.block_size'' (4 * 2 ^ 10),
            BlockSizeDeviation := GetInt p ''rocksdb.block_size_deviation'' 10,
            CacheIndexAndFilterBlocks := GetBool p ''rocksdb.cache_index_and_filter_blocks'' False,
            NoBlockCache := GetBool p ''rocksdb.no_block_cache'' False,
            PinL0FilterAndIndexBlocksInCache := GetBool p ''rocksdb.pin_l0_filter_and_index_blocks_in_cache'' False,
            WholeKeyFiltering := GetBool p ''rocksdb.whole_key_filtering'' True,
            BlockRestartInterval := GetInt p ''rocksdb.block_restart_interval'' 16\<rparr>;
          b = GetString p ''rocksdb.filter_policy'' [];
          tblOpts = (if length b > 0 \<and> b = ''rocksdb.BuiltinBloomFilter'' then tblOpts\<lparr>BloomFilterBits := Some 10\<rparr> else tblOpts);
          it = GetString p ''rocksdb.index_type'' ''kBinarySearch''
      in if it = ''kBinarySearch'' then tblOpts\<lparr>IndexType := KBinarySearchIndexType\<rparr>
         else if it = ''kHashSearch'' then tblOpts\<lparr>IndexType := KHashSearchIndexType\<rparr>
         else if it = ''kTwoLevelIndexSearch'' then tblOpts\<lparr>IndexType := KTwoLevelIndexSearchIndexType\<rparr>
         else tblOpts)"

definition rocks_getOptions :: "'s rockslib \<Rightarrow> properties \<Rightarrow> rocksOptions" where
  "rocks_getOptions L p = (rocks_DefaultOptions L)\<lparr>CreateIfMissing := True,
     AllowConcurrentMemtableWrites := GetBool p ''rocksdb.allow_concurrent_memtable_writes'' True,
     AllowMmapReads := GetBool p ''rocksdb.allow_mmap_reads'' False,
     AllowMmapWrites := GetBool p ''rocksdb.allow_mmap_writes'' False,
     ArenaBlockSize := GetInt p ''rocksdb.arena_block_size'' 0,
     DbWriteBufferSize := GetInt p ''rocksdb.db_write_buffer_size'' 0,
     HardPendingCompactionBytesLimit := GetUint64 p ''rocksdb.hard_pending_compaction_bytes_limit'' (256 * 2 ^ 30),
     Level0FileNumCompactionTrigger := GetInt p ''rocksdb.level0_file_num_compaction_trigger'' 4,
     Level0SlowdownWritesTrigger := GetInt p ''rocksdb.level0_slowdown_writes_trigger'' 20,
     Level0StopWritesTrigger := GetInt p ''rocksdb.level0_stop_writes_trigger'' 36,
     MaxBytesForLevelBase := GetUint64 p ''rocksdb.max_bytes_for_level_base'' (256 * 2 ^ 20),
     MaxBytesForLevelMultiplier := GetFloat64 p ''rocksdb.max_bytes_for_level_multiplier'' (f64_lit 10),
     MaxTotalWalSize := GetUint64 p ''rocksdb.max_total_wal_size'' 0,
     MemtableHugePageSize := GetInt p ''rocksdb.memtable_huge_page_size'' 0,
     NumLevels := GetInt p ''rocksdb.num_levels'' 7,
     UseDirectReads := GetBool p ''rocksdb.use_direct_reads'' False,
     UseFsync := GetBool p ''rocksdb.use_fsync'' False,
     WriteBufferSize := GetInt p ''rocksdb.write_buffer_size'' (64 * 2 ^ 20),
     MaxWriteBufferNumber := GetInt p ''rocksdb.max_write_buffer_number'' 2,
     WalDir := GetString p ''rocksdb.wal_dir'' [],
     BlockBasedTableFactory := rocks_getTableOptions L p\<rparr>"

definition rocks_Create :: "'s rockslib \<Rightarrow> properties \<Rightarrow> (goerror + 's rocksDB) outcome" where
  "rocks_Create L p = (case rocks_OpenDb L (GetBool p prop_DropData prop_DropDataDefault) (rocks_getOptions L p)
         (GetString p ''rocksdb.dir'' ''/tmp/rocksdb'') of
       Inl err \<Rightarrow> Ret (Inl err)
     | Inr s \<Rightarrow> obind (NewRowCodec p) (\<lambda>r. Ret (Inr \<lparr>rocks_db = s, rocks_r = r, rocks_bufPool = NewBufPool\<rparr>)))"

definition rocksDB_Close :: "'s rockslib \<Rightarrow> ('s rocksDB, goerror option) dbop" where
  "rocksDB_Close L d = Ret (None, d\<lparr>rocks_db := rocks_Close L (rocks_db d)\<rparr>)"

definition rocksDB_InitThread :: "int \<Rightarrow> int \<Rightarrow> ('s rocksDB, unit) dbop" where
  "rocksDB_InitThread i n d = Ret ((), d)"

definition rocksDB_CleanupThread :: "unit \<Rightarrow> 's rocksDB \<Rightarrow> 's rocksDB outcome" where
  "rocksDB_CleanupThread c d = Ret d"

definition rocksDB_Read :: "'s rockslib \<Rightarrow> unit \<Rightarrow> string \<Rightarrow> string \<Rightarrow> string list \<Rightarrow> ('s rocksDB, goerror + row) dbop" where
  "rocksDB_Read L c table key flds d = (case rocks_Get L (getRowKey table key) (rocks_db d) of
       Inl err \<Rightarrow> Ret (Inl err, d)
     | Inr value \<Rightarrow> obind (Decode (rocks_r d) value flds) (\<lambda>res. Ret (res, d)))"

definition rocksDB_Scan :: "'s rockslib \<Rightarrow> unit \<Rightarrow> string \<Rightarrow> string \<Rightarrow> int \<Rightarrow> string list \<Rightarrow> ('s rocksDB, goerror + row list) dbop" where
  "rocksDB_Scan L c table startKey n flds d =
     (if n < 0 then Panic ''makeslice: len out of range''
      else obind (scan_rows (rocks_r d) flds (nat n) (rocks_Seek L (getRowKey table startKey) (rocks_db d))) (\<lambda>res. case res of
          Inl err \<Rightarrow> Ret (Inl err, d)
        | Inr rows \<Rightarrow> (case rocks_Err L (getRowKey table startKey) (length rows) (rocks_db d) of
              Some err \<Rightarrow> Ret (Inl err, d)
            | None \<Rightarrow> Ret (Inr (pad_rows n rows), d))))"

text \<open>Encode a row into a pooled buffer and put it. The argument of the deferred call is the buffer as it came from the pool.\<close>

definition rocksDB_put :: "'s rockslib \<Rightarrow> string \<Rightarrow> row \<Rightarrow> ('s rocksDB, goerror option) dbop" where
  "rocksDB_put L rowKey vals d =
     (let (buf, pl) = BufPool_Get (rocks_bufPool d)
      in case Encode (rocks_r d) buf vals of
           Inl err \<Rightarrow> Ret (Some err, d\<lparr>rocks_bufPool := BufPool_Put buf pl\<rparr>)
         | Inr row \<Rightarrow> let (e, s) = rocks_Put L rowKey row (rocks_db d) in Ret (e, d\<lparr>rocks_db := s, rocks_bufPool := BufPool_Put buf pl\<rparr>))"

definition rocksDB_Update :: "'s rockslib \<Rightarrow> unit \<Rightarrow> string \<Rightarrow> string \<Rightarrow> row \<Rightarrow> ('s rocksDB, goerror option) dbop" where
  "rocksDB_Update L c table key vals d = obind (rocksDB_Read L c table key [] d) (\<lambda>(res, d). case res of
       Inl err \<Rightarrow> Ret (Some err, d)
     | Inr m \<Rightarrow> rocksDB_put L (getRowKey table key) (map_assign m vals) d)"

definition rocksDB_Insert :: "'s rockslib \<Rightarrow> unit \<Rightarrow> string \<Rightarrow> string \<Rightarrow> row \<Rightarrow> ('s rocksDB, goerror option) dbop" where
  "rocksDB_Insert L c table key vals d = rocksDB_put L (getRowKey table key) vals d"

definition rocksDB_Delete :: "'s rockslib \<Rightarrow> unit \<Rightarrow> string \<Rightarrow> string \<Rightarrow> ('s rocksDB, goerror option) dbop" where
  "rocksDB_Delete L c table key d = (let (e, s) = rocks_Delete L (getRowKey table key) (rocks_db d) in Ret (e, d\<lparr>rocks_db := s\<rparr>))"

definition rocksDB_DB :: "'s rockslib \<Rightarrow> (unit, 's rocksDB) DB" where
  "rocksDB_DB L = \<lparr>db_Close = rocksDB_Close L, db_InitThread = rocksDB_InitThread, db_CleanupThread = rocksDB_CleanupThread,
     db_Read = rocksDB_Read L, db_Scan = rocksDB_Scan L, db_Update = rocksDB_Update L, db_Insert = rocksDB_Insert L,
     db_Delete = rocksDB_Delete L, db_Batch = None, db_Analyze = None, db_Count = None, db_Clean = None\<rparr>"

section \<open>The library\<close>

text \<open>
  The documented behaviour: \<open>F\<close> gives the rows of the database. A read of a key that is not there gives no data and no
  error; a value of at most \<open>room\<close> bytes is stored; an iterator walks the keys in byte order without an error.
\<close>

definition rocks_laws :: "int \<Rightarrow> 's rockslib \<Rightarrow> ('s \<Rightarrow> flat) \<Rightarrow> bool" where
  "rocks_laws room L F \<longleftrightarrow>
     (\<forall>k s. rocks_Get L k s = Inr (case F s k of None \<Rightarrow> [] | Some v \<Rightarrow> v)) \<and>
     (\<forall>k v s. int (length v) \<le> room \<longrightarrow> (\<exists>s'. rocks_Put L k v s = (None, s') \<and> F s' = (F s)(k \<mapsto> v))) \<and>
     (\<forall>k s. \<exists>s'. rocks_Delete L k s = (None, s') \<and> F s' = (F s)(k := None)) \<and>
     (\<forall>k s. sorted_wrt (<) (map fst (rocks_Seek L k s)) \<and> (\<forall>k' v. (k', v) \<in> set (rocks_Seek L k s) \<longleftrightarrow> k \<le> k' \<and> F s k' = Some v)) \<and>
     (\<forall>k n s. rocks_Err L k n s = None)"

lemmas rocks_lawsD =
  rocks_laws_def [THEN iffD1, THEN conjunct1, rule_format]
  rocks_laws_def [THEN iffD1, THEN conjunct2, THEN conjunct1, rule_format]
  rocks_laws_def [THEN iffD1, THEN conjunct2, THEN conjunct2, THEN conjunct1, rule_format]
  rocks_laws_def [THEN iffD1, THEN conjunct2, THEN conjunct2, THEN conjunct2, THEN conjunct1, rule_format]
  rocks_laws_def [THEN iffD1, THEN conjunct2, THEN conjunct2, THEN conjunct2, THEN conjunct2, rule_format]

definition rocks_inv :: "nat \<Rightarrow> int \<Rightarrow> int \<Rightarrow> 's rockslib \<Rightarrow> ('s \<Rightarrow> flat) \<Rightarrow> 's rocksDB \<Rightarrow> bool" where
  "rocks_inv nf vmax room L F d \<longleftrightarrow> rocks_laws room L F \<and> sizes_ok nf vmax room \<and> rocks_r d = field_codec nf \<and>
     flat_encoded nf vmax (F (rocks_db d))"

lemma rocks_invD:
  assumes "rocks_inv nf vmax room L F d"
  shows "rocks_laws room L F" "sizes_ok nf vmax room" "rocks_r d = field_codec nf" "flat_encoded nf vmax (F (rocks_db d))"
  using assms by (simp_all add: rocks_inv_def)

lemma rocksDB_put_ok:
  assumes "rocks_inv nf vmax room L F d" "row_fits nf vmax v" "Encode (field_codec nf) [] v = Inr b" "int (length b) \<le> room"
  shows "\<exists>d'. rocksDB_put L (getRowKey t k) v d = Ret (None, d') \<and> rocks_inv nf vmax room L F d' \<and> F (rocks_db d') = (F (rocks_db d))(getRowKey t k \<mapsto> b)"
proof -
  note d = rocks_invD [OF assms(1)]
  obtain pl where pl: "BufPool_Get (rocks_bufPool d) = ([], pl)" by (rule BufPool_Get_obtain)
  obtain s where s: "rocks_Put L (getRowKey t k) b (rocks_db d) = (None, s)" "F s = (F (rocks_db d))(getRowKey t k \<mapsto> b)"
    using rocks_lawsD(2) [OF d(1) assms(4)] by blast
  show ?thesis using s assms(3) d flat_encoded_put [OF d(4) assms(2,3)] by (simp add: rocksDB_put_def pl rocks_inv_def)
qed

text \<open>The read is total: a missing row is the empty row.\<close>

lemma rocksDB_Read_run:
  assumes "rocks_inv nf vmax room L F d"
  shows "rocksDB_Read L c t k fs d =
    obind (Decode (field_codec nf) (case F (rocks_db d) (getRowKey t k) of None \<Rightarrow> [] | Some v \<Rightarrow> v) fs) (\<lambda>res. Ret (res, d))"
  using rocks_lawsD(1) [OF rocks_invD(1) [OF assms]] rocks_invD(3) [OF assms] by (simp add: rocksDB_Read_def)

lemma rocksDB_Scan_ok:
  assumes "rocks_inv nf vmax room L F d" "\<forall>key b. F (rocks_db d) key = Some b \<longrightarrow> (\<exists>row. Decode (field_codec nf) b fs = Ret (Inr row))" "0 \<le> n"
  shows "\<exists>rows. rocksDB_Scan L c t k n fs d = Ret (Inr rows, d) \<and> length rows = nat n"
proof -
  note d = rocks_invD [OF assms(1)]
  have seek: "\<forall>k' v. (k', v) \<in> set (rocks_Seek L (getRowKey t k) (rocks_db d)) \<longrightarrow> F (rocks_db d) k' = Some v"
    using rocks_lawsD(4) [OF d(1), of "getRowKey t k" "rocks_db d"] by simp
  obtain rows where rows: "scan_rows (field_codec nf) fs (nat n) (rocks_Seek L (getRowKey t k) (rocks_db d)) = Ret (Inr rows)" "length rows \<le> nat n"
    using scan_rows_flat [OF seek assms(2), of "nat n"] by blast
  show ?thesis using rows assms(3) rocks_lawsD(5) [OF d(1)] by (simp add: rocksDB_Scan_def d(3) pad_rows_def)
qed

interpretation rck: flat_layer nf vmax room flat_key_ok "rocksDB_DB L" "rocks_inv nf vmax room L F" "\<lambda>d. F (rocks_db d)"
proof (unfold_locales, goal_cases)
  case (1 t k)
  then show ?case by (simp add: flat_key_ok_def)
next
  case (2 d)
  then show ?case by (rule rocks_invD(2))
next
  case (3 d)
  then show ?case by (rule rocks_invD(4))
next
  case (4 d t k v b c)
  then show ?case using rocksDB_put_ok [OF 4(1,3-5)] by (simp add: rocksDB_DB_def rocksDB_Insert_def)
next
  case (5 d t k b fs row c)
  then show ?case by (simp add: rocksDB_DB_def rocksDB_Read_run [OF 5(1)])
next
  case (6 d t k c fs)
  then show ?case by (simp add: rocksDB_DB_def rocksDB_Read_run [OF 6(1)] Decode_empty)
next
  case (7 d t k v b data b' c)
  then show ?case using rocksDB_put_ok [OF 7(1,6-8), of t k] by (simp add: rocksDB_DB_def rocksDB_Update_def rocksDB_Read_run [OF 7(1)])
next
  case (8 d t k v b c)
  then show ?case
    using rocksDB_put_ok [OF 8(1,4,6,7), of t k] by (auto simp: rocksDB_DB_def rocksDB_Update_def rocksDB_Read_run [OF 8(1)] Decode_empty)
next
  case (9 d i m)
  then show ?case by (auto simp: rocksDB_DB_def rocksDB_InitThread_def)
next
  case (10 d fs c t k n)
  have "\<forall>key b. F (rocks_db d) key = Some b \<longrightarrow> (\<exists>row. Decode (field_codec nf) b fs = Ret (Inr row))" using 10(2) by blast
  from rocksDB_Scan_ok [OF 10(1) this, of n c t k] show ?case using 10(1) by (cases "n < 0") (auto simp: rocksDB_DB_def rocksDB_Scan_def)
qed

interpretation rckm: measured_database nf vmax flat_key_ok "rocksDB_DB L" "rocks_inv nf vmax room L F"
  "\<lambda>d. rows_of nf (flat_tables (F (rocks_db d)))" H
  for nf vmax room and L :: "'s rockslib" and F and H :: "'h hdrlib"
  by unfold_locales

section \<open>A concrete store\<close>

definition map_rocks :: "(string, bytes) fmap rockslib" where
  "map_rocks =
     (let tbl = \<lparr>BlockSize = 4096, BlockSizeDeviation = 10, CacheIndexAndFilterBlocks = False, NoBlockCache = False,
            PinL0FilterAndIndexBlocksInCache = False, WholeKeyFiltering = True, BlockRestartInterval = 16, BloomFilterBits = None,
            IndexType = KBinarySearchIndexType\<rparr>
      in \<lparr>rocks_DefaultOptions = \<lparr>CreateIfMissing = False, AllowConcurrentMemtableWrites = True, AllowMmapReads = False, AllowMmapWrites = False,
       ArenaBlockSize = 0, DbWriteBufferSize = 0, HardPendingCompactionBytesLimit = 0, Level0FileNumCompactionTrigger = 4,
       Level0SlowdownWritesTrigger = 20, Level0StopWritesTrigger = 36, MaxBytesForLevelBase = 0, MaxBytesForLevelMultiplier = f64_lit 10,
       MaxTotalWalSize = 0, MemtableHugePageSize = 0, NumLevels = 7, UseDirectReads = False, UseFsync = False, WriteBufferSize = 0,
       MaxWriteBufferNumber = 2, WalDir = [], BlockBasedTableFactory = tbl\<rparr>, rocks_DefaultTableOptions = tbl,
     rocks_OpenDb = (\<lambda>removed opts dir. Inr fmempty), rocks_Close = (\<lambda>s. s),
     rocks_Get = (\<lambda>k s. Inr (case fmlookup s k of None \<Rightarrow> [] | Some v \<Rightarrow> v)),
     rocks_Put = (\<lambda>k v s. (None, fmupd k v s)), rocks_Delete = (\<lambda>k s. (None, fmdrop k s)),
     rocks_Seek = (\<lambda>k s. entries_from (fmlookup s) k), rocks_Err = (\<lambda>k n s. None)\<rparr>)"

lemma rocks_laws_map_rocks: "rocks_laws room map_rocks fmlookup"
  unfolding rocks_laws_def map_rocks_def Let_def rockslib.simps
  by (intro conjI allI impI) (auto simp: fmdrop.rep_eq map_drop_def map_filter_def fun_eq_iff entries_from_sorted in_entries_from simp del: dom_fmlookup)

definition fresh_rocks :: "nat \<Rightarrow> (string, bytes) fmap rocksDB" where
  "fresh_rocks n = \<lparr>rocks_db = fmempty, rocks_r = field_codec n, rocks_bufPool = NewBufPool\<rparr>"

lemma rocks_inv_fresh: "sizes_ok n vmax room \<Longrightarrow> rocks_inv n vmax room map_rocks fmlookup (fresh_rocks n)"
  using rocks_laws_map_rocks by (simp add: rocks_inv_def fresh_rocks_def flat_encoded_def)

end
