(* ===== verification/Commands.thy ===== *)
theory Commands
  imports TiKVTxn BoltDB
begin

text \<open>
  The commands of the program (\<^verbatim>\<open>cmd/go-ycsb\<close>): the start (\<^verbatim>\<open>main.go\<close>), \<^verbatim>\<open>load\<close> and \<^verbatim>\<open>run\<close> (\<^verbatim>\<open>client.go\<close>),
  \<^verbatim>\<open>count\<close> (\<^verbatim>\<open>count.go\<close>) and \<^verbatim>\<open>clean\<close> (\<^verbatim>\<open>clean.go\<close>).

  \<^item> The property package is third-party code: its loading, its \<^verbatim>\<open>Set\<close> and the getters of a set of properties are the record
    \<open>proplib\<close>. The registries of creators are arguments.
  \<^item> The global variables are the record \<open>globals\<close>, with the measurement and the database in \<open>g_world\<close>.
  \<^item> A command gives the lines it prints; a line with a time holds the time and not its text.
\<close>

section \<open>The start\<close>

record 'p proplib =
  props_New :: 'p
  props_MustLoadFiles :: "string list \<Rightarrow> 'p outcome"
  props_Set :: "string \<Rightarrow> string \<Rightarrow> 'p \<Rightarrow> goerror option \<times> 'p"
  props_Map :: "'p \<Rightarrow> (string \<times> string) list"
  props_view :: "'p \<Rightarrow> properties"

record ('p, 'w, 'c, 'h, 'd) globals =
  globalProps :: 'p
  tableName :: string
  globalWorkload :: 'w
  globalDB :: "('c, ('h, 'd) world) DB"
  g_world :: "('h, 'd) world"

definition SplitN2 :: "char \<Rightarrow> string \<Rightarrow> string list" where
  "SplitN2 c s = (if c \<in> set s then [takeWhile (\<lambda>x. x \<noteq> c) s, tl (dropWhile (\<lambda>x. x \<noteq> c) s)] else [s])"

fun strings_Contains :: "string \<Rightarrow> string \<Rightarrow> bool" where
  "strings_Contains [] sub = (sub = [])"
| "strings_Contains (x # xs) sub = (HasPrefix (x # xs) sub \<or> strings_Contains xs sub)"

fun set_values :: "'p proplib \<Rightarrow> string list \<Rightarrow> 'p \<Rightarrow> 'p outcome" where
  "set_values P [] ps = Ret ps"
| "set_values P (v # vs) ps = (case SplitN2 (CHR ''='') v of
       [name, val] \<Rightarrow> set_values P vs (snd (props_Set P name val ps))
     | _ \<Rightarrow> Exit (''bad property: `'' @ v @ ''`, expected format `name=value`''))"

definition isWorkloadF :: "string list \<Rightarrow> bool" where
  "isWorkloadF propertyFiles = list_ex (\<lambda>pf. strings_Contains pf ''workloadf'') propertyFiles"

text \<open>The database of a command: created by name and wrapped.\<close>

definition open_db ::
  "'h hdrlib \<Rightarrow> (string, properties \<Rightarrow> (goerror + (('c, 'd) DB \<times> 'd)) outcome) gomap \<Rightarrow> string \<Rightarrow> properties \<Rightarrow> 'p \<Rightarrow> string \<Rightarrow> 'w \<Rightarrow>
     'h runtime \<Rightarrow> ('p, 'w, 'c, 'h, 'd) globals outcome" where
  "open_db H dbs dbName p ps table wl rt = (case GetDBCreator dbs dbName of
       None \<Rightarrow> Exit (dbName @ '' is not registered'')
     | Some create \<Rightarrow> obind (create p) (\<lambda>res. case res of
         Inl err \<Rightarrow> Exit (''create db '' @ dbName @ '' failed '' @ err)
       | Inr (db, d) \<Rightarrow> Ret \<lparr>globalProps = ps, tableName = table, globalWorkload = wl, globalDB = DbWrapper H db, g_world = (rt, d)\<rparr>))"

definition open_workload ::
  "(string, properties \<Rightarrow> (goerror + 'w) outcome) gomap \<Rightarrow> properties \<Rightarrow> 'w outcome" where
  "open_workload workloads p =
     (let workloadName = GetString p prop_Workload ''core''
      in case GetWorkloadCreator workloads workloadName of
           None \<Rightarrow> Panic ''nil pointer dereference''
         | Some create \<Rightarrow> obind (create p) (\<lambda>res. case res of
             Inl err \<Rightarrow> Exit (''create workload '' @ workloadName @ '' failed '' @ err)
           | Inr wl \<Rightarrow> Ret wl))"

definition initialGlobal ::
  "'p proplib \<Rightarrow> 'h hdrlib \<Rightarrow> (string, properties \<Rightarrow> (goerror + 'w) outcome) gomap \<Rightarrow>
     (string, properties \<Rightarrow> (goerror + (('c, 'd) DB \<times> 'd)) outcome) gomap \<Rightarrow> string list \<Rightarrow> string list \<Rightarrow> string \<Rightarrow>
     string \<Rightarrow> ('p \<Rightarrow> 'p) \<Rightarrow> 'h runtime \<Rightarrow> ('p, 'w, 'c, 'h, 'd) globals outcome" where
  "initialGlobal P H workloads dbs propertyFiles propertyValues table dbName onProperties rt =
     obind (if length propertyFiles > 0 then props_MustLoadFiles P propertyFiles else Ret (props_New P)) (\<lambda>ps.
     obind (set_values P propertyValues ps) (\<lambda>ps.
       let ps = snd (props_Set P ''_workloadf'' (if isWorkloadF propertyFiles then ''true'' else ''false'') ps);
           ps = onProperties ps
       in obind (InitMeasure (props_view P ps) rt) (\<lambda>rt.
         let table = (if length table = 0 then GetString (props_view P ps) prop_TableName prop_TableNameDefault else table)
         in case props_Set P prop_TableName table ps of
              (Some err, ps) \<Rightarrow> Panic err
            | (None, ps) \<Rightarrow> obind (open_workload workloads (props_view P ps)) (\<lambda>wl. open_db H dbs dbName (props_view P ps) ps table wl rt))))"

section \<open>Output\<close>

datatype cmd_line =
    Line string
  | Elapsed string int
  | KeyRate int int

definition stars :: cmd_line where
  "stars = Line ''**********************************************''"

definition print_properties :: "'p proplib \<Rightarrow> 'p \<Rightarrow> cmd_line list" where
  "print_properties P ps = [Line ''***************** properties *****************''] @
     map (\<lambda>(k, v). Line (CHR 0x22 # k @ [CHR 0x22, CHR ''='', CHR 0x22] @ v @ [CHR 0x22])) (props_Map P ps) @ [stars]"

text \<open>The test that \<^verbatim>\<open>count\<close> and \<^verbatim>\<open>clean\<close> make for TiKV in raw mode.\<close>

definition missing_apiversion :: "properties \<Rightarrow> string \<Rightarrow> bool" where
  "missing_apiversion p dbName \<longleftrightarrow> dbName = ''tikv'' \<and> GetString p ''tikv.type'' ''raw'' = ''raw'' \<and> PropGet p ''tikv.apiversion'' = None"

definition apiversion_error :: "cmd_line list" where
  "apiversion_error = [Line ''ERROR: Missing required parameter '-p tikv.apiversion' for TiKV raw mode.'',
     Line ''Please specify the API version: -p tikv.apiversion=V1 or -p tikv.apiversion=V2'']"

text \<open>The two readings of the clock around a call.\<close>

definition timed :: "(('h, 'd) world, 'a) dbop \<Rightarrow> (('h, 'd) world, int \<times> 'a) dbop" where
  "timed call w =
     (let (start, rt) = time_Now (fst w)
      in obind (call (rt, snd w)) (\<lambda>(res, w). let (now, rt) = time_Now (fst w) in Ret ((time_Sub now start, res), rt, snd w)))"

section \<open>Count\<close>

definition runNativeCount ::
  "('c \<Rightarrow> string \<Rightarrow> (('h, 'd) world, goerror + int) dbop) \<Rightarrow> 'c \<Rightarrow> string \<Rightarrow> ('h, 'd) world \<Rightarrow> (cmd_line list \<times> ('h, 'd) world) outcome" where
  "runNativeCount Count ctx table w = obind (timed (Count ctx table) w) (\<lambda>((elapsed, res), w). case res of
       Inl err \<Rightarrow> Exit (''Count failed: '' @ err)
     | Inr n \<Rightarrow> Ret ([Line (''Counting keys in table '' @ CHR 0x27 # table @ CHR 0x27 # ''...''), stars, Line (''Total keys: '' @ itoa n),
         Elapsed ''Time elapsed: '' elapsed, KeyRate n elapsed, stars], w))"

text \<open>The keys of a thread of the count by scans, and the loop of the thread.\<close>

definition keysPerThread :: "int \<Rightarrow> int \<Rightarrow> int outcome" where
  "keysPerThread recordCount countThreads = obind (i64_div recordCount countThreads) (\<lambda>q. Ret (if q = 0 then 1 else q))"

definition count_range :: "int \<Rightarrow> int \<Rightarrow> int \<Rightarrow> int \<Rightarrow> int \<times> int" where
  "count_range per countThreads recordCount tid =
     (let startIdx = wrap64 (tid * per); endIdx = wrap64 (startIdx + per)
      in (startIdx, if tid = countThreads - 1 then recordCount else endIdx))"

partial_function (option) count_scan ::
  "('c, ('h, 'd) world) DB \<Rightarrow> 'c \<Rightarrow> string \<Rightarrow> string \<Rightarrow> int \<Rightarrow> int \<Rightarrow> int \<Rightarrow> int \<Rightarrow> ('h, 'd) world \<Rightarrow> (int \<times> ('h, 'd) world) outcome option" where
  "count_scan db c table keyPrefix countBatch endIdx idx localCount w =
     (if idx < endIdx then
        let batchSize = (if wrap64 (idx + countBatch) > endIdx then wrap64 (endIdx - idx) else countBatch)
        in case db_Scan db c table (keyPrefix @ itoa idx) batchSize [] w of
             Ret r \<Rightarrow> count_scan db c table keyPrefix countBatch endIdx (wrap64 (idx + countBatch))
                 (case fst r of Inl err \<Rightarrow> localCount | Inr rows \<Rightarrow> wrap64 (localCount + int (length rows))) (snd r)
           | Panic m \<Rightarrow> Some (Panic m)
           | Exit m \<Rightarrow> Some (Exit m)
           | Diverge \<Rightarrow> Some Diverge
      else Some (Ret (localCount, w)))"

definition count_thread ::
  "('c, ('h, 'd) world) DB \<Rightarrow> string \<Rightarrow> string \<Rightarrow> int \<Rightarrow> int \<Rightarrow> int \<Rightarrow> int \<Rightarrow> nat \<Rightarrow> int \<times> ('h, 'd) world \<Rightarrow> (int \<times> ('h, 'd) world) outcome" where
  "count_thread db table keyPrefix countBatch per countThreads recordCount tid s =
     obind (db_InitThread db (int tid) countThreads (snd s)) (\<lambda>(c, w).
       let (startIdx, endIdx) = count_range per countThreads recordCount (int tid)
       in case count_scan db c table keyPrefix countBatch endIdx startIdx 0 w of
            None \<Rightarrow> Diverge
          | Some res \<Rightarrow> obind res (\<lambda>(n, w). obind (db_CleanupThread db c w) (\<lambda>w. Ret (wrap64 (fst s + n), w))))"

text \<open>The threads run one after the other here; each adds its number to the total at its end.\<close>

definition runScanBasedCount ::
  "properties \<Rightarrow> ('c, ('h, 'd) world) DB \<Rightarrow> string \<Rightarrow> int \<Rightarrow> int \<Rightarrow> ('h, 'd) world \<Rightarrow> (cmd_line list \<times> ('h, 'd) world) outcome" where
  "runScanBasedCount p db table countThreads countBatch w =
     (let recordCount = GetInt64 p prop_RecordCount prop_RecordCountDefault;
          keyPrefix = GetString p prop_KeyPrefix prop_KeyPrefixDefault
      in obind (timed (\<lambda>w. obind (keysPerThread recordCount countThreads) (\<lambda>per.
             ofold (count_thread db table keyPrefix countBatch per countThreads recordCount) [0..<nat countThreads] (0, w))) w) (\<lambda>((elapsed, totalCount), w).
           Ret ([Line (''Counting keys in table '' @ CHR 0x27 # table @ CHR 0x27 # '' using '' @ itoa countThreads @ '' threads...''),
             Line (''Estimated record count: '' @ itoa recordCount), stars, Line (''Total keys counted: '' @ itoa totalCount),
             Elapsed ''Time elapsed: '' elapsed, KeyRate totalCount elapsed, Line (''Threads used: '' @ itoa countThreads), stars], w)))"

definition runCountCommandFunc ::
  "'p proplib \<Rightarrow> 'c \<Rightarrow> string \<Rightarrow> int \<Rightarrow> int \<Rightarrow> ('p, 'w, 'c, 'h, 'd) globals \<Rightarrow> (cmd_line list \<times> ('h, 'd) world) outcome" where
  "runCountCommandFunc P ctx dbName countThreads countBatch g =
     (if missing_apiversion (props_view P (globalProps g)) dbName then Ret (apiversion_error, g_world g)
      else case db_Count (globalDB g) of
          Some Count \<Rightarrow> obind (runNativeCount Count ctx (tableName g) (g_world g)) (\<lambda>(out, w).
            Ret (print_properties P (globalProps g) @ Line (''Using native count implementation for '' @ dbName) # out, w))
        | None \<Rightarrow> obind (runScanBasedCount (props_view P (globalProps g)) (globalDB g) (tableName g) countThreads countBatch (g_world g)) (\<lambda>(out, w).
            Ret (print_properties P (globalProps g) @ Line (''Using scan-based concurrent count for '' @ dbName) # out, w)))"

section \<open>Clean\<close>

definition runCleanCommandFunc ::
  "'p proplib \<Rightarrow> 'c \<Rightarrow> string \<Rightarrow> bool \<Rightarrow> string \<Rightarrow> ('p, 'w, 'c, 'h, 'd) globals \<Rightarrow> (cmd_line list \<times> ('h, 'd) world) outcome" where
  "runCleanCommandFunc P ctx dbName cleanConfirm userInput g =
     (if missing_apiversion (props_view P (globalProps g)) dbName then Ret (apiversion_error, g_world g)
      else let out = print_properties P (globalProps g); table = tableName g
        in if \<not> cleanConfirm then
             Ret (out @ [Line ''ERROR: This is a destructive operation that will delete ALL keys in the table.'',
               Line ''Please add the --confirm flag to proceed:'', Line (''  go-ycsb clean '' @ dbName @ '' --confirm ...'')], g_world g)
           else case db_Clean (globalDB g) of
               None \<Rightarrow> Ret (out @ [Line (''Database '' @ CHR 0x27 # dbName @ CHR 0x27 # '' does not implement Clean operation''),
                 Line ''Only the following databases support clean operation:'', Line ''  - TiKV (raw mode)'', Line ''  - TiKV (txn mode)''], g_world g)
             | Some Clean \<Rightarrow>
                 let out = out @ [Line (''WARNING: You are about to delete ALL keys in table '' @ CHR 0x27 # table @ [CHR 0x27]),
                   Line ''This operation cannot be undone!'']
                 in if userInput \<noteq> ''yes'' then Ret (out @ [Line ''Operation cancelled.''], g_world g)
                    else obind (timed (Clean ctx table) (g_world g)) (\<lambda>((elapsed, e), w). case e of
                        Some err \<Rightarrow> Exit (''Clean failed: '' @ err)
                      | None \<Rightarrow> Ret (out @ [Line (''Cleaning all keys in table '' @ CHR 0x27 # table @ CHR 0x27 # ''...''), stars,
                          Line ''Clean completed successfully'', Elapsed ''Time elapsed: '' elapsed, stars], w)))"

section \<open>Load and run\<close>

text \<open>The flags of a command; \<open>None\<close> is a flag that is not given.\<close>

record client_flags =
  threadsArg :: "int option"
  targetArg :: "int option"
  reportInterval :: "int option"
  promeServer :: "string option"
  benchNo :: "string option"
  statistic :: bool

definition flag_error :: "client_flags \<Rightarrow> string option" where
  "flag_error f =
     (if promeServer f \<noteq> None \<and> benchNo f = None then Some ''ERROR: --bench-no is required when using --prome-server''
      else if statistic f \<and> promeServer f = None then Some ''ERROR: --prome-server is required when using --statistic''
      else if statistic f \<and> benchNo f = None then Some ''ERROR: --bench-no is required when using --statistic''
      else None)"

definition set_opt :: "'p proplib \<Rightarrow> string \<Rightarrow> string option \<Rightarrow> 'p \<Rightarrow> 'p" where
  "set_opt P key v ps = (case v of None \<Rightarrow> ps | Some s \<Rightarrow> snd (props_Set P key s ps))"

definition client_onProperties :: "'p proplib \<Rightarrow> client_flags \<Rightarrow> bool \<Rightarrow> string \<Rightarrow> 'p \<Rightarrow> 'p" where
  "client_onProperties P f doTrans command ps =
     (let doTransFlag = (if \<not> doTrans then ''false'' else ''true'');
          ps = snd (props_Set P prop_DoTransactions doTransFlag ps);
          ps = snd (props_Set P prop_Command command ps);
          ps = set_opt P prop_ThreadCount (map_option itoa (threadsArg f)) ps;
          ps = set_opt P prop_Target (map_option itoa (targetArg f)) ps
      in set_opt P prop_LogInterval (map_option itoa (reportInterval f)) ps)"

text \<open>The default of the API version, which is set after the database has been created.\<close>

definition default_apiversion :: "'p proplib \<Rightarrow> string \<Rightarrow> string \<Rightarrow> 'p \<Rightarrow> 'p" where
  "default_apiversion P dbName tikvType ps =
     (if dbName = ''tikv'' \<and> tikvType = ''raw'' \<and> PropGet (props_view P ps) ''tikv.apiversion'' = None
      then snd (props_Set P ''tikv.apiversion'' ''V1'' ps) else ps)"

definition print_command :: "client_flags \<Rightarrow> string \<Rightarrow> string \<Rightarrow> cmd_line list" where
  "print_command f command dbName = [Line ''***************** command *****************'',
     Line (''./bin/go-ycsb '' @ command @ '' '' @ dbName @
       (case threadsArg f of None \<Rightarrow> [] | Some n \<Rightarrow> '' --threads '' @ itoa n) @
       (case promeServer f of None \<Rightarrow> [] | Some s \<Rightarrow> '' --prome-server '' @ s) @
       (case benchNo f of None \<Rightarrow> [] | Some s \<Rightarrow> '' --bench-no '' @ s)), stars]"

text \<open>\<open>Query\<close> stands for the query to Prometheus and \<open>run\<close> for the client's run with the measured output behind it.\<close>

definition runClientCommandFunc ::
  "'p proplib \<Rightarrow> (string \<Rightarrow> string \<Rightarrow> goerror + string) \<Rightarrow> (string \<Rightarrow> ('p \<Rightarrow> 'p) \<Rightarrow> ('p, 'w, 'c, 'h, 'd) globals outcome) \<Rightarrow>
     (properties \<Rightarrow> ('p, 'w, 'c, 'h, 'd) globals \<Rightarrow> (int \<times> ('h, 'd) world) outcome) \<Rightarrow> client_flags \<Rightarrow> string list \<Rightarrow> bool \<Rightarrow> string \<Rightarrow>
     (cmd_line list \<times> ('h, 'd) world option) outcome" where
  "runClientCommandFunc P Query init run f args doTrans command =
     (let dbName = (case args of [] \<Rightarrow> [] | a # _ \<Rightarrow> a)
      in case flag_error f of
           Some msg \<Rightarrow> Ret ([Line msg], None)
         | None \<Rightarrow>
             if statistic f then
               Ret ([stars, Line ''Statistic mode: Querying metrics from Prometheus...'', Line (''Prometheus URL: '' @ the (promeServer f)),
                 Line (''Benchmark ID: '' @ the (benchNo f)),
                 Line (case Query (the (promeServer f)) (the (benchNo f)) of Inl err \<Rightarrow> ''Failed to query and aggregate metrics: '' @ err
                   | Inr csvFile \<Rightarrow> ''Successfully saved statistics to: '' @ csvFile), stars], None)
             else if dbName = [] then Ret ([Line ''ERROR: db name is required''], None)
             else obind (init dbName (client_onProperties P f doTrans command)) (\<lambda>g.
               let tikvType = GetString (props_view P (globalProps g)) ''tikv.type'' ''raw'';
                   g = g\<lparr>globalProps := default_apiversion P dbName tikvType (globalProps g)\<rparr>;
                   isPrometheusSupported = (dbName = ''tikv'' \<and> tikvType = ''raw'' \<and> doTrans)
               in if promeServer f \<noteq> None \<and> \<not> isPrometheusSupported then
                    Ret ([Line (''ERROR: --prome-server is only supported for 'run tikv' with tikv.type=raw (current: db='' @ dbName @
                      '', tikv.type='' @ tikvType @ '', command='' @ command @ '')'')], Some (g_world g))
                  else let g = (case promeServer f of None \<Rightarrow> g
                             | Some url \<Rightarrow> g\<lparr>g_world := (SetPrometheusConfig url (the (benchNo f)) (fst (g_world g)), snd (g_world g))\<rparr>)
                    in obind (run (props_view P (globalProps g)) g) (\<lambda>(elapsed, w).
                         Ret (print_properties P (globalProps g) @ print_command f command dbName @ [stars, Elapsed ''Run finished, takes '' elapsed], Some w))))"

definition runLoadCommandFunc where
  "runLoadCommandFunc P Query init run f args = runClientCommandFunc P Query init run f args False ''load''"

definition runTransCommandFunc where
  "runTransCommandFunc P Query init run f args = runClientCommandFunc P Query init run f args True ''run''"

text \<open>The run of the client on the workload of a command: the workers, their end and the analysis of the table.\<close>

definition Client_Run :: "'h hdrlib \<Rightarrow> env \<Rightarrow> (nat \<Rightarrow> rand) \<Rightarrow> (nat \<times> ctx \<times> bool) list \<Rightarrow> 'c \<Rightarrow> properties \<Rightarrow>
    ('p, core, 'c, 'h, 'd) globals \<Rightarrow> (int \<times> ('h, 'd) world) outcome" where
  "Client_Run H E rs sched ctx p g = obind (timed (\<lambda>w.
       obind (start_threads p (globalDB g) rs \<lparr>cl_core = globalWorkload g, cl_threads = [], cl_world = w\<rparr>) (\<lambda>s.
       obind (client_run H E (globalDB g) sched s) (\<lambda>s. obind (finish_run p (globalDB g) ctx s) (\<lambda>s. Ret ((), cl_world s))))) (g_world g))
     (\<lambda>((elapsed, _), w). Ret (elapsed, w))"

section \<open>Facts\<close>

lemma timed_measured:
  assumes "measuring H rt" "call d = Ret (res, d')"
  shows "\<exists>el rt'. timed (measured H op err call) (rt, d) = Ret ((el, res), rt', d')"
proof -
  obtain start rt1 where t: "time_Now rt = (start, rt1)" by fastforce
  have "measuring H rt1" using time_Now_measuring [OF assms(1) t] by blast
  from measured_samples [of H rt1 call d res d' op err, OF this assms(2)] obtain rt2 where "measured H op err call (rt1, d) = Ret (res, rt2, d')" by blast
  then show ?thesis by (simp add: timed_def t case_prod_unfold Let_def)
qed

text \<open>What holds of a value, if there is one.\<close>

definition oret :: "'a outcome \<Rightarrow> ('a \<Rightarrow> bool) \<Rightarrow> bool" where
  "oret m Q \<longleftrightarrow> (\<forall>x. m = Ret x \<longrightarrow> Q x)"

lemma oret_simps [simp]: "oret (Ret x) Q = Q x" "oret (Panic e) Q" "oret (Exit e) Q" "oret Diverge Q"
  by (simp_all add: oret_def)

lemma oret_bind: "(\<And>x. oret (f x) Q) \<Longrightarrow> oret (obind m f) Q"
  by (cases m) simp_all

text \<open>The database of a command is always the measuring wrapper.\<close>

definition is_wrapped :: "'h hdrlib \<Rightarrow> ('p, 'w, 'c, 'h, 'd) globals \<Rightarrow> bool" where
  "is_wrapped H g \<longleftrightarrow> (\<exists>db. globalDB g = DbWrapper H db)"

lemma initialGlobal_wraps:
  assumes "initialGlobal P H workloads dbs files vals table dbName onProps rt = Ret g"
  shows "\<exists>db. globalDB g = DbWrapper H db"
proof -
  have db: "oret (open_db H dbs dbName p ps tab wl rt) (is_wrapped H)" for p ps tab wl rt
    by (auto simp: open_db_def is_wrapped_def intro!: oret_bind split: option.split sum.split)
  have "oret (initialGlobal P H workloads dbs files vals table dbName onProps rt) (is_wrapped H)"
    unfolding initialGlobal_def Let_def by (intro oret_bind) (auto intro!: oret_bind db split: prod.split option.split)
  then show ?thesis using assms by (simp add: oret_def is_wrapped_def)
qed

text \<open>A concrete property package: the properties are the list of what was set.\<close>

definition list_props :: "(string \<times> string) list proplib" where
  "list_props = \<lparr>props_New = [], props_MustLoadFiles = (\<lambda>files. Exit ''no such file''),
     props_Set = (\<lambda>k v ps. (None, AList.update k v ps)), props_Map = (\<lambda>ps. ps), props_view = (\<lambda>ps. with_strings ps no_properties)\<rparr>"

definition sample_runtime :: "int list runtime" where
  "sample_runtime = \<lparr>clock = (\<lambda>_. 0), globalMeasure = None, warmUp = 0\<rparr>"

section \<open>Properties\<close>


definition sample_globals :: "((string \<times> string) list, unit, nat, int list, (string, bytes) fmap rawDB) globals" where
  "sample_globals = \<lparr>globalProps = [(''tikv.apiversion'', ''V2'')], tableName = ''usertable'', globalWorkload = (),
     globalDB = DbWrapper list_hdr (raw_DB map_rawkv), g_world = (fresh_runtime, stale_raw)\<rparr>"


text \<open>(C16) The count command never counts by scans. Every database of a command is the measuring wrapper, which has a
  \<^verbatim>\<open>Count\<close> whatever it wraps: for a layer without one the command ends the process with an error, and for a layer with one it
  prints the number that the layer gives.\<close>

theorem count_command_native:
  assumes "initialGlobal P H workloads dbs files vals table dbName onProps rt0 = Ret g"
    and "\<not> missing_apiversion (props_view P (globalProps g)) dbName" "g_world g = (rt, d)" "measuring H rt"
    and "run = runCountCommandFunc P ctx dbName countThreads countBatch g"
  shows "(\<exists>db. globalDB g = DbWrapper H db) \<and> (\<forall>db. globalDB g = DbWrapper H db \<longrightarrow> (case db_Count db of
       None \<Rightarrow> run = Exit ''Count failed: database does not implement CountDB interface''
     | Some Count \<Rightarrow> \<forall>n d'. Count ctx (tableName g) d = Ret (Inr n, d') \<longrightarrow>
         (\<exists>out rt'. run = Ret (out, rt', d') \<and> Line (''Total keys: '' @ itoa n) \<in> set out)))"
proof (intro conjI allI impI)
  show "\<exists>db. globalDB g = DbWrapper H db" by (rule initialGlobal_wraps [OF assms(1)])
  fix db assume db: "globalDB g = DbWrapper H db"
  have run: "run = obind (runNativeCount (wrap_Count H db) ctx (tableName g) (rt, d)) (\<lambda>(out, w).
      Ret (print_properties P (globalProps g) @ Line (''Using native count implementation for '' @ dbName) # out, w))"
    using assms(2,3,5) by (simp add: runCountCommandFunc_def db DbWrapper_def)
  show "case db_Count db of
       None \<Rightarrow> run = Exit ''Count failed: database does not implement CountDB interface''
     | Some Count \<Rightarrow> \<forall>n d'. Count ctx (tableName g) d = Ret (Inr n, d') \<longrightarrow>
         (\<exists>out rt'. run = Ret (out, rt', d') \<and> Line (''Total keys: '' @ itoa n) \<in> set out)"
  proof (cases "db_Count db")
    case None
    then show ?thesis by (simp add: run runNativeCount_def timed_def wrap_Count_def Let_def case_prod_unfold)
  next
    case (Some Count)
    have "\<exists>out rt'. run = Ret (out, rt', d') \<and> Line (''Total keys: '' @ itoa n) \<in> set out" if c: "Count ctx (tableName g) d = Ret (Inr n, d')" for n d'
    proof -
      obtain el rt' where "timed (measured H ''COUNT'' err_of (Count ctx (tableName g))) (rt, d) = Ret ((el, Inr n), rt', d')"
        using timed_measured [of H rt "Count ctx (tableName g)" d "Inr n" d' "''COUNT''" err_of, OF assms(4) c] by blast
      then show ?thesis by (simp add: run runNativeCount_def wrap_Count_def Some)
    qed
    then show ?thesis using Some by auto
  qed
qed

theorem count_command_native_witness:
  "\<exists>g. initialGlobal list_props list_hdr [(''core'', \<lambda>p. Ret (Inr ()))] [(''boltdb'', \<lambda>p. Ret (Inr (boltDB_DB map_bolt, fresh_bolt 3)))] []
      [''recordcount=5''] [] ''boltdb'' id sample_runtime = Ret g \<and>
    runCountCommandFunc list_props () ''boltdb'' 10 1000 g = Exit ''Count failed: database does not implement CountDB interface''"
proof -
  define ps where "ps = [(''recordcount'', ''5''), (''_workloadf'', ''false'')]"
  define p where "p = with_strings ps no_properties"
  define rt where "rt = sample_runtime\<lparr>globalMeasure := Some \<lparr>measurement_p = p, measurer = MHistograms (InitHistograms p), promeWriter = None\<rparr>\<rparr>"
  define g where "g = \<lparr>globalProps = ps @ [(''table'', ''usertable'')], tableName = ''usertable'', globalWorkload = (),
    globalDB = DbWrapper list_hdr (boltDB_DB map_bolt), g_world = (rt, fresh_bolt 3)\<rparr>"
  have vals: "set_values list_props [''recordcount=5''] [] = Ret [(''recordcount'', ''5'')]" by (simp add: SplitN2_def list_props_def)
  have upd: "AList.update ''_workloadf'' ''false'' [(''recordcount'', ''5'')] = ps" "AList.update ''table'' ''usertable'' ps = ps @ [(''table'', ''usertable'')]"
    by (simp_all add: ps_def)
  have meas: "InitMeasure p sample_runtime = Ret rt"
    by (simp add: InitMeasure_def p_def ps_def rt_def sample_runtime_def EnableWarmUp_def)
  have i: "initialGlobal list_props list_hdr [(''core'', \<lambda>p. Ret (Inr ()))] [(''boltdb'', \<lambda>p. Ret (Inr (boltDB_DB map_bolt, fresh_bolt 3)))] []
      [''recordcount=5''] [] ''boltdb'' id sample_runtime = Ret g"
    using vals meas by (simp add: initialGlobal_def list_props_def isWorkloadF_def upd p_def [symmetric])
      (simp add: p_def ps_def open_workload_def open_db_def GetWorkloadCreator_def GetDBCreator_def g_def Let_def)
  have m: "measuring list_hdr rt"
    using hdr_laws_list_hdr
    by (simp add: rt_def sample_runtime_def measuring_def IsWarmUpFinished_def clock_ok_def latency_ok_def measurer_ok_def InitHistograms_def)
  have w: "g_world g = (rt, fresh_bolt 3)" "globalDB g = DbWrapper list_hdr (boltDB_DB map_bolt)" by (simp_all add: g_def)
  have c: "db_Count (boltDB_DB map_bolt) = None" by (simp add: boltDB_DB_def)
  have a: "\<not> missing_apiversion (props_view list_props (globalProps g)) ''boltdb''" by (simp add: missing_apiversion_def)
  have "runCountCommandFunc list_props () ''boltdb'' 10 1000 g = Exit ''Count failed: database does not implement CountDB interface''"
    using conjunct2 [OF count_command_native [OF i a w(1) m refl, of "()" 10 1000], rule_format, OF w(2)] by (simp add: c)
  then show ?thesis using i by blast
qed

end
