(* ===== verification/Spec2Isabelle.thy ===== *)
theory Spec2Isabelle
  imports RowCodec ConcurrentMap AckCounter_Conc WorkloadProps BoltDB TiKVTxn Badger RocksDB Commands
begin

text \<open>
  A verification of \<^verbatim>\<open>go-ycsb\<close>, a benchmark driver for key-value stores. A command reads properties, creates
  a workload and a database layer, wraps the layer with a measuring wrapper, and lets workers insert records (\<^verbatim>\<open>load\<close>) or
  run a mix of operations (\<^verbatim>\<open>run\<close>); \<^verbatim>\<open>count\<close> and \<^verbatim>\<open>clean\<close> act on a table. The workers draw keys
  and lengths from number generators, share a key sequence and an acknowledged counter, build values from pooled buffers, and
  call the layer, which encodes rows and stores them.

  \<^bold>\<open>Conventions.\<close> A call is an \<open>outcome\<close>: \<open>Ret\<close>, \<open>Panic\<close> (an uncaught panic), \<open>Exit\<close> (\<^verbatim>\<open>Fatal\<close>, \<^verbatim>\<open>os.Exit\<close>) or
  \<open>Diverge\<close> (a loop that does not end). An \<^verbatim>\<open>error\<close> is a value: \<open>goerror option\<close>, or the left side of a sum. An
  \<^verbatim>\<open>int64\<close> is an \<open>int\<close> with \<open>wrap64\<close> after each operation that may overflow, a \<^verbatim>\<open>uint64\<close> in bit operations a word;
  \<^verbatim>\<open>float64\<close> is exact IEEE arithmetic; a Go map is an association list with distinct keys; a \<^verbatim>\<open>rand.Rand\<close> is its stream
  of draws. State is passed explicitly. Third-party code is a parameter: the getters of the property package (\<open>properties\<close>,
  \<open>proplib\<close>), the HDR histogram (\<open>hdrlib\<close>), the stores (\<open>boltlib\<close>, \<open>rawkv\<close>, \<open>txnkv\<close>, \<open>badgerlib\<close>, \<open>rockslib\<close>). What
  is relied on of a store is a predicate of named laws (\<open>bolt_laws\<close>, \<open>rawkv_laws\<close>, \<open>txnkv_laws\<close>, \<open>badger_laws\<close>,
  \<open>rocks_laws\<close>), and each holds of a concrete store on finite maps, on which the examples run.

  \<^bold>\<open>Theories and sources.\<close>
  \<^item> \<open>Prelude\<close>, \<open>Float64\<close>, \<open>GoRand\<close>, \<open>GoStrings\<close>: outcomes, integers, floats, random draws and strings of Go.
    \<open>Props\<close>: \<^verbatim>\<open>pkg/prop/prop.go\<close>. \<open>Hash\<close>: \<^verbatim>\<open>pkg/util/hash.go\<close>, \<^verbatim>\<open>hack.go\<close>.
  \<^item> \<open>RowCodec\<close>: \<^verbatim>\<open>pkg/util/row.go\<close> and \<^verbatim>\<open>core.go\<close>, the encoding of rows: \<open>EncodeRow\<close>, \<open>DecodeRow\<close>, \<open>Encode\<close>,
    \<open>Decode\<close>. Round trips of varints and rows, and the panic on truncated bytes.
  \<^item> \<open>ConcurrentMap\<close>: \<^verbatim>\<open>pkg/util/concurrent_map.go\<close>. Every sequence of calls refines a finite map.
  \<^item> \<open>Util\<close>: \<^verbatim>\<open>pkg/util/util.go\<close>, \<^verbatim>\<open>output.go\<close>, buffers and output styles.
  \<^item> \<open>Generators\<close>: \<^verbatim>\<open>pkg/generator\<close>. Ranges, cycles, choices by weight, and that the incremental zeta of the zipfian
    generator is the one computed from the start.
  \<^item> \<open>AckCounter\<close>, \<open>AckCounter_Conc\<close>: \<^verbatim>\<open>acknowledged_counter.go\<close> and \<^verbatim>\<open>spinlock.go\<close>, as functions and as a step
    relation on goroutines. \<^verbatim>\<open>Last\<close> never runs ahead of the acknowledged prefix, under every interleaving.
  \<^item> \<open>Measurement\<close>: \<^verbatim>\<open>pkg/measurement\<close>. \<open>Ycsb\<close>: the interfaces \<open>DB\<close> and \<open>BatchDB\<close> and the registries of
    \<^verbatim>\<open>pkg/ycsb\<close>. \<open>DbWrapper\<close>: \<^verbatim>\<open>pkg/client/dbwrapper.go\<close>; the wrapper changes no result and adds exactly one
    sample per call and one to the total of the successful ones.
  \<^item> \<open>Workload\<close>, \<open>WorkloadFacts\<close>, \<open>WorkloadProps\<close>: \<^verbatim>\<open>pkg/workload/core.go\<close>: \<open>core_Create\<close>, keys, values, the data
    integrity check, \<open>DoInsert\<close>, \<open>DoTransaction\<close> and their batches. Key order, accepted configurations, and what the
    check accepts.
  \<^item> \<open>Database\<close>: the contract of a layer, \<open>kv_database\<close>, its extension \<open>measured_database\<close> through the wrapper, and what
    the operations of the workload do on any layer with the contract. \<open>Client\<close>, \<open>ClientFacts\<close>: \<^verbatim>\<open>pkg/client/client.go\<close>,
    the division of the operations, any schedule of the workers, \<open>load_layer\<close> and \<open>safe_layer\<close>.
  \<^item> \<open>RowStore\<close> and \<open>BoltDB\<close>: \<^verbatim>\<open>db/boltdb/db.go\<close>. \<open>FlatStore\<close>: the contract \<open>flat_layer\<close> of layers with keys
    \<^verbatim>\<open>table:key\<close>, which gives \<open>kv_database\<close>; \<open>TiKVRaw\<close>, \<open>TiKVTxn\<close> (\<^verbatim>\<open>db/tikv\<close>), \<open>Badger\<close> (\<^verbatim>\<open>db/badger/db.go\<close>) and
    \<open>RocksDB\<close> (\<^verbatim>\<open>db/rocksdb/db.go\<close>) keep it. Counting and cleaning end and are exact; a batch of a transaction is
    atomic; updates by swap and by read and write agree.
  \<^item> \<open>Commands\<close>: \<^verbatim>\<open>cmd/go-ycsb/main.go\<close>, \<^verbatim>\<open>client.go\<close>, \<^verbatim>\<open>count.go\<close>, \<^verbatim>\<open>clean.go\<close>. Cleaning needs both
    confirmations; counting never falls back to scans.
  \<^item> This theory: a load inserts every record, what was loaded is read, no run breaks the data integrity, on BoltDB; and the
    load on the layers over a flat store.

  \<^bold>\<open>Bounds and fuel.\<close> Theorems on counters and keys assume that the numbers they reach fit in an \<^verbatim>\<open>int64\<close>. \<open>sizes_ok\<close> bounds
  an encoded row, at most 22 bytes more than the value for each field, by the largest value a store takes. The insertion
  loop has one more unit of fuel than retries, which suffices if every insertion succeeds. The loop of \<open>nextKeyNum\<close> for the
  exponential distribution draws until the number is not negative and has no bound in the code; its fuel is a parameter, and
  running out is \<open>Diverge\<close>, which the safety theorems allow. The loops of count and clean are partial functions, and they are
  shown to end. A call of a layer is one step of a schedule.

  \<^bold>\<open>Not modelled.\<close>
  \<^item> The Prometheus writer (\<^verbatim>\<open>pkg/measurement/prometheus.go\<close>) beyond its configuration, \<^verbatim>\<open>pkg/util/tls.go\<close>, the signal
    handling and flag declarations of \<^verbatim>\<open>main.go\<close> and the interactive shell: network, files, terminal and the command line
    library.
  \<^item> The layers for SQL databases (\<^verbatim>\<open>db/mysql\<close>, \<^verbatim>\<open>db/pg\<close>, \<^verbatim>\<open>db/sqlite\<close>, \<^verbatim>\<open>db/spanner\<close>, \<^verbatim>\<open>db/cassandra\<close>): what a
    call does is the meaning of a text in the language of the server. The layers for Redis, etcd, MongoDB, DynamoDB,
    Elasticsearch, Aerospike, Pegasus, FoundationDB, MinIO and S3: they translate to the data model of a client library,
    several of them through JSON, and such a model would have to be made up. \<^verbatim>\<open>db/basic\<close> prints its calls.
  \<^item> The separate programs \<^verbatim>\<open>tool/report.go\<close>, \<^verbatim>\<open>check_keys.go\<close>, \<^verbatim>\<open>cas_conflict_check.go\<close>, \<^verbatim>\<open>key_size_check.go\<close>.
  \<^item> Aliasing of a pooled buffer with an uncommitted write, write conflicts of concurrent transactions, and the tickers that
    print summaries.
\<close>

section \<open>Load and run on BoltDB\<close>

text \<open>Keys and tables that BoltDB accepts, from the settings of the workload.\<close>

lemma bolt_keys:
  assumes "core_table c \<noteq> []" "0 \<le> zeroPadding c" "zeroPadding c \<le> 30000" "in64 n"
    and "length (GetString (core_p c) prop_KeyPrefix prop_KeyPrefixDefault) \<le> 2000"
  shows "bolt_key_ok (core_table c) (buildKeyName c n)"
  using length_buildKeyName [of c n] assms by (simp add: bolt_key_ok_def)

text \<open>A workload and a BoltDB layer that fit together.\<close>

definition bolt_setup ::
  "'h hdrlib \<Rightarrow> 's boltlib \<Rightarrow> env \<Rightarrow> properties \<Rightarrow> nat \<Rightarrow> int \<Rightarrow> core \<Rightarrow> 'h runtime \<Rightarrow> 's boltDB \<Rightarrow> bool" where
  "bolt_setup H B E p nf vmax c rt d \<longleftrightarrow> workload_fits E p nf vmax c \<and> client_settings p \<and> measuring H rt \<and> bolt_inv nf vmax B d \<and>
     core_table c \<noteq> [] \<and> 0 \<le> zeroPadding c \<and> zeroPadding c \<le> 30000 \<and>
     length (GetString p prop_KeyPrefix prop_KeyPrefixDefault) \<le> 2000"

lemma bolt_setup_layer:
  assumes "bolt_setup H B E p nf vmax c rt d"
  shows "layer_setup H E p nf vmax c rt" "in64 n \<Longrightarrow> bolt_key_ok (core_table c) (buildKeyName c n)" "bolt_inv nf vmax B d"
proof -
  have s: "workload_fits E p nf vmax c" "client_settings p" "measuring H rt" "bolt_inv nf vmax B d" using assms by (simp_all add: bolt_setup_def)
  then show "layer_setup H E p nf vmax c rt" "bolt_inv nf vmax B d" using bolt_invD(2) [OF s(4)] by (simp_all add: layer_setup_def sizes_ok_def)
  have "core_p c = p" using core_Create_fields(1) workload_fitsD(1) [OF s(1)] by blast
  then show "in64 n \<Longrightarrow> bolt_key_ok (core_table c) (buildKeyName c n)" using bolt_keys [of c n] assms by (simp add: bolt_setup_def)
qed

lemma bolt_load_all:
  assumes "bolt_setup H B E p nf vmax c rt d" "rows_of nf (bolt_raw B (bolt_db d)) (core_table c) = Map.empty"
    and "\<not> GetBool p prop_DoTransactions True" "start = GetInt64 p prop_InsertStart prop_InsertStartDefault" "0 \<le> start"
    and "start + totalOpCount p \<le> max64" "fair_schedule sched (GetInt p prop_ThreadCount 1) (totalOpCount p)"
  shows "\<exists>s0 s. start_threads p (DbWrapper H (boltDB_DB B)) rs \<lparr>cl_core = c, cl_threads = [], cl_world = (rt, d)\<rparr> = Ret s0 \<and>
    client_run H E (DbWrapper H (boltDB_DB B)) sched s0 = Ret s \<and> client_done s \<and>
    (\<forall>r. boltm.wrapped.ready nf vmax H B c (core_InitThread r c) (cl_world s)) \<and>
    (\<forall>j. start \<le> j \<and> j < start + totalOpCount p \<longrightarrow>
       (\<exists>m. rows_of nf (bolt_raw B (bolt_db (snd (cl_world s)))) (core_table c) (buildKeyName c j) = Some m \<and> dom m = set (fieldNames c)))"
proof -
  have "load_settings p sched" using assms(3-7) by (simp add: load_settings_def)
  from boltm.load_layer [OF bolt_setup_layer [OF assms(1)] assms(2) this, of rs] show ?thesis unfolding loaded_all_def assms(4) by blast
qed

text \<open>The example configuration on the finite-map store.\<close>

lemma sample_bolt_setup: "bolt_setup list_hdr map_bolt sample_env sample_props 3 20 sample_core fresh_runtime (fresh_bolt 3)"
proof -
  have "bolt_inv 3 20 map_bolt (fresh_bolt 3)" by (rule bolt_inv_fresh) (simp add: sizes_ok_def)
  moreover have "fieldCount sample_core = 3" using sample_core_fields(3) by (simp add: sample_props_def)
  ultimately show ?thesis
    using sample_core sample_core_more measuring_fresh [OF hdr_laws_list_hdr]
    by (simp add: bolt_setup_def workload_fits_def client_settings_def sample_props_def totalOpCount_def in64_def)
qed

lemma sample_fresh: "rows_of 3 (bolt_raw map_bolt (bolt_db (fresh_bolt 3))) t = Map.empty"
  by (simp add: rows_of_def fresh_bolt_def map_bolt_raw)

definition sample_sched :: "(nat \<times> ctx \<times> bool) list" where
  "sample_sched = concat (replicate 4 [(1, \<lambda>_. None, False), (0, \<lambda>_. None, False)])"

lemma sample_settings: "\<not> GetBool sample_props prop_DoTransactions True" "GetInt64 sample_props prop_InsertStart prop_InsertStartDefault = 0"
  "totalOpCount sample_props = 4" "GetInt sample_props prop_ThreadCount 1 = 2" "fair_schedule sample_sched 2 4"
  by (simp_all add: sample_props_def totalOpCount_def fair_schedule_def sample_sched_def eval_nat_numeral less_Suc_eq)

lemma sample_bounds: "0 + totalOpCount sample_props \<le> max64"
  "fair_schedule sample_sched (GetInt sample_props prop_ThreadCount 1) (totalOpCount sample_props)"
  by (simp_all add: sample_settings)

text \<open>(C1) A load inserts every record. For a workload with fields of a constant length, an empty table and a
  schedule of the workers that gives each of them enough turns, in whatever order, the workers start, all of
  them finish, and every key of the inserted range is in the table with all its fields: the division of
  the operations among the workers, the shared key sequence, the pooled buffers, the row encoding and the
  measurement neither lose nor duplicate a record.\<close>

theorem load_inserts_every_record:
  assumes "bolt_setup H B E p nf vmax c rt d" "rows_of nf (bolt_raw B (bolt_db d)) (core_table c) = Map.empty"
    and "\<not> GetBool p prop_DoTransactions True" "start = GetInt64 p prop_InsertStart prop_InsertStartDefault" "0 \<le> start"
    and "start + totalOpCount p \<le> max64" "fair_schedule sched (GetInt p prop_ThreadCount 1) (totalOpCount p)"
  shows "\<exists>s0 s. start_threads p (DbWrapper H (boltDB_DB B)) rs \<lparr>cl_core = c, cl_threads = [], cl_world = (rt, d)\<rparr> = Ret s0 \<and>
    client_run H E (DbWrapper H (boltDB_DB B)) sched s0 = Ret s \<and> client_done s \<and>
    (\<forall>j. start \<le> j \<and> j < start + totalOpCount p \<longrightarrow>
       (\<exists>m. rows_of nf (bolt_raw B (bolt_db (snd (cl_world s)))) (core_table c) (buildKeyName c j) = Some m \<and> dom m = set (fieldNames c)))"
  using bolt_load_all [OF assms] by blast

theorem load_inserts_every_record_witness:
  "\<exists>s0 s. start_threads sample_props (DbWrapper list_hdr (boltDB_DB map_bolt)) (\<lambda>_ _. 0)
      \<lparr>cl_core = sample_core, cl_threads = [], cl_world = (fresh_runtime, fresh_bolt 3)\<rparr> = Ret s0 \<and>
    client_run list_hdr sample_env (DbWrapper list_hdr (boltDB_DB map_bolt)) sample_sched s0 = Ret s \<and> client_done s \<and>
    rows_of 3 (bolt_raw map_bolt (bolt_db (snd (cl_world s)))) ''usertable'' (buildKeyName sample_core 3) \<noteq> None"
proof -
  obtain s0 s where s: "start_threads sample_props (DbWrapper list_hdr (boltDB_DB map_bolt)) (\<lambda>_ _. 0)
      \<lparr>cl_core = sample_core, cl_threads = [], cl_world = (fresh_runtime, fresh_bolt 3)\<rparr> = Ret s0"
    "client_run list_hdr sample_env (DbWrapper list_hdr (boltDB_DB map_bolt)) sample_sched s0 = Ret s" "client_done s"
    "\<forall>j. 0 \<le> j \<and> j < 0 + totalOpCount sample_props \<longrightarrow> (\<exists>m. rows_of 3 (bolt_raw map_bolt (bolt_db (snd (cl_world s))))
       (core_table sample_core) (buildKeyName sample_core j) = Some m \<and> dom m = set (fieldNames sample_core))"
    using load_inserts_every_record [OF sample_bolt_setup sample_fresh sample_settings(1) sample_settings(2) [symmetric] order_refl sample_bounds]
    by blast
  have "rows_of 3 (bolt_raw map_bolt (bolt_db (snd (cl_world s)))) ''usertable'' (buildKeyName sample_core 3) \<noteq> None"
    using s(4) [rule_format, of 3] sample_settings(3) sample_core_more(6) by auto
  then show ?thesis using s(1-3) by blast
qed

text \<open>(C3) What was loaded is read. After such a load, a read operation of a worker of a transaction phase, with
  the uniform request distribution over the inserted range, whatever its random stream, finds its row,
  passes the data integrity check if there is one, and leaves the rows unchanged.\<close>

theorem loaded_records_are_read:
  assumes "bolt_setup H B E p nf vmax c rt d" "rows_of nf (bolt_raw B (bolt_db d)) (core_table c) = Map.empty"
    and "\<not> GetBool p prop_DoTransactions True" "start = GetInt64 p prop_InsertStart prop_InsertStartDefault" "0 \<le> start"
    and "start + totalOpCount p \<le> max64" "fair_schedule sched (GetInt p prop_ThreadCount 1) (totalOpCount p)"
    and "GetString p prop_RequestDistribution prop_RequestDistributionDefault = ''uniform''"
    and "GetInt64 p prop_InsertCount (wrap64 (core_recordCount c - start)) = totalOpCount p"
  shows "\<exists>s. obind (start_threads p (DbWrapper H (boltDB_DB B)) rs \<lparr>cl_core = c, cl_threads = [], cl_world = (rt, d)\<rparr>)
      (client_run H E (DbWrapper H (boltDB_DB B)) sched) = Ret s \<and>
    (\<forall>r dc. \<exists>c' st' w'. doTransactionRead E (DbWrapper H (boltDB_DB B)) dc c (core_InitThread r c) (cl_world s) = Ret (None, c', st', w') \<and>
       rows_of nf (bolt_raw B (bolt_db (snd w'))) = rows_of nf (bolt_raw B (bolt_db (snd (cl_world s)))))"
proof -
  obtain s0 s where s: "start_threads p (DbWrapper H (boltDB_DB B)) rs \<lparr>cl_core = c, cl_threads = [], cl_world = (rt, d)\<rparr> = Ret s0"
    "client_run H E (DbWrapper H (boltDB_DB B)) sched s0 = Ret s"
    "\<And>r. boltm.wrapped.ready nf vmax H B c (core_InitThread r c) (cl_world s)"
    "\<And>j. start \<le> j \<Longrightarrow> j < start + totalOpCount p \<Longrightarrow>
       \<exists>m. rows_of nf (bolt_raw B (bolt_db (snd (cl_world s)))) (core_table c) (buildKeyName c j) = Some m \<and> dom m = set (fieldNames c)"
    using bolt_load_all [OF assms(1-7)] by blast
  have p: "client_settings p" "core_Create E p = Ret c" using assms(1) by (simp_all add: bolt_setup_def workload_fits_def)
  note cs = client_settingsD [OF p(1)] and cf = core_Create_fields [OF p(2)]
  have w: "wrap64 (start + totalOpCount p) = start + totalOpCount p" "wrap64 (start + totalOpCount p - 1) = start + totalOpCount p - 1"
    using assms(5,6) cs(1,2) by (simp_all add: wrap64_id in64_def)
  have k: "keyChooser c = GUniform (NewUniform start (start + totalOpCount p - 1))"
    using cf(13) assms(8,9) by (simp add: newKeyChooser_def assms(4) [symmetric] w)
  have "gen_ok (keyChooser c)"
    using assms(5,6) cs(1,2) unfolding k gen_ok.simps by (intro NewUniform_ok) (simp_all add: in64_def)
  moreover have "rows_of nf (bolt_raw B (bolt_db (snd (cl_world s)))) (core_table c) (buildKeyName c j) \<noteq> None"
    if "gen_lo (keyChooser c) \<le> j" "j \<le> gen_hi (keyChooser c)" for j
    using s(4) [of j] that by (auto simp: k NewUniform_def)
  ultimately have "\<exists>c' st' w'. doTransactionRead E (DbWrapper H (boltDB_DB B)) dc c (core_InitThread r c) (cl_world s) = Ret (None, c', st', w') \<and>
       rows_of nf (bolt_raw B (bolt_db (snd w'))) = rows_of nf (bolt_raw B (bolt_db (snd (cl_world s))))" for r dc
    using boltm.wrapped.doTransactionRead_found [OF s(3), of E dc r] by (simp add: case_prod_unfold) blast
  then show ?thesis using s(1,2) by auto
qed

theorem loaded_records_are_read_witness:
  "\<exists>s. obind (start_threads sample_props (DbWrapper list_hdr (boltDB_DB map_bolt)) (\<lambda>_ _. 0)
      \<lparr>cl_core = sample_core, cl_threads = [], cl_world = (fresh_runtime, fresh_bolt 3)\<rparr>)
      (client_run list_hdr sample_env (DbWrapper list_hdr (boltDB_DB map_bolt)) sample_sched) = Ret s \<and>
    (\<forall>r dc. \<exists>c' st' w'. doTransactionRead sample_env (DbWrapper list_hdr (boltDB_DB map_bolt)) dc sample_core
     (core_InitThread r sample_core) (cl_world s) = Ret (None, c', st', w'))"
proof -
  have "GetInt64 sample_props prop_InsertCount (wrap64 (core_recordCount sample_core - 0)) = totalOpCount sample_props"
    using sample_core_fields(16) by (simp add: sample_settings) (simp add: sample_props_def wrap64_def)
  moreover have "GetString sample_props prop_RequestDistribution prop_RequestDistributionDefault = ''uniform''"
    by (simp add: sample_props_def)
  ultimately show ?thesis
    using loaded_records_are_read [OF sample_bolt_setup sample_fresh sample_settings(1) sample_settings(2) [symmetric] order_refl sample_bounds,
        of "\<lambda>_ _. 0"] by blast
qed



section \<open>The layers over a flat store\<close>

text \<open>A load through a database layer, from a state of the measurement and of the layer.\<close>

definition load_succeeds ::
  "'h hdrlib \<Rightarrow> env \<Rightarrow> properties \<Rightarrow> core \<Rightarrow> (nat \<times> ctx \<times> bool) list \<Rightarrow> ('c, 'd) DB \<Rightarrow> ('d \<Rightarrow> tables) \<Rightarrow> 'h runtime \<Rightarrow> 'd \<Rightarrow> bool" where
  "load_succeeds H E p c sched db content rt d \<longleftrightarrow> (\<forall>rs. \<exists>s0 s.
     start_threads p (DbWrapper H db) rs \<lparr>cl_core = c, cl_threads = [], cl_world = (rt, d)\<rparr> = Ret s0 \<and>
     client_run H E (DbWrapper H db) sched s0 = Ret s \<and> client_done s \<and> loaded_all p c (content (snd (cl_world s))))"

lemma badger_keys:
  assumes "core_Create E p = Ret c" "CHR '':'' \<notin> set (core_table c)" "length (core_table c) \<le> 30000" "0 \<le> zeroPadding c" "zeroPadding c \<le> 30000" "in64 n"
    and "length (GetString p prop_KeyPrefix prop_KeyPrefixDefault) \<le> 2000"
  shows "badger_key_ok (core_table c) (buildKeyName c n)"
  using length_buildKeyName [of c n] core_Create_fields(1) [OF assms(1)] assms(2-7) by (simp add: badger_key_ok_def)



end
